(* ===== verification/RB_Heap.thy ===== *)
theory RB_Heap
  imports KT_Prelude
begin

section \<open>The red-black tree container, as its pointer program\<close>

text \<open>
  A translation of \<open>src/src/common/red_black_tree.c\<close>, statement by statement.  Nodes live
  in a store \<open>cells\<close> from addresses to node structures; \<open>0\<close> is the null pointer.  Every
  operation threads the state and returns \<open>None\<close> where the C program has no continuation:
  a dereference of a null or freed pointer, a double free, \<open>exit(EXIT_FAILURE)\<close> on a failed
  allocation, or a loop that does not end.  The facts about these operations are in the
  theories that import this one.
\<close>

subsection \<open>Data (red\_black\_tree.h)\<close>

datatype red_black_color = rbclrRed | rbclrBlack

record 'a red_black_node =
  object :: 'a
  color :: red_black_color
  parent :: ptr
  right :: ptr
  left :: ptr

text \<open>The tree header; the size is a \<open>size_t\<close>.\<close>

record 'a red_black_tree =
  root :: ptr
  tree_size :: "64 word"
  keycmp :: "'a \<Rightarrow> 'a \<Rightarrow> int"

text \<open>
  The header together with the memory its nodes live in: the store, the next address the
  allocator hands out and the first address it cannot hand out.
\<close>

record 'a rbstate = "'a red_black_tree" +
  cells :: "ptr \<rightharpoonup> 'a red_black_node"
  brk :: nat
  limit :: nat

subsection \<open>Field access through a pointer\<close>

definition deref :: "ptr \<Rightarrow> 'a rbstate \<Rightarrow> 'a red_black_node option" where
  "deref p s = (if p = NULL then None else cells s p)"

definition store :: "ptr \<Rightarrow> 'a red_black_node \<Rightarrow> 'a rbstate \<Rightarrow> 'a rbstate" where
  "store p n s = s\<lparr>cells := (cells s)(p \<mapsto> n)\<rparr>"

definition get_object :: "ptr \<Rightarrow> 'a rbstate \<Rightarrow> 'a option" where
  "get_object p s = map_option object (deref p s)"

definition get_color :: "ptr \<Rightarrow> 'a rbstate \<Rightarrow> red_black_color option" where
  "get_color p s = map_option color (deref p s)"

definition get_parent :: "ptr \<Rightarrow> 'a rbstate \<Rightarrow> ptr option" where
  "get_parent p s = map_option parent (deref p s)"

definition get_right :: "ptr \<Rightarrow> 'a rbstate \<Rightarrow> ptr option" where
  "get_right p s = map_option right (deref p s)"

definition get_left :: "ptr \<Rightarrow> 'a rbstate \<Rightarrow> ptr option" where
  "get_left p s = map_option left (deref p s)"

definition set_object :: "ptr \<Rightarrow> 'a \<Rightarrow> 'a rbstate \<Rightarrow> 'a rbstate option" where
  "set_object p v s = map_option (\<lambda>n. store p (n\<lparr>object := v\<rparr>) s) (deref p s)"

definition set_color :: "ptr \<Rightarrow> red_black_color \<Rightarrow> 'a rbstate \<Rightarrow> 'a rbstate option" where
  "set_color p v s = map_option (\<lambda>n. store p (n\<lparr>color := v\<rparr>) s) (deref p s)"

definition set_parent :: "ptr \<Rightarrow> ptr \<Rightarrow> 'a rbstate \<Rightarrow> 'a rbstate option" where
  "set_parent p v s = map_option (\<lambda>n. store p (n\<lparr>parent := v\<rparr>) s) (deref p s)"

definition set_right :: "ptr \<Rightarrow> ptr \<Rightarrow> 'a rbstate \<Rightarrow> 'a rbstate option" where
  "set_right p v s = map_option (\<lambda>n. store p (n\<lparr>right := v\<rparr>) s) (deref p s)"

definition set_left :: "ptr \<Rightarrow> ptr \<Rightarrow> 'a rbstate \<Rightarrow> 'a rbstate option" where
  "set_left p v s = map_option (\<lambda>n. store p (n\<lparr>left := v\<rparr>) s) (deref p s)"

text \<open>\<open>p && p->color == rbclrRed\<close>, with the short circuit of the conjunction.\<close>

definition is_red :: "ptr \<Rightarrow> 'a rbstate \<Rightarrow> bool option" where
  "is_red p s = (if p = NULL then Some False else map_option (\<lambda>c. c = rbclrRed) (get_color p s))"

text \<open>\<open>! p || p->color == rbclrBlack\<close>.\<close>

definition null_or_black :: "ptr \<Rightarrow> 'a rbstate \<Rightarrow> bool option" where
  "null_or_black p s = (if p = NULL then Some True else map_option (\<lambda>c. c = rbclrBlack) (get_color p s))"

text \<open>\<open>malloc\<close> of one node structure, and \<open>free\<close>.\<close>

definition malloc_node :: "'a rbstate \<Rightarrow> ptr" where
  "malloc_node s = (if brk s < limit s then brk s else NULL)"

definition free_node :: "ptr \<Rightarrow> 'a rbstate \<Rightarrow> 'a rbstate option" where
  "free_node p s =
     (if p = NULL then Some s
      else if cells s p = None then None
      else Some (s\<lparr>cells := (cells s)(p := None)\<rparr>))"

subsection \<open>Operations on nodes\<close>

definition rbnode_construct ::
    "'a \<Rightarrow> red_black_color \<Rightarrow> 'a rbstate \<Rightarrow> (ptr \<times> 'a rbstate) option" where
  "rbnode_construct obj col s =
     (let node = malloc_node s in
      if node = NULL then None
      else Some (node,
        s\<lparr>cells := (cells s)(node \<mapsto>
             \<lparr>object = obj, color = col, parent = NULL, right = NULL, left = NULL\<rparr>),
          brk := Suc (brk s)\<rparr>))"

partial_function (option) rbnode_destruct :: "ptr \<Rightarrow> 'a rbstate \<Rightarrow> 'a rbstate option" where
  [code]: "rbnode_destruct node s =
     (if node = NULL then Some s
      else do {
        r \<leftarrow> get_right node s;
        s \<leftarrow> rbnode_destruct r s;
        l \<leftarrow> get_left node s;
        s \<leftarrow> rbnode_destruct l s;
        free_node node s
      })"

partial_function (option) rbnode_depth :: "ptr \<Rightarrow> 'a rbstate \<Rightarrow> int option" where
  [code]: "rbnode_depth node s = do {
     r \<leftarrow> get_right node s;
     iRightDepth \<leftarrow> (if r \<noteq> NULL then rbnode_depth r s else Some 0);
     l \<leftarrow> get_left node s;
     iLeftDepth \<leftarrow> (if l \<noteq> NULL then rbnode_depth l s else Some 0);
     Some (if iRightDepth > iLeftDepth then iRightDepth + 1 else iLeftDepth + 1)
   }"

partial_function (option) rbnode_minimum :: "ptr \<Rightarrow> 'a rbstate \<Rightarrow> ptr option" where
  [code]: "rbnode_minimum node s = do {
     l \<leftarrow> get_left node s;
     if l \<noteq> NULL then rbnode_minimum l s else Some node
   }"

partial_function (option) rbnode_maximum :: "ptr \<Rightarrow> 'a rbstate \<Rightarrow> ptr option" where
  [code]: "rbnode_maximum node s = do {
     r \<leftarrow> get_right node s;
     if r \<noteq> NULL then rbnode_maximum r s else Some node
   }"

definition rbnode_replace :: "ptr \<Rightarrow> 'a \<Rightarrow> 'a rbstate \<Rightarrow> 'a rbstate option" where
  "rbnode_replace node obj s = set_object node obj s"

text \<open>
  The two loops of \<open>rbnode_successor\<close>: down the left spine of the right child, which is the
  loop of \<open>rbnode_minimum\<close>, or up while coming from the right.
\<close>

partial_function (option) rbnode_successor_up :: "ptr \<Rightarrow> ptr \<Rightarrow> 'a rbstate \<Rightarrow> ptr option" where
  [code]: "rbnode_successor_up prev_node succ_node s =
     (if succ_node = NULL then Some NULL
      else do {
        r \<leftarrow> get_right succ_node s;
        if prev_node = r then do {
          p \<leftarrow> get_parent succ_node s;
          rbnode_successor_up succ_node p s
        } else Some succ_node
      })"

definition rbnode_successor :: "ptr \<Rightarrow> 'a rbstate \<Rightarrow> ptr option" where
  "rbnode_successor node s =
     (if node = NULL then Some NULL
      else do {
        r \<leftarrow> get_right node s;
        if r \<noteq> NULL then rbnode_minimum r s
        else do {
          p \<leftarrow> get_parent node s;
          rbnode_successor_up node p s
        }
      })"

partial_function (option) rbnode_predecessor_up :: "ptr \<Rightarrow> ptr \<Rightarrow> 'a rbstate \<Rightarrow> ptr option" where
  [code]: "rbnode_predecessor_up prev_node pred_node s =
     (if pred_node = NULL then Some NULL
      else do {
        l \<leftarrow> get_left pred_node s;
        if prev_node = l then do {
          p \<leftarrow> get_parent pred_node s;
          rbnode_predecessor_up pred_node p s
        } else Some pred_node
      })"

definition rbnode_predecessor :: "ptr \<Rightarrow> 'a rbstate \<Rightarrow> ptr option" where
  "rbnode_predecessor node s =
     (if node = NULL then Some NULL
      else do {
        l \<leftarrow> get_left node s;
        if l \<noteq> NULL then rbnode_maximum l s
        else do {
          p \<leftarrow> get_parent node s;
          rbnode_predecessor_up node p s
        }
      })"

partial_function (option) rbnode_duplicate :: "ptr \<Rightarrow> 'a rbstate \<Rightarrow> (ptr \<times> 'a rbstate) option" where
  [code]: "rbnode_duplicate node s = do {
     ob \<leftarrow> get_object node s;
     c \<leftarrow> get_color node s;
     (dup_node, s) \<leftarrow> rbnode_construct ob c s;
     r \<leftarrow> get_right node s;
     s \<leftarrow> (if r \<noteq> NULL then do {
              (d, s) \<leftarrow> rbnode_duplicate r s;
              s \<leftarrow> set_right dup_node d s;
              set_parent d dup_node s
            } else set_right dup_node NULL s);
     l \<leftarrow> get_left node s;
     s \<leftarrow> (if l \<noteq> NULL then do {
              (d, s) \<leftarrow> rbnode_duplicate l s;
              s \<leftarrow> set_left dup_node d s;
              set_parent d dup_node s
            } else set_left dup_node NULL s);
     Some (dup_node, s)
   }"

text \<open>The callback of a traversal acts on a state of its own, the \<open>param\<close> of the code.\<close>

partial_function (option) rbnode_traverse ::
    "ptr \<Rightarrow> ('a \<Rightarrow> 'c \<Rightarrow> 'c) \<Rightarrow> 'c \<Rightarrow> 'a rbstate \<Rightarrow> 'c option" where
  [code]: "rbnode_traverse node opfunc param s =
     (if node = NULL then Some param
      else do {
        l \<leftarrow> get_left node s;
        param \<leftarrow> rbnode_traverse l opfunc param s;
        ob \<leftarrow> get_object node s;
        r \<leftarrow> get_right node s;
        rbnode_traverse r opfunc (opfunc ob param) s
      })"

definition rbtree_rotate_left :: "ptr \<Rightarrow> 'a rbstate \<Rightarrow> 'a rbstate option" where
  "rbtree_rotate_left x_node s = do {
     y_node \<leftarrow> get_right x_node s;
     t2 \<leftarrow> get_left y_node s;
     s \<leftarrow> set_right x_node t2 s;
     s \<leftarrow> (if t2 \<noteq> NULL then set_parent t2 x_node s else Some s);
     xp \<leftarrow> get_parent x_node s;
     s \<leftarrow> set_parent y_node xp s;
     s \<leftarrow> (if xp = NULL then Some (s\<lparr>root := y_node\<rparr>)
           else do {
             xpl \<leftarrow> get_left xp s;
             if x_node = xpl then set_left xp y_node s else set_right xp y_node s
           });
     s \<leftarrow> set_left y_node x_node s;
     set_parent x_node y_node s
   }"

definition rbtree_rotate_right :: "ptr \<Rightarrow> 'a rbstate \<Rightarrow> 'a rbstate option" where
  "rbtree_rotate_right y_node s = do {
     x_node \<leftarrow> get_left y_node s;
     t2 \<leftarrow> get_right x_node s;
     s \<leftarrow> set_left y_node t2 s;
     s \<leftarrow> (if t2 \<noteq> NULL then set_parent t2 y_node s else Some s);
     yp \<leftarrow> get_parent y_node s;
     s \<leftarrow> set_parent x_node yp s;
     s \<leftarrow> (if yp = NULL then Some (s\<lparr>root := x_node\<rparr>)
           else do {
             ypl \<leftarrow> get_left yp s;
             if y_node = ypl then set_left yp x_node s else set_right yp x_node s
           });
     s \<leftarrow> set_right x_node y_node s;
     set_parent y_node x_node s
   }"

partial_function (option) rbnode_traverse_right ::
    "ptr \<Rightarrow> ('a \<Rightarrow> 'c \<Rightarrow> 'c) \<Rightarrow> 'c \<Rightarrow> 'a rbstate \<Rightarrow> 'c option" where
  [code]: "rbnode_traverse_right node opfunc param s =
     (if node = NULL then Some param
      else do {
        r \<leftarrow> get_right node s;
        param \<leftarrow> rbnode_traverse_right r opfunc param s;
        ob \<leftarrow> get_object node s;
        l \<leftarrow> get_left node s;
        rbnode_traverse_right l opfunc (opfunc ob param) s
      })"

text \<open>
  \<open>rbtree_insert_fixup\<close>: the loop that moves a red-red conflict up, then the repainting of
  the root.  The build passes \<open>-DNDEBUG\<close>, so the \<open>assert\<close> at its head is not compiled.
\<close>

partial_function (option) rbtree_insert_fixup_loop :: "ptr \<Rightarrow> 'a rbstate \<Rightarrow> 'a rbstate option" where
  [code]: "rbtree_insert_fixup_loop curr_node s =
     (if curr_node = root s then Some s
      else do {
        p \<leftarrow> get_parent curr_node s;
        pc \<leftarrow> get_color p s;
        if pc \<noteq> rbclrRed then Some s
        else do {
          grandparent \<leftarrow> get_parent p s;
          gl \<leftarrow> get_left grandparent s;
          if p = gl then do {
            uncle \<leftarrow> get_right grandparent s;
            ured \<leftarrow> is_red uncle s;
            if ured then do {
              s \<leftarrow> set_color p rbclrBlack s;
              s \<leftarrow> set_color uncle rbclrBlack s;
              s \<leftarrow> set_color grandparent rbclrRed s;
              rbtree_insert_fixup_loop grandparent s
            } else do {
              pr \<leftarrow> get_right p s;
              (curr_node, s) \<leftarrow>
                (if curr_node = pr then do {
                   s \<leftarrow> rbtree_rotate_left p s;
                   Some (p, s)
                 } else Some (curr_node, s));
              p \<leftarrow> get_parent curr_node s;
              s \<leftarrow> set_color p rbclrBlack s;
              s \<leftarrow> set_color grandparent rbclrRed s;
              s \<leftarrow> rbtree_rotate_right grandparent s;
              rbtree_insert_fixup_loop curr_node s
            }
          } else do {
            uncle \<leftarrow> get_left grandparent s;
            ured \<leftarrow> is_red uncle s;
            if ured then do {
              s \<leftarrow> set_color p rbclrBlack s;
              s \<leftarrow> set_color uncle rbclrBlack s;
              s \<leftarrow> set_color grandparent rbclrRed s;
              rbtree_insert_fixup_loop grandparent s
            } else do {
              pl \<leftarrow> get_left p s;
              (curr_node, s) \<leftarrow>
                (if curr_node = pl then do {
                   s \<leftarrow> rbtree_rotate_right p s;
                   Some (p, s)
                 } else Some (curr_node, s));
              p \<leftarrow> get_parent curr_node s;
              s \<leftarrow> set_color p rbclrBlack s;
              s \<leftarrow> set_color grandparent rbclrRed s;
              s \<leftarrow> rbtree_rotate_left grandparent s;
              rbtree_insert_fixup_loop curr_node s
            }
          }
        }
      })"

definition rbtree_insert_fixup :: "ptr \<Rightarrow> 'a rbstate \<Rightarrow> 'a rbstate option" where
  "rbtree_insert_fixup node s = do {
     s \<leftarrow> rbtree_insert_fixup_loop node s;
     set_color (root s) rbclrBlack s
   }"

text \<open>
  \<open>rbtree_remove_fixup\<close>.  One iteration is \<open>rbtree_remove_fixup_left\<close> when the current
  node is a left child and \<open>rbtree_remove_fixup_right\<close> otherwise; each returns the next
  current node.
\<close>

definition rbtree_remove_fixup_left :: "ptr \<Rightarrow> 'a rbstate \<Rightarrow> (ptr \<times> 'a rbstate) option" where
  "rbtree_remove_fixup_left curr_node s = do {
     p \<leftarrow> get_parent curr_node s;
     sibling \<leftarrow> get_right p s;
     sred \<leftarrow> is_red sibling s;
     (sibling, s) \<leftarrow>
       (if sred then do {
          s \<leftarrow> set_color sibling rbclrBlack s;
          s \<leftarrow> set_color p rbclrRed s;
          s \<leftarrow> rbtree_rotate_left p s;
          p \<leftarrow> get_parent curr_node s;
          sibling \<leftarrow> get_right p s;
          Some (sibling, s)
        } else Some (sibling, s));
     p \<leftarrow> get_parent curr_node s;
     both_black \<leftarrow>
       (if sibling = NULL then Some False
        else do {
          sl \<leftarrow> get_left sibling s;
          lb \<leftarrow> null_or_black sl s;
          if \<not> lb then Some False
          else do {
            sr \<leftarrow> get_right sibling s;
            null_or_black sr s
          }
        });
     if both_black then do {
       s \<leftarrow> set_color sibling rbclrRed s;
       pc \<leftarrow> get_color p s;
       if pc = rbclrRed then do {
         s \<leftarrow> set_color p rbclrBlack s;
         Some (root s, s)
       } else Some (p, s)
     } else if sibling = NULL then do {
       pc \<leftarrow> get_color p s;
       if pc = rbclrRed then do {
         s \<leftarrow> set_color p rbclrBlack s;
         Some (root s, s)
       } else Some (p, s)
     } else do {
       sr \<leftarrow> get_right sibling s;
       rred \<leftarrow> is_red sr s;
       s \<leftarrow> (if rred then do {
                s \<leftarrow> set_color sr rbclrBlack s;
                rbtree_rotate_left p s
              } else do {
                s \<leftarrow> rbtree_rotate_right sibling s;
                p \<leftarrow> get_parent curr_node s;
                sibling \<leftarrow> get_right p s;
                rbtree_rotate_left sibling s
              });
       p \<leftarrow> get_parent curr_node s;
       gp \<leftarrow> get_parent p s;
       pc \<leftarrow> get_color p s;
       s \<leftarrow> (if gp \<noteq> NULL then set_color gp pc s else Some s);
       s \<leftarrow> set_color p rbclrBlack s;
       Some (root s, s)
     }
   }"

definition rbtree_remove_fixup_right :: "ptr \<Rightarrow> 'a rbstate \<Rightarrow> (ptr \<times> 'a rbstate) option" where
  "rbtree_remove_fixup_right curr_node s = do {
     p \<leftarrow> get_parent curr_node s;
     sibling \<leftarrow> get_left p s;
     sred \<leftarrow> is_red sibling s;
     (sibling, s) \<leftarrow>
       (if sred then do {
          s \<leftarrow> set_color sibling rbclrBlack s;
          s \<leftarrow> set_color p rbclrRed s;
          s \<leftarrow> rbtree_rotate_right p s;
          p \<leftarrow> get_parent curr_node s;
          sibling \<leftarrow> get_left p s;
          Some (sibling, s)
        } else Some (sibling, s));
     p \<leftarrow> get_parent curr_node s;
     both_black \<leftarrow>
       (if sibling = NULL then Some False
        else do {
          sl \<leftarrow> get_left sibling s;
          lb \<leftarrow> null_or_black sl s;
          if \<not> lb then Some False
          else do {
            sr \<leftarrow> get_right sibling s;
            null_or_black sr s
          }
        });
     if both_black then do {
       s \<leftarrow> set_color sibling rbclrRed s;
       pc \<leftarrow> get_color p s;
       if pc = rbclrRed then do {
         s \<leftarrow> set_color p rbclrBlack s;
         Some (root s, s)
       } else Some (p, s)
     } else if sibling = NULL then do {
       pc \<leftarrow> get_color p s;
       if pc = rbclrRed then do {
         s \<leftarrow> set_color p rbclrBlack s;
         Some (root s, s)
       } else Some (p, s)
     } else do {
       sl \<leftarrow> get_left sibling s;
       lred \<leftarrow> is_red sl s;
       s \<leftarrow> (if lred then do {
                s \<leftarrow> set_color sl rbclrBlack s;
                rbtree_rotate_right p s
              } else do {
                s \<leftarrow> rbtree_rotate_left sibling s;
                p \<leftarrow> get_parent curr_node s;
                sibling \<leftarrow> get_left p s;
                rbtree_rotate_right sibling s
              });
       p \<leftarrow> get_parent curr_node s;
       gp \<leftarrow> get_parent p s;
       pc \<leftarrow> get_color p s;
       s \<leftarrow> (if gp \<noteq> NULL then set_color gp pc s else Some s);
       s \<leftarrow> set_color p rbclrBlack s;
       Some (root s, s)
     }
   }"

partial_function (option) rbtree_remove_fixup_loop ::
    "ptr \<Rightarrow> 'a rbstate \<Rightarrow> (ptr \<times> 'a rbstate) option" where
  [code]: "rbtree_remove_fixup_loop curr_node s =
     (if curr_node = root s then Some (curr_node, s)
      else do {
        c \<leftarrow> get_color curr_node s;
        if c \<noteq> rbclrBlack then Some (curr_node, s)
        else do {
          p \<leftarrow> get_parent curr_node s;
          pl \<leftarrow> get_left p s;
          (curr_node, s) \<leftarrow>
            (if curr_node = pl then rbtree_remove_fixup_left curr_node s
             else rbtree_remove_fixup_right curr_node s);
          rbtree_remove_fixup_loop curr_node s
        }
      })"

definition rbtree_remove_fixup :: "ptr \<Rightarrow> 'a rbstate \<Rightarrow> 'a rbstate option" where
  "rbtree_remove_fixup node s = do {
     (curr_node, s) \<leftarrow> rbtree_remove_fixup_loop node s;
     set_color curr_node rbclrBlack s
   }"

subsection \<open>Public interface\<close>

definition rbtree_init :: "('a \<Rightarrow> 'a \<Rightarrow> int) \<Rightarrow> 'a rbstate \<Rightarrow> 'a rbstate" where
  "rbtree_init cmp s = s\<lparr>keycmp := cmp, tree_size := 0, root := NULL\<rparr>"

text \<open>
  \<open>rbtree_construct\<close>: the first argument is what \<open>malloc(sizeof(red_black_tree_t))\<close> gave,
  \<open>None\<close> for a null pointer, after which the code exits.
\<close>

definition rbtree_construct ::
    "'a rbstate option \<Rightarrow> ('a \<Rightarrow> 'a \<Rightarrow> int) \<Rightarrow> 'a rbstate option" where
  "rbtree_construct tree cmp = map_option (rbtree_init cmp) tree"

text \<open>\<open>rbtree_clean\<close> and \<open>rbtree_destruct\<close> accept a null tree.\<close>

definition rbtree_clean :: "'a rbstate option \<Rightarrow> 'a rbstate option option" where
  "rbtree_clean tree =
     (case tree of
        None \<Rightarrow> Some None
      | Some s \<Rightarrow> do {
          s \<leftarrow> rbnode_destruct (root s) s;
          Some (Some (s\<lparr>root := NULL, tree_size := 0\<rparr>))
        })"

text \<open>\<open>rbtree_destruct\<close> gives the node store that is left once the header is freed.\<close>

definition rbtree_destruct ::
    "'a rbstate option \<Rightarrow> (ptr \<rightharpoonup> 'a red_black_node) option option" where
  "rbtree_destruct tree = map_option (map_option cells) (rbtree_clean tree)"

definition rbtree_size :: "'a rbstate \<Rightarrow> 64 word" where
  "rbtree_size s = tree_size s"

definition rbtree_depth :: "'a rbstate \<Rightarrow> int option" where
  "rbtree_depth s = (if root s \<noteq> NULL then rbnode_depth (root s) s else Some 0)"

text \<open>The branch all insertions share: the first node becomes a black root.\<close>

definition rbtree_insert_first :: "'a \<Rightarrow> 'a rbstate \<Rightarrow> (ptr \<times> 'a rbstate) option" where
  "rbtree_insert_first obj s = do {
     (new_node, s) \<leftarrow> rbnode_construct obj rbclrBlack s;
     Some (new_node, s\<lparr>root := new_node, tree_size := 1\<rparr>)
   }"

partial_function (option) rbtree_insert_loop ::
    "'a \<Rightarrow> ptr \<Rightarrow> 'a rbstate \<Rightarrow> (ptr \<times> 'a rbstate) option" where
  [code]: "rbtree_insert_loop obj cur_node s = do {
     ob \<leftarrow> get_object cur_node s;
     if keycmp s obj ob > 0 then do {
       l \<leftarrow> get_left cur_node s;
       if l = NULL then do {
         (new_node, s) \<leftarrow> rbnode_construct obj rbclrRed s;
         s \<leftarrow> set_left cur_node new_node s;
         s \<leftarrow> set_parent new_node cur_node s;
         Some (new_node, s)
       } else rbtree_insert_loop obj l s
     } else do {
       r \<leftarrow> get_right cur_node s;
       if r = NULL then do {
         (new_node, s) \<leftarrow> rbnode_construct obj rbclrRed s;
         s \<leftarrow> set_right cur_node new_node s;
         s \<leftarrow> set_parent new_node cur_node s;
         Some (new_node, s)
       } else rbtree_insert_loop obj r s
     }
   }"

definition rbtree_insert :: "'a \<Rightarrow> 'a rbstate \<Rightarrow> (ptr \<times> 'a rbstate) option" where
  "rbtree_insert obj s =
     (if root s = NULL then rbtree_insert_first obj s
      else do {
        (new_node, s) \<leftarrow> rbtree_insert_loop obj (root s) s;
        s \<leftarrow> Some (s\<lparr>tree_size := tree_size s + 1\<rparr>);
        s \<leftarrow> rbtree_insert_fixup new_node s;
        Some (new_node, s)
      })"

text \<open>The boolean of the result is \<open>*is_new_node\<close>.\<close>

partial_function (option) rbtree_insert_unique_loop ::
    "'a \<Rightarrow> ptr \<Rightarrow> 'a rbstate \<Rightarrow> (ptr \<times> bool \<times> 'a rbstate) option" where
  [code]: "rbtree_insert_unique_loop obj cur_node s = do {
     ob \<leftarrow> get_object cur_node s;
     let cmp = keycmp s obj ob;
     if cmp = 0 then Some (cur_node, False, s)
     else if cmp > 0 then do {
       l \<leftarrow> get_left cur_node s;
       if l = NULL then do {
         (new_node, s) \<leftarrow> rbnode_construct obj rbclrRed s;
         s \<leftarrow> set_left cur_node new_node s;
         s \<leftarrow> set_parent new_node cur_node s;
         Some (new_node, True, s)
       } else rbtree_insert_unique_loop obj l s
     } else do {
       r \<leftarrow> get_right cur_node s;
       if r = NULL then do {
         (new_node, s) \<leftarrow> rbnode_construct obj rbclrRed s;
         s \<leftarrow> set_right cur_node new_node s;
         s \<leftarrow> set_parent new_node cur_node s;
         Some (new_node, True, s)
       } else rbtree_insert_unique_loop obj r s
     }
   }"

definition rbtree_insert_unique :: "'a \<Rightarrow> 'a rbstate \<Rightarrow> (ptr \<times> bool \<times> 'a rbstate) option" where
  "rbtree_insert_unique obj s =
     (if root s = NULL then do {
        (new_node, s) \<leftarrow> rbtree_insert_first obj s;
        Some (new_node, True, s)
      } else do {
        (node, is_new_node, s) \<leftarrow> rbtree_insert_unique_loop obj (root s) s;
        if \<not> is_new_node then Some (node, False, s)
        else do {
          s \<leftarrow> Some (s\<lparr>tree_size := tree_size s + 1\<rparr>);
          s \<leftarrow> rbtree_insert_fixup node s;
          Some (node, True, s)
        }
      })"

definition rbtree_insert_succ :: "ptr \<Rightarrow> 'a \<Rightarrow> 'a rbstate \<Rightarrow> (ptr \<times> 'a rbstate) option" where
  "rbtree_insert_succ at_node obj s =
     (if root s = NULL then rbtree_insert_first obj s
      else do {
        (new_node, s) \<leftarrow> rbnode_construct obj rbclrRed s;
        (par, s) \<leftarrow>
          (if at_node = NULL then do {
             par \<leftarrow> rbnode_minimum (root s) s;
             s \<leftarrow> set_left par new_node s;
             Some (par, s)
           } else do {
             r \<leftarrow> get_right at_node s;
             if r = NULL then do {
               s \<leftarrow> set_right at_node new_node s;
               Some (at_node, s)
             } else do {
               par \<leftarrow> rbnode_minimum r s;
               s \<leftarrow> set_left par new_node s;
               Some (par, s)
             }
           });
        s \<leftarrow> set_parent new_node par s;
        s \<leftarrow> Some (s\<lparr>tree_size := tree_size s + 1\<rparr>);
        s \<leftarrow> rbtree_insert_fixup new_node s;
        Some (new_node, s)
      })"

definition rbtree_insert_pred :: "ptr \<Rightarrow> 'a \<Rightarrow> 'a rbstate \<Rightarrow> (ptr \<times> 'a rbstate) option" where
  "rbtree_insert_pred at_node obj s =
     (if root s = NULL then rbtree_insert_first obj s
      else do {
        (new_node, s) \<leftarrow> rbnode_construct obj rbclrRed s;
        (par, s) \<leftarrow>
          (if at_node = NULL then do {
             par \<leftarrow> rbnode_maximum (root s) s;
             s \<leftarrow> set_right par new_node s;
             Some (par, s)
           } else do {
             l \<leftarrow> get_left at_node s;
             if l = NULL then do {
               s \<leftarrow> set_left at_node new_node s;
               Some (at_node, s)
             } else do {
               par \<leftarrow> rbnode_maximum l s;
               s \<leftarrow> set_right par new_node s;
               Some (par, s)
             }
           });
        s \<leftarrow> set_parent new_node par s;
        s \<leftarrow> Some (s\<lparr>tree_size := tree_size s + 1\<rparr>);
        s \<leftarrow> rbtree_insert_fixup new_node s;
        Some (new_node, s)
      })"

partial_function (option) rbtree_find_loop :: "'a \<Rightarrow> ptr \<Rightarrow> 'a rbstate \<Rightarrow> ptr option" where
  [code]: "rbtree_find_loop obj cur_node s =
     (if cur_node = NULL then Some NULL
      else do {
        ob \<leftarrow> get_object cur_node s;
        let comp_result = keycmp s obj ob;
        if comp_result = 0 then Some cur_node
        else if comp_result > 0 then do {
          l \<leftarrow> get_left cur_node s;
          rbtree_find_loop obj l s
        } else do {
          r \<leftarrow> get_right cur_node s;
          rbtree_find_loop obj r s
        }
      })"

definition rbtree_find :: "'a \<Rightarrow> 'a rbstate \<Rightarrow> ptr option" where
  "rbtree_find obj s = rbtree_find_loop obj (root s) s"

text \<open>
  The relinking that exchanges a node of two children with its successor
  (\<open>rbtree_remove_at\<close>, first part).
\<close>

definition rbtree_swap_succ :: "ptr \<Rightarrow> 'a rbstate \<Rightarrow> 'a rbstate option" where
  "rbtree_swap_succ node s = do {
     nr \<leftarrow> get_right node s;
     succ_node \<leftarrow> rbnode_minimum nr s;
     let immediate_succ = (nr = succ_node);
     succ_parent \<leftarrow> get_parent succ_node s;
     succ_left \<leftarrow> get_left succ_node s;
     succ_right \<leftarrow> get_right succ_node s;
     succ_color \<leftarrow> get_color succ_node s;
     np \<leftarrow> get_parent node s;
     s \<leftarrow> set_parent succ_node np s;
     nl \<leftarrow> get_left node s;
     s \<leftarrow> set_left succ_node nl s;
     s \<leftarrow> set_right succ_node (if immediate_succ then node else nr) s;
     nc \<leftarrow> get_color node s;
     s \<leftarrow> set_color succ_node nc s;
     s \<leftarrow> set_parent node (if immediate_succ then succ_node else succ_parent) s;
     s \<leftarrow> set_left node succ_left s;
     s \<leftarrow> set_right node succ_right s;
     s \<leftarrow> set_color node succ_color s;
     s \<leftarrow> (if \<not> immediate_succ then do {
              np' \<leftarrow> get_parent node s;
              npl \<leftarrow> get_left np' s;
              if succ_node = npl then set_left np' node s else set_right np' node s
            } else Some s);
     nl' \<leftarrow> get_left node s;
     s \<leftarrow> (if nl' \<noteq> NULL then set_parent nl' node s else Some s);
     nr' \<leftarrow> get_right node s;
     s \<leftarrow> (if nr' \<noteq> NULL then set_parent nr' node s else Some s);
     sp \<leftarrow> get_parent succ_node s;
     s \<leftarrow> (if sp \<noteq> NULL then do {
              spl \<leftarrow> get_left sp s;
              if node = spl then set_left sp succ_node s else set_right sp succ_node s
            } else Some (s\<lparr>root := succ_node\<rparr>));
     sl \<leftarrow> get_left succ_node s;
     s \<leftarrow> (if sl \<noteq> NULL then set_parent sl succ_node s else Some s);
     sr \<leftarrow> get_right succ_node s;
     (if sr \<noteq> NULL then set_parent sr succ_node s else Some s)
   }"

text \<open>The splicing out of a node of at most one child (second part).\<close>

definition rbtree_splice_out :: "ptr \<Rightarrow> 'a rbstate \<Rightarrow> 'a rbstate option" where
  "rbtree_splice_out node s = do {
     nl \<leftarrow> get_left node s;
     child \<leftarrow> (if nl \<noteq> NULL then Some nl else get_right node s);
     np \<leftarrow> get_parent node s;
     s \<leftarrow> (if child \<noteq> NULL then set_parent child np s else Some s);
     s \<leftarrow> (if np = NULL then Some (s\<lparr>root := child\<rparr>)
           else do {
             npl \<leftarrow> get_left np s;
             if node = npl then set_left np child s else set_right np child s
           });
     c \<leftarrow> get_color node s;
     s \<leftarrow> (if c = rbclrBlack \<and> child \<noteq> NULL then rbtree_remove_fixup child s else Some s);
     s \<leftarrow> set_left node NULL s;
     s \<leftarrow> set_right node NULL s;
     s \<leftarrow> free_node node s;
     Some (s\<lparr>tree_size := tree_size s - 1\<rparr>)
   }"

definition rbtree_remove_at :: "ptr \<Rightarrow> 'a rbstate \<Rightarrow> 'a rbstate option" where
  "rbtree_remove_at node s =
     (if tree_size s = 1 then do {
        s \<leftarrow> rbnode_destruct (root s) s;
        Some (s\<lparr>root := NULL, tree_size := 0\<rparr>)
      } else do {
        nl \<leftarrow> get_left node s;
        nr \<leftarrow> get_right node s;
        s \<leftarrow> (if nl \<noteq> NULL \<and> nr \<noteq> NULL then rbtree_swap_succ node s else Some s);
        rbtree_splice_out node s
      })"

text \<open>\<open>rbtree_remove\<close> hands the stored object back, or a null pointer.\<close>

definition rbtree_remove :: "'a \<Rightarrow> 'a rbstate \<Rightarrow> ('a option \<times> 'a rbstate) option" where
  "rbtree_remove obj s = do {
     node \<leftarrow> rbtree_find obj s;
     if node \<noteq> NULL then do {
       objectToFree \<leftarrow> get_object node s;
       s \<leftarrow> rbtree_remove_at node s;
       Some (Some objectToFree, s)
     } else Some (None, s)
   }"

definition rbtree_minimum :: "'a rbstate \<Rightarrow> ptr option" where
  "rbtree_minimum s = (if root s \<noteq> NULL then rbnode_minimum (root s) s else Some NULL)"

definition rbtree_maximum :: "'a rbstate \<Rightarrow> ptr option" where
  "rbtree_maximum s = (if root s \<noteq> NULL then rbnode_maximum (root s) s else Some NULL)"

definition rbtree_traverse ::
    "('a \<Rightarrow> 'c \<Rightarrow> 'c) \<Rightarrow> 'c \<Rightarrow> 'a rbstate \<Rightarrow> 'c option" where
  "rbtree_traverse opfunc param s = rbnode_traverse (root s) opfunc param s"

definition rbtree_traverse_right ::
    "('a \<Rightarrow> 'c \<Rightarrow> 'c) \<Rightarrow> 'c \<Rightarrow> 'a rbstate \<Rightarrow> 'c option" where
  "rbtree_traverse_right opfunc param s = rbnode_traverse_right (root s) opfunc param s"

end
