(* ===== verification/RB_Shape.thy ===== *)
theory RB_Shape
  imports RB_Heap
begin

section \<open>Trees in the store\<close>

text \<open>
  The abstraction of the pointer structure: \<open>tree_at h q t\<close> says that the store \<open>h\<close> holds
  the tree \<open>t\<close>, whose nodes carry their addresses, below the parent \<open>q\<close>.  A position in a
  tree is a focus subtree and the list of frames above it.  The section ends with the effect
  of the two rotations.
\<close>

datatype 'a ptree = Tip | Nd ptr red_black_color "'a ptree" 'a "'a ptree"

fun rt :: "'a ptree \<Rightarrow> ptr" where
  "rt Tip = NULL"
| "rt (Nd a c l x r) = a"

fun aset :: "'a ptree \<Rightarrow> ptr set" where
  "aset Tip = {}"
| "aset (Nd a c l x r) = insert a (aset l \<union> aset r)"

fun dist :: "'a ptree \<Rightarrow> bool" where
  "dist Tip \<longleftrightarrow> True"
| "dist (Nd a c l x r) \<longleftrightarrow>
     a \<noteq> NULL \<and> a \<notin> aset l \<and> a \<notin> aset r \<and> aset l \<inter> aset r = {} \<and> dist l \<and> dist r"

fun tree_at :: "(ptr \<rightharpoonup> 'a red_black_node) \<Rightarrow> ptr \<Rightarrow> 'a ptree \<Rightarrow> bool" where
  "tree_at h q Tip \<longleftrightarrow> True"
| "tree_at h q (Nd a c l x r) \<longleftrightarrow>
     h a = Some \<lparr>object = x, color = c, parent = q, right = rt r, left = rt l\<rparr> \<and>
     tree_at h a l \<and> tree_at h a r"

datatype 'a frame =
    InL ptr red_black_color 'a "'a ptree"
  | InR ptr red_black_color "'a ptree" 'a

fun plug :: "'a frame list \<Rightarrow> 'a ptree \<Rightarrow> 'a ptree" where
  "plug [] t = t"
| "plug (InL a c x r # fs) t = plug fs (Nd a c t x r)"
| "plug (InR a c l x # fs) t = plug fs (Nd a c l x t)"

fun up :: "'a frame list \<Rightarrow> ptr" where
  "up [] = NULL"
| "up (InL a c x r # fs) = a"
| "up (InR a c l x # fs) = a"

fun topmost :: "'a frame list \<Rightarrow> ptr \<Rightarrow> ptr" where
  "topmost [] p = p"
| "topmost (InL a c x r # fs) p = topmost fs a"
| "topmost (InR a c l x # fs) p = topmost fs a"

fun faset :: "'a frame list \<Rightarrow> ptr set" where
  "faset [] = {}"
| "faset (InL a c x r # fs) = insert a (aset r \<union> faset fs)"
| "faset (InR a c l x # fs) = insert a (aset l \<union> faset fs)"

fun fdist :: "'a frame list \<Rightarrow> bool" where
  "fdist [] \<longleftrightarrow> True"
| "fdist (InL a c x r # fs) \<longleftrightarrow>
     a \<noteq> NULL \<and> a \<notin> aset r \<and> a \<notin> faset fs \<and> aset r \<inter> faset fs = {} \<and> dist r \<and> fdist fs"
| "fdist (InR a c l x # fs) \<longleftrightarrow>
     a \<noteq> NULL \<and> a \<notin> aset l \<and> a \<notin> faset fs \<and> aset l \<inter> faset fs = {} \<and> dist l \<and> fdist fs"

fun ctx_at :: "(ptr \<rightharpoonup> 'a red_black_node) \<Rightarrow> ptr \<Rightarrow> 'a frame list \<Rightarrow> bool" where
  "ctx_at h p [] \<longleftrightarrow> True"
| "ctx_at h p (InL a c x r # fs) \<longleftrightarrow>
     h a = Some \<lparr>object = x, color = c, parent = up fs, right = rt r, left = p\<rparr> \<and>
     tree_at h a r \<and> ctx_at h a fs"
| "ctx_at h p (InR a c l x # fs) \<longleftrightarrow>
     h a = Some \<lparr>object = x, color = c, parent = up fs, right = p, left = rt l\<rparr> \<and>
     tree_at h a l \<and> ctx_at h a fs"

lemma tree_at_plug: "tree_at h NULL (plug fs t) \<longleftrightarrow> tree_at h (up fs) t \<and> ctx_at h (rt t) fs"
  by (induction fs t rule: plug.induct) auto

lemma rt_plug: "rt (plug fs t) = topmost fs (rt t)"
  by (induction fs t rule: plug.induct) auto

lemma aset_plug: "aset (plug fs t) = aset t \<union> faset fs"
  by (induction fs t rule: plug.induct) auto

lemma dist_plug: "dist (plug fs t) \<longleftrightarrow> dist t \<and> fdist fs \<and> aset t \<inter> faset fs = {}"
  by (induction fs t rule: plug.induct) auto

lemma rt_in_aset [simp]: "rt t \<in> aset t \<longleftrightarrow> t \<noteq> Tip"
  by (cases t) auto

lemma rt_neq [simp]: "p \<notin> aset t \<Longrightarrow> p \<noteq> NULL \<Longrightarrow> p \<noteq> rt t" "p \<notin> aset t \<Longrightarrow> p \<noteq> NULL \<Longrightarrow> rt t \<noteq> p"
  by (cases t; auto)+

lemma dist_NULL: "dist t \<Longrightarrow> NULL \<notin> aset t"
  by (induction t) auto

lemma fdist_NULL: "fdist fs \<Longrightarrow> NULL \<notin> faset fs"
  by (induction fs rule: fdist.induct) (auto dest: dist_NULL)

lemma rt_eq_NULL: "dist t \<Longrightarrow> rt t = NULL \<longleftrightarrow> t = Tip"
  by (cases t) auto

lemma up_eq_NULL: "fdist fs \<Longrightarrow> up fs = NULL \<longleftrightarrow> fs = []"
  by (cases fs rule: up.cases) auto

lemma up_in_faset: "fs \<noteq> [] \<Longrightarrow> up fs \<in> faset fs"
  by (cases fs rule: up.cases) auto

lemma topmost_in_faset: "fs \<noteq> [] \<Longrightarrow> topmost fs p \<in> faset fs"
proof (induction fs p rule: topmost.induct)
  case (2 a c x r fs p)
  then show ?case by (cases fs) auto
next
  case (3 a c l x fs p)
  then show ?case by (cases fs) auto
qed simp

lemma topmost_indep: "fs \<noteq> [] \<Longrightarrow> topmost fs p = topmost fs q"
  by (cases fs rule: up.cases) auto

lemma plug_eq_Tip: "plug fs t = Tip \<longleftrightarrow> fs = [] \<and> t = Tip"
  by (induction fs t rule: plug.induct) auto

lemma tree_at_upd [simp]: "a \<notin> aset t \<Longrightarrow> tree_at (h(a := v)) q t = tree_at h q t"
  by (induction t arbitrary: q) auto

lemma ctx_at_upd [simp]: "a \<notin> faset fs \<Longrightarrow> ctx_at (h(a := v)) p fs = ctx_at h p fs"
  by (induction fs arbitrary: p rule: faset.induct) auto

subsection \<open>States that hold a tree\<close>

definition shape :: "'a rbstate \<Rightarrow> 'a ptree \<Rightarrow> bool" where
  "shape s t \<longleftrightarrow>
     root s = rt t \<and> tree_at (cells s) NULL t \<and> dist t \<and> dom (cells s) = aset t"

text \<open>What no relinking or repainting touches.\<close>

definition same_env :: "'a rbstate \<Rightarrow> 'a rbstate \<Rightarrow> bool" where
  "same_env s s' \<longleftrightarrow>
     tree_size s' = tree_size s \<and> keycmp s' = keycmp s \<and> brk s' = brk s \<and> limit s' = limit s"

lemma same_env_refl [simp]: "same_env s s"
  by (simp add: same_env_def)

lemma same_env_trans: "same_env s s' \<Longrightarrow> same_env s' s'' \<Longrightarrow> same_env s s''"
  by (simp add: same_env_def)

lemmas field_defs =
  get_object_def get_color_def get_parent_def get_right_def get_left_def
  set_object_def set_color_def set_parent_def set_right_def set_left_def
  deref_def store_def

lemmas plug_simps = tree_at_plug rt_plug aset_plug dist_plug

text \<open>An assignment to a field keeps the set of allocated nodes and the environment.\<close>

definition keeps :: "'a rbstate \<Rightarrow> 'a rbstate \<Rightarrow> bool" where
  "keeps s s' \<longleftrightarrow> dom (cells s') = dom (cells s) \<and> same_env s s'"

lemma keeps_refl [simp]: "keeps s s"
  by (simp add: keeps_def)

lemma keeps_trans [trans]: "keeps s s' \<Longrightarrow> keeps s' s'' \<Longrightarrow> keeps s s''"
  by (simp add: keeps_def same_env_def)

lemma keeps_root [intro]: "keeps s s' \<Longrightarrow> keeps s (s'\<lparr>root := r\<rparr>)"
  by (simp add: keeps_def same_env_def)

definition upd_ok :: "'a rbstate \<Rightarrow> 'a rbstate option \<Rightarrow> bool" where
  "upd_ok s m \<longleftrightarrow> (\<forall>s'. m = Some s' \<longrightarrow> keeps s s')"

lemma upd_okD: "upd_ok s m \<Longrightarrow> m = Some s' \<Longrightarrow> keeps s s'"
  by (simp add: upd_ok_def)

lemma keeps_set:
  "set_object p x s = Some s' \<Longrightarrow> keeps s s'" "set_color p c s = Some s' \<Longrightarrow> keeps s s'"
  "set_parent p v s = Some s' \<Longrightarrow> keeps s s'" "set_right p v s = Some s' \<Longrightarrow> keeps s s'"
  "set_left p v s = Some s' \<Longrightarrow> keeps s s'"
  by (auto simp: field_defs keeps_def same_env_def split: if_splits)

lemma upd_ok_set:
  "keeps s s0 \<Longrightarrow> upd_ok s (set_object p x s0)" "keeps s s0 \<Longrightarrow> upd_ok s (set_color p c s0)"
  "keeps s s0 \<Longrightarrow> upd_ok s (set_parent p v s0)" "keeps s s0 \<Longrightarrow> upd_ok s (set_right p v s0)"
  "keeps s s0 \<Longrightarrow> upd_ok s (set_left p v s0)"
  by (auto simp: upd_ok_def dest: keeps_set intro: keeps_trans)

lemma upd_ok_Some: "keeps s s0 \<Longrightarrow> upd_ok s (Some s0)"
  by (simp add: upd_ok_def)

lemma upd_ok_if:
  "(b \<Longrightarrow> upd_ok s m) \<Longrightarrow> (\<not> b \<Longrightarrow> upd_ok s m') \<Longrightarrow> upd_ok s (if b then m else m')"
  by simp

lemma upd_ok_state:
  fixes m :: "'a rbstate option"
  shows "upd_ok s m \<Longrightarrow> (\<And>s'. keeps s s' \<Longrightarrow> upd_ok s (f s')) \<Longrightarrow> upd_ok s (m \<bind> f)"
  by (auto simp: upd_ok_def bind_eq_Some_conv)

lemma upd_ok_get:
  fixes m :: "ptr option"
  shows "(\<And>v. upd_ok s (f v)) \<Longrightarrow> upd_ok s (m \<bind> f)"
  by (auto simp: upd_ok_def bind_eq_Some_conv)

lemmas upd_ok_rules = upd_ok_set upd_ok_Some upd_ok_if upd_ok_state upd_ok_get keeps_root keeps_refl

lemma upd_ok_rotate:
  "upd_ok s (rbtree_rotate_left p s)" "upd_ok s (rbtree_rotate_right p s)"
  unfolding rbtree_rotate_left_def rbtree_rotate_right_def
  by (intro upd_ok_rules | assumption)+

lemmas keeps_rotate = upd_ok_rotate [THEN upd_okD]

lemma upd_ok_get':
  fixes m :: "red_black_color option" and m' :: "bool option"
  shows "(\<And>v. upd_ok s (f v)) \<Longrightarrow> upd_ok s (m \<bind> f)"
    "(\<And>v. upd_ok s (g v)) \<Longrightarrow> upd_ok s (m' \<bind> g)"
  by (auto simp: upd_ok_def bind_eq_Some_conv)

text \<open>The same for operations that also return a node.\<close>

definition updp_ok :: "'a rbstate \<Rightarrow> (ptr \<times> 'a rbstate) option \<Rightarrow> bool" where
  "updp_ok s m \<longleftrightarrow> (\<forall>p s'. m = Some (p, s') \<longrightarrow> keeps s s')"

lemma updp_okD: "updp_ok s m \<Longrightarrow> m = Some (p, s') \<Longrightarrow> keeps s s'"
  by (simp add: updp_ok_def)

lemma updp_ok_Some: "keeps s s0 \<Longrightarrow> updp_ok s (Some (p, s0))"
  by (simp add: updp_ok_def)

lemma updp_ok_if:
  "(b \<Longrightarrow> updp_ok s m) \<Longrightarrow> (\<not> b \<Longrightarrow> updp_ok s m') \<Longrightarrow> updp_ok s (if b then m else m')"
  by simp

lemma updp_ok_state:
  fixes m :: "'a rbstate option"
  shows "upd_ok s m \<Longrightarrow> (\<And>s'. keeps s s' \<Longrightarrow> updp_ok s (f s')) \<Longrightarrow> updp_ok s (m \<bind> f)"
  by (auto simp: upd_ok_def updp_ok_def bind_eq_Some_conv)

lemma updp_ok_get:
  fixes m :: "ptr option" and m' :: "red_black_color option" and m'' :: "bool option"
  shows "(\<And>v. updp_ok s (f v)) \<Longrightarrow> updp_ok s (m \<bind> f)"
    "(\<And>v. updp_ok s (g v)) \<Longrightarrow> updp_ok s (m' \<bind> g)" "(\<And>v. updp_ok s (h v)) \<Longrightarrow> updp_ok s (m'' \<bind> h)"
  by (auto simp: updp_ok_def bind_eq_Some_conv)

lemma upd_ok_pair:
  "updp_ok s m \<Longrightarrow> (\<And>p s'. keeps s s' \<Longrightarrow> upd_ok s (f p s')) \<Longrightarrow> upd_ok s (m \<bind> (\<lambda>(p, s). f p s))"
  "updp_ok s m \<Longrightarrow> (\<And>p s'. keeps s s' \<Longrightarrow> updp_ok s (g p s')) \<Longrightarrow> updp_ok s (m \<bind> (\<lambda>(p, s). g p s))"
  by (auto simp: upd_ok_def updp_ok_def bind_eq_Some_conv)

lemma upd_ok_trans: "(\<And>s'. m = Some s' \<Longrightarrow> keeps s s') \<Longrightarrow> keeps s0 s \<Longrightarrow> upd_ok s0 m"
  unfolding upd_ok_def by (metis keeps_trans)

lemma upd_ok_rotate':
  "keeps s0 s \<Longrightarrow> upd_ok s0 (rbtree_rotate_left p s)" "keeps s0 s \<Longrightarrow> upd_ok s0 (rbtree_rotate_right p s)"
  by (rule upd_ok_trans, rule keeps_rotate, assumption+)+

lemmas updp_ok_rules =
  upd_ok_rules upd_ok_get' upd_ok_rotate' updp_ok_Some updp_ok_if updp_ok_state updp_ok_get upd_ok_pair

text \<open>A state holds a tree and nothing else.\<close>

definition linked :: "'a rbstate \<Rightarrow> 'a ptree \<Rightarrow> bool" where
  "linked s t \<longleftrightarrow> root s = rt t \<and> tree_at (cells s) NULL t \<and> dist t"

lemma shape_linked: "shape s t \<longleftrightarrow> linked s t \<and> dom (cells s) = aset t"
  by (auto simp: shape_def linked_def)

lemmas heap_simps = plug_simps field_defs Int_Un_distrib Int_Un_distrib2

text \<open>Rotating at a position rotates the abstract tree there.\<close>

lemma rotate_left_linked:
  assumes "linked s (plug fs (Nd x cx a ox (Nd y cy b oy c)))"
  shows "\<exists>s'. rbtree_rotate_left x s = Some s' \<and>
              linked s' (plug fs (Nd y cy (Nd x cx a ox b) oy c))"
  using assms
  by (cases fs rule: up.cases; cases b)
    (simp_all add: linked_def rbtree_rotate_left_def heap_simps)

lemma rotate_right_linked:
  assumes "linked s (plug fs (Nd y cy (Nd x cx a ox b) oy c))"
  shows "\<exists>s'. rbtree_rotate_right y s = Some s' \<and>
              linked s' (plug fs (Nd x cx a ox (Nd y cy b oy c)))"
  using assms
  by (cases fs rule: up.cases; cases b)
    (simp_all add: linked_def rbtree_rotate_right_def heap_simps)

text \<open>Reading and repainting a node at a position.\<close>

lemma linked_node:
  assumes "linked s (plug fs (Nd a c l x r))"
  shows "get_object a s = Some x" "get_color a s = Some c" "get_parent a s = Some (up fs)"
    "get_right a s = Some (rt r)" "get_left a s = Some (rt l)" "a \<noteq> NULL"
  using assms by (simp_all add: linked_def heap_simps)

lemma set_color_linked:
  assumes "linked s (plug fs (Nd a c l x r))"
  shows "\<exists>s'. set_color a c' s = Some s' \<and> linked s' (plug fs (Nd a c' l x r))"
  using assms by (simp add: linked_def heap_simps)

fun tcolor :: "'a ptree \<Rightarrow> red_black_color" where
  "tcolor Tip = rbclrBlack"
| "tcolor (Nd a c l x r) = c"

fun paint :: "red_black_color \<Rightarrow> 'a ptree \<Rightarrow> 'a ptree" where
  "paint c Tip = Tip"
| "paint c (Nd a c' l x r) = Nd a c l x r"

lemma rt_paint [simp]: "rt (paint c t) = rt t"
  by (cases t) auto

lemma aset_paint [simp]: "aset (paint c t) = aset t"
  by (cases t) auto

lemma color_neq_Red [simp]: "c \<noteq> rbclrRed \<longleftrightarrow> c = rbclrBlack"
  by (cases c) auto

lemma linked_is_red: "linked s (plug fs t) \<Longrightarrow> is_red (rt t) s = Some (tcolor t = rbclrRed)"
  by (cases t) (simp_all add: is_red_def linked_node)

lemma linked_null_or_black:
  "linked s (plug fs t) \<Longrightarrow> null_or_black (rt t) s = Some (tcolor t = rbclrBlack)"
  by (cases t) (simp_all add: null_or_black_def linked_node)

lemma set_color_paint:
  assumes "linked s (plug fs t)" "t \<noteq> Tip"
  shows "\<exists>s'. set_color (rt t) c s = Some s' \<and> linked s' (plug fs (paint c t))"
  using assms by (cases t) (auto simp: set_color_linked)

lemma linked_root: "linked s (plug fs t) \<Longrightarrow> root s = topmost fs (rt t)"
  by (simp add: linked_def rt_plug)

fun fcolor :: "'a frame \<Rightarrow> red_black_color" where
  "fcolor (InL a c x r) = c"
| "fcolor (InR a c l x) = c"

end
