(* ===== verification/RB_Invariant.thy ===== *)
theory RB_Invariant
  imports RB_Shape
begin

section \<open>The red-black properties\<close>

text \<open>
  The properties the header of \<open>red_black_tree.h\<close> lists, on the abstract trees: a red node
  has no red parent (\<open>invc\<close>), every path has the same number of black nodes (\<open>invh\<close>, with
  \<open>bh\<close> the black depth), the root is black; the sequence of nodes in tree order; and the
  same notions for the frames above a position.
\<close>

fun nodes :: "'a ptree \<Rightarrow> (ptr \<times> 'a) list" where
  "nodes Tip = []"
| "nodes (Nd a c l x r) = nodes l @ (a, x) # nodes r"

abbreviation objs :: "'a ptree \<Rightarrow> 'a list" where
  "objs t \<equiv> map snd (nodes t)"

fun invc :: "'a ptree \<Rightarrow> bool" where
  "invc Tip \<longleftrightarrow> True"
| "invc (Nd a c l x r) \<longleftrightarrow>
     (c = rbclrRed \<longrightarrow> tcolor l = rbclrBlack \<and> tcolor r = rbclrBlack) \<and> invc l \<and> invc r"

fun bh :: "'a ptree \<Rightarrow> nat" where
  "bh Tip = 0"
| "bh (Nd a c l x r) = (if c = rbclrBlack then Suc (bh l) else bh l)"

fun invh :: "'a ptree \<Rightarrow> bool" where
  "invh Tip \<longleftrightarrow> True"
| "invh (Nd a c l x r) \<longleftrightarrow> bh l = bh r \<and> invh l \<and> invh r"

definition rbt :: "'a ptree \<Rightarrow> bool" where
  "rbt t \<longleftrightarrow> invc t \<and> invh t \<and> tcolor t = rbclrBlack"

fun depth :: "'a ptree \<Rightarrow> nat" where
  "depth Tip = 0"
| "depth (Nd a c l x r) = Suc (max (depth l) (depth r))"

subsection \<open>Sequences of nodes\<close>

fun before :: "'a frame list \<Rightarrow> (ptr \<times> 'a) list" where
  "before [] = []"
| "before (InL a c x r # fs) = before fs"
| "before (InR a c l x # fs) = before fs @ nodes l @ [(a, x)]"

fun after :: "'a frame list \<Rightarrow> (ptr \<times> 'a) list" where
  "after [] = []"
| "after (InL a c x r # fs) = (a, x) # nodes r @ after fs"
| "after (InR a c l x # fs) = after fs"

lemma nodes_plug: "nodes (plug fs t) = before fs @ nodes t @ after fs"
  by (induction fs t rule: plug.induct) auto

lemma aset_nodes: "aset t = fst ` set (nodes t)"
  by (induction t) (auto simp: image_Un)

lemma dist_nodes: "dist t \<longleftrightarrow> distinct (map fst (nodes t)) \<and> NULL \<notin> aset t"
  by (induction t) (auto simp: aset_nodes)

lemma card_aset: "dist t \<Longrightarrow> card (aset t) = length (nodes t)"
  by (simp add: dist_nodes aset_nodes distinct_card flip: set_map)

lemma nodes_paint [simp]: "nodes (paint c t) = nodes t"
  by (cases t) auto

lemma finite_aset [simp]: "finite (aset t)"
  by (induction t) auto

lemma nodes_eq_Nil [simp]: "nodes t = [] \<longleftrightarrow> t = Tip"
  by (cases t) auto

subsection \<open>The properties at a position\<close>

definition hd_black :: "'a frame list \<Rightarrow> bool" where
  "hd_black fs \<longleftrightarrow> (case fs of [] \<Rightarrow> True | f # _ \<Rightarrow> fcolor f = rbclrBlack)"

lemma hd_black_simps [simp]: "hd_black []" "hd_black (f # fs) \<longleftrightarrow> fcolor f = rbclrBlack"
  by (simp_all add: hd_black_def)

fun cinv :: "'a frame list \<Rightarrow> nat \<Rightarrow> bool" where
  "cinv [] n \<longleftrightarrow> True"
| "cinv (InL a c x r # fs) n \<longleftrightarrow>
     invc r \<and> invh r \<and> bh r = n \<and>
     (if c = rbclrRed then tcolor r = rbclrBlack \<and> hd_black fs \<and> cinv fs n else cinv fs (Suc n))"
| "cinv (InR a c l x # fs) n \<longleftrightarrow>
     invc l \<and> invh l \<and> bh l = n \<and>
     (if c = rbclrRed then tcolor l = rbclrBlack \<and> hd_black fs \<and> cinv fs n else cinv fs (Suc n))"

lemma inv_plug:
  "invc (plug fs t) \<and> invh (plug fs t) \<longleftrightarrow>
     invc t \<and> invh t \<and> cinv fs (bh t) \<and> (tcolor t = rbclrRed \<longrightarrow> hd_black fs)"
  by (induction fs t rule: plug.induct) auto

lemma tcolor_plug: "tcolor (plug fs t) = (if fs = [] then tcolor t else fcolor (last fs))"
proof (induction fs t rule: plug.induct)
  case (2 a c x r fs t)
  then show ?case by (cases fs) auto
next
  case (3 a c l x fs t)
  then show ?case by (cases fs) auto
qed simp

lemma invh_paint: "invh t \<Longrightarrow> invh (paint c t)"
  by (cases t) auto

lemma invc_paint_Black: "invc t \<Longrightarrow> invc (paint rbclrBlack t)"
  by (cases t) auto

lemma tcolor_paint_Black [simp]: "tcolor (paint rbclrBlack t) = rbclrBlack"
  by (cases t) auto

lemma paint_plug: "fs \<noteq> [] \<Longrightarrow> fcolor (last fs) = c \<Longrightarrow> paint c (plug fs t) = plug fs t"
proof (induction fs t rule: plug.induct)
  case (2 a c' x r fs t)
  then show ?case by (cases fs) auto
next
  case (3 a c' l x fs t)
  then show ?case by (cases fs) auto
qed simp

subsection \<open>The depth of a red-black tree is logarithmic\<close>

lemma depth_bh:
  "invc t \<Longrightarrow> invh t \<Longrightarrow> depth t \<le> 2 * bh t + (if tcolor t = rbclrBlack then 0 else 1)"
  by (induction t) (auto split: if_split_asm)

lemma bh_nodes: "invc t \<Longrightarrow> invh t \<Longrightarrow> 2 ^ bh t \<le> Suc (length (nodes t))"
proof (induction t)
  case (Nd a c l x r)
  then have "2 ^ bh l \<le> Suc (length (nodes l))" "2 ^ bh l \<le> Suc (length (nodes r))"
    by auto
  then show ?case by (cases c) auto
qed simp

lemma rbt_depth:
  assumes "rbt t"
  shows "2 ^ depth t \<le> (Suc (length (nodes t)))\<^sup>2"
proof -
  have "depth t \<le> 2 * bh t"
    using assms depth_bh [of t] by (auto simp: rbt_def)
  then have "(2 :: nat) ^ depth t \<le> 2 ^ (bh t * 2)"
    by (simp add: power_increasing mult.commute)
  also have "\<dots> = (2 ^ bh t)\<^sup>2"
    by (simp only: power_mult)
  also have "\<dots> \<le> (Suc (length (nodes t)))\<^sup>2"
    using assms bh_nodes [of t] by (auto simp: rbt_def intro: power_mono)
  finally show ?thesis .
qed

end
