(* ===== verification/RB_Insert.thy ===== *)
theory RB_Insert
  imports RB_Invariant
begin

section \<open>Insertion\<close>

subsection \<open>The fix-up on abstract trees\<close>

fun ins_fix :: "'a frame list \<Rightarrow> 'a ptree \<Rightarrow> 'a ptree" where
  "ins_fix (InL p rbclrRed px pr # InL g gc gx u # fs) (Nd a c l x r) =
     (if tcolor u = rbclrRed
      then ins_fix fs (Nd g rbclrRed (Nd p rbclrBlack (Nd a c l x r) px pr) gx (paint rbclrBlack u))
      else plug fs (Nd p rbclrBlack (Nd a c l x r) px (Nd g rbclrRed pr gx u)))"
| "ins_fix (InR p rbclrRed pl px # InL g gc gx u # fs) (Nd a c l x r) =
     (if tcolor u = rbclrRed
      then ins_fix fs (Nd g rbclrRed (Nd p rbclrBlack pl px (Nd a c l x r)) gx (paint rbclrBlack u))
      else plug fs (Nd a rbclrBlack (Nd p rbclrRed pl px l) x (Nd g rbclrRed r gx u)))"
| "ins_fix (InR p rbclrRed pl px # InR g gc u gx # fs) (Nd a c l x r) =
     (if tcolor u = rbclrRed
      then ins_fix fs (Nd g rbclrRed (paint rbclrBlack u) gx (Nd p rbclrBlack pl px (Nd a c l x r)))
      else plug fs (Nd p rbclrBlack (Nd g rbclrRed u gx pl) px (Nd a c l x r)))"
| "ins_fix (InL p rbclrRed px pr # InR g gc u gx # fs) (Nd a c l x r) =
     (if tcolor u = rbclrRed
      then ins_fix fs (Nd g rbclrRed (paint rbclrBlack u) gx (Nd p rbclrBlack (Nd a c l x r) px pr))
      else plug fs (Nd a rbclrBlack (Nd g rbclrRed u gx l) x (Nd p rbclrRed r px pr)))"
| "ins_fix fs t = plug fs t"

lemma fixup_loop_root:
  assumes "linked s t"
  shows "rbtree_insert_fixup_loop (rt t) s = Some s"
  using assms by (subst rbtree_insert_fixup_loop.simps) (simp add: linked_def)

lemma fixup_loop_black:
  assumes "linked s (plug (f # fs) t)" "t \<noteq> Tip" "fcolor f = rbclrBlack"
  shows "rbtree_insert_fixup_loop (rt t) s = Some s"
proof -
  obtain a c l x r where t: "t = Nd a c l x r"
    using assms(2) by (cases t) auto
  have "get_parent a s = Some (up (f # fs))" "get_color (up (f # fs)) s = Some rbclrBlack"
    using assms linked_node [of s "f # fs" a c l x r] linked_node(2) [of s fs]
    by (cases f; simp add: t)+
  then show ?thesis
    by (subst rbtree_insert_fixup_loop.simps) (simp add: t)
qed

lemma not_root:
  assumes "linked s (plug (f # fs) t)" "t \<noteq> Tip"
  shows "rt t \<noteq> root s"
proof -
  have "root s \<in> faset (f # fs)"
    using topmost_in_faset [of "f # fs" "rt t"] linked_root [OF assms(1)] by simp
  moreover have "rt t \<in> aset t"
    using assms by simp
  moreover have "aset t \<inter> faset (f # fs) = {}"
    using assms(1) unfolding linked_def dist_plug by blast
  ultimately show ?thesis by (metis disjoint_iff)
qed

lemma fixup_red_uncle_LL:
  assumes "linked s (plug (InL p rbclrRed px pr # InL g gc gx u # fs) (Nd a c l x r))" "tcolor u = rbclrRed"
  shows "\<exists>s'. rbtree_insert_fixup_loop a s = rbtree_insert_fixup_loop g s' \<and>
    linked s' (plug fs (Nd g rbclrRed (Nd p rbclrBlack (Nd a c l x r) px pr) gx (paint rbclrBlack u)))"
  using assms not_root [OF assms(1)]
  by (subst rbtree_insert_fixup_loop.simps, cases u)
     (simp_all add: linked_def heap_simps is_red_def, rule exI, rule conjI, rule refl, simp)

lemma fixup_red_uncle_LR:
  assumes "linked s (plug (InR p rbclrRed pl px # InL g gc gx u # fs) (Nd a c l x r))" "tcolor u = rbclrRed"
  shows "\<exists>s'. rbtree_insert_fixup_loop a s = rbtree_insert_fixup_loop g s' \<and>
    linked s' (plug fs (Nd g rbclrRed (Nd p rbclrBlack pl px (Nd a c l x r)) gx (paint rbclrBlack u)))"
  using assms not_root [OF assms(1)]
  by (subst rbtree_insert_fixup_loop.simps, cases u)
     (simp_all add: linked_def heap_simps is_red_def, rule exI, rule conjI, rule refl, simp)

lemma fixup_red_uncle_RL:
  assumes "linked s (plug (InL p rbclrRed px pr # InR g gc u gx # fs) (Nd a c l x r))" "tcolor u = rbclrRed"
  shows "\<exists>s'. rbtree_insert_fixup_loop a s = rbtree_insert_fixup_loop g s' \<and>
    linked s' (plug fs (Nd g rbclrRed (paint rbclrBlack u) gx (Nd p rbclrBlack (Nd a c l x r) px pr)))"
  using assms not_root [OF assms(1)]
  by (subst rbtree_insert_fixup_loop.simps, cases u)
     (simp_all add: linked_def heap_simps is_red_def, rule exI, rule conjI, rule refl, simp)

lemma fixup_red_uncle_RR:
  assumes "linked s (plug (InR p rbclrRed pl px # InR g gc u gx # fs) (Nd a c l x r))" "tcolor u = rbclrRed"
  shows "\<exists>s'. rbtree_insert_fixup_loop a s = rbtree_insert_fixup_loop g s' \<and>
    linked s' (plug fs (Nd g rbclrRed (paint rbclrBlack u) gx (Nd p rbclrBlack pl px (Nd a c l x r))))"
  using assms not_root [OF assms(1)]
  by (subst rbtree_insert_fixup_loop.simps, cases u)
     (simp_all add: linked_def heap_simps is_red_def, rule exI, rule conjI, rule refl, simp)

lemma fixup_black_uncle_LL:
  assumes "linked s (plug (InL p rbclrRed px pr # InL g gc gx u # fs) (Nd a c l x r))"
    "tcolor u = rbclrBlack"
  shows "\<exists>s'. rbtree_insert_fixup_loop a s = Some s' \<and>
    linked s' (plug fs (Nd p rbclrBlack (Nd a c l x r) px (Nd g rbclrRed pr gx u)))"
proof -
  let ?t = "Nd a c l x r"
  obtain s1 where s1: "set_color p rbclrBlack s = Some s1"
    "linked s1 (plug fs (Nd g gc (Nd p rbclrBlack ?t px pr) gx u))"
    using set_color_linked [of s "InL g gc gx u # fs" p rbclrRed ?t px pr] assms by auto
  obtain s2 where s2: "set_color g rbclrRed s1 = Some s2"
    "linked s2 (plug fs (Nd g rbclrRed (Nd p rbclrBlack ?t px pr) gx u))"
    using set_color_linked [OF s1(2)] by blast
  obtain s3 where s3: "rbtree_rotate_right g s2 = Some s3"
    "linked s3 (plug fs (Nd p rbclrBlack ?t px (Nd g rbclrRed pr gx u)))"
    using rotate_right_linked [OF s2(2)] by blast
  have "rbtree_insert_fixup_loop a s3 = Some s3"
    using fixup_loop_black [of s3 "InL p rbclrBlack px (Nd g rbclrRed pr gx u)" fs ?t] s3 by simp
  moreover have "is_red (rt u) s = Some False"
    using linked_is_red [of s "InR g gc (Nd p rbclrRed ?t px pr) gx # fs" u] assms by simp
  moreover have "get_parent a s = Some p" "get_color p s = Some rbclrRed" "get_parent p s = Some g"
    "get_left g s = Some p" "get_right g s = Some (rt u)" "get_right p s = Some (rt pr)"
    "get_parent a s1 = Some p" "a \<noteq> rt pr"
    using assms s1(2) by (simp_all add: linked_def heap_simps)
  ultimately have "rbtree_insert_fixup_loop a s = Some s3"
    using not_root [OF assms(1)] s1(1) s2(1) s3(1)
    by (subst rbtree_insert_fixup_loop.simps) simp
  then show ?thesis using s3 by blast
qed

lemma fixup_black_uncle_RR:
  assumes "linked s (plug (InR p rbclrRed pl px # InR g gc u gx # fs) (Nd a c l x r))"
    "tcolor u = rbclrBlack"
  shows "\<exists>s'. rbtree_insert_fixup_loop a s = Some s' \<and>
    linked s' (plug fs (Nd p rbclrBlack (Nd g rbclrRed u gx pl) px (Nd a c l x r)))"
proof -
  let ?t = "Nd a c l x r"
  obtain s1 where s1: "set_color p rbclrBlack s = Some s1"
    "linked s1 (plug fs (Nd g gc u gx (Nd p rbclrBlack pl px ?t)))"
    using set_color_linked [of s "InR g gc u gx # fs" p rbclrRed pl px ?t] assms by auto
  obtain s2 where s2: "set_color g rbclrRed s1 = Some s2"
    "linked s2 (plug fs (Nd g rbclrRed u gx (Nd p rbclrBlack pl px ?t)))"
    using set_color_linked [OF s1(2)] by blast
  obtain s3 where s3: "rbtree_rotate_left g s2 = Some s3"
    "linked s3 (plug fs (Nd p rbclrBlack (Nd g rbclrRed u gx pl) px ?t))"
    using rotate_left_linked [OF s2(2)] by blast
  have "rbtree_insert_fixup_loop a s3 = Some s3"
    using fixup_loop_black [of s3 "InR p rbclrBlack (Nd g rbclrRed u gx pl) px" fs ?t] s3 by simp
  moreover have "is_red (rt u) s = Some False"
    using linked_is_red [of s "InL g gc gx (Nd p rbclrRed pl px ?t) # fs" u] assms by simp
  moreover have "get_parent a s = Some p" "get_color p s = Some rbclrRed" "get_parent p s = Some g"
    "get_left g s = Some (rt u)" "p \<noteq> rt u" "get_left p s = Some (rt pl)"
    "get_parent a s1 = Some p" "a \<noteq> rt pl"
    using assms s1(2) by (simp_all add: linked_def heap_simps)
  ultimately have "rbtree_insert_fixup_loop a s = Some s3"
    using not_root [OF assms(1)] s1(1) s2(1) s3(1)
    by (subst rbtree_insert_fixup_loop.simps) simp
  then show ?thesis using s3 by blast
qed

lemma fixup_black_uncle_LR:
  assumes "linked s (plug (InR p rbclrRed pl px # InL g gc gx u # fs) (Nd a c l x r))"
    "tcolor u = rbclrBlack"
  shows "\<exists>s'. rbtree_insert_fixup_loop a s = Some s' \<and>
    linked s' (plug fs (Nd a rbclrBlack (Nd p rbclrRed pl px l) x (Nd g rbclrRed r gx u)))"
proof -
  let ?t = "Nd a c l x r" and ?p = "Nd p rbclrRed pl px l"
  obtain s1 where s1: "rbtree_rotate_left p s = Some s1"
    "linked s1 (plug (InL g gc gx u # fs) (Nd a c ?p x r))"
    using rotate_left_linked [of s "InL g gc gx u # fs" p rbclrRed pl px a c l x r] assms by auto
  obtain s2 where s2: "set_color a rbclrBlack s1 = Some s2"
    "linked s2 (plug fs (Nd g gc (Nd a rbclrBlack ?p x r) gx u))"
    using set_color_linked [OF s1(2)] by auto
  obtain s3 where s3: "set_color g rbclrRed s2 = Some s3"
    "linked s3 (plug fs (Nd g rbclrRed (Nd a rbclrBlack ?p x r) gx u))"
    using set_color_linked [OF s2(2)] by blast
  obtain s4 where s4: "rbtree_rotate_right g s3 = Some s4"
    "linked s4 (plug fs (Nd a rbclrBlack ?p x (Nd g rbclrRed r gx u)))"
    using rotate_right_linked [OF s3(2)] by blast
  have "rbtree_insert_fixup_loop p s4 = Some s4"
    using fixup_loop_black [of s4 "InL a rbclrBlack x (Nd g rbclrRed r gx u)" fs ?p] s4 by simp
  moreover have "is_red (rt u) s = Some False"
    using linked_is_red [of s "InR g gc (Nd p rbclrRed pl px ?t) gx # fs" u] assms by simp
  moreover have "get_parent a s = Some p" "get_color p s = Some rbclrRed" "get_parent p s = Some g"
    "get_left g s = Some p" "get_right g s = Some (rt u)" "get_right p s = Some a"
    "get_parent p s1 = Some a"
    using assms s1(2) by (simp_all add: linked_def heap_simps)
  ultimately have "rbtree_insert_fixup_loop a s = Some s4"
    using not_root [OF assms(1)] s1(1) s2(1) s3(1) s4(1)
    by (subst rbtree_insert_fixup_loop.simps) simp
  then show ?thesis using s4 by blast
qed

lemma fixup_black_uncle_RL:
  assumes "linked s (plug (InL p rbclrRed px pr # InR g gc u gx # fs) (Nd a c l x r))"
    "tcolor u = rbclrBlack"
  shows "\<exists>s'. rbtree_insert_fixup_loop a s = Some s' \<and>
    linked s' (plug fs (Nd a rbclrBlack (Nd g rbclrRed u gx l) x (Nd p rbclrRed r px pr)))"
proof -
  let ?t = "Nd a c l x r" and ?p = "Nd p rbclrRed r px pr"
  obtain s1 where s1: "rbtree_rotate_right p s = Some s1"
    "linked s1 (plug (InR g gc u gx # fs) (Nd a c l x ?p))"
    using rotate_right_linked [of s "InR g gc u gx # fs" p rbclrRed a c l x r px pr] assms by auto
  obtain s2 where s2: "set_color a rbclrBlack s1 = Some s2"
    "linked s2 (plug fs (Nd g gc u gx (Nd a rbclrBlack l x ?p)))"
    using set_color_linked [OF s1(2)] by auto
  obtain s3 where s3: "set_color g rbclrRed s2 = Some s3"
    "linked s3 (plug fs (Nd g rbclrRed u gx (Nd a rbclrBlack l x ?p)))"
    using set_color_linked [OF s2(2)] by blast
  obtain s4 where s4: "rbtree_rotate_left g s3 = Some s4"
    "linked s4 (plug fs (Nd a rbclrBlack (Nd g rbclrRed u gx l) x ?p))"
    using rotate_left_linked [OF s3(2)] by blast
  have "rbtree_insert_fixup_loop p s4 = Some s4"
    using fixup_loop_black [of s4 "InR a rbclrBlack (Nd g rbclrRed u gx l) x" fs ?p] s4 by simp
  moreover have "is_red (rt u) s = Some False"
    using linked_is_red [of s "InL g gc gx (Nd p rbclrRed ?t px pr) # fs" u] assms by simp
  moreover have "get_parent a s = Some p" "get_color p s = Some rbclrRed" "get_parent p s = Some g"
    "get_left g s = Some (rt u)" "p \<noteq> rt u" "get_left p s = Some a" "get_parent p s1 = Some a"
    using assms s1(2) by (simp_all add: linked_def heap_simps)
  ultimately have "rbtree_insert_fixup_loop a s = Some s4"
    using not_root [OF assms(1)] s1(1) s2(1) s3(1) s4(1)
    by (subst rbtree_insert_fixup_loop.simps) simp
  then show ?thesis using s4 by blast
qed

text \<open>
  The loop refines \<open>ins_fix\<close>: from any tree whose topmost frame is black it returns, and
  the store then holds the tree \<open>ins_fix\<close> computes.
\<close>

definition top_black :: "'a frame list \<Rightarrow> bool" where
  "top_black fs \<longleftrightarrow> fs = [] \<or> fcolor (last fs) = rbclrBlack"

lemma top_black_simps [simp]:
  "top_black []" "top_black [f] \<longleftrightarrow> fcolor f = rbclrBlack"
  "top_black (f # g # fs) \<longleftrightarrow> top_black (g # fs)"
  by (simp_all add: top_black_def)

lemma top_black_tl: "top_black (f # fs) \<Longrightarrow> top_black fs"
  by (auto simp: top_black_def split: if_splits)

lemma fixup_loop_linked:
  assumes "linked s (plug fs t)" "t \<noteq> Tip" "top_black fs"
  shows "\<exists>s'. rbtree_insert_fixup_loop (rt t) s = Some s' \<and> linked s' (ins_fix fs t)"
  using assms
proof (induction fs t arbitrary: s rule: ins_fix.induct)
  case (1 p px pr g gc gx u fs a c l x r)
  show ?case
  proof (cases "tcolor u = rbclrRed")
    case True
    with 1 show ?thesis
      using fixup_red_uncle_LL [OF "1.prems"(1) True] by (fastforce dest: top_black_tl)
  next
    case False
    then show ?thesis
      using fixup_black_uncle_LL [OF "1.prems"(1)] by simp
  qed
next
  case (2 p pl px g gc gx u fs a c l x r)
  show ?case
  proof (cases "tcolor u = rbclrRed")
    case True
    with 2 show ?thesis
      using fixup_red_uncle_LR [OF "2.prems"(1) True] by (fastforce dest: top_black_tl)
  next
    case False
    then show ?thesis
      using fixup_black_uncle_LR [OF "2.prems"(1)] by simp
  qed
next
  case (3 p pl px g gc u gx fs a c l x r)
  show ?case
  proof (cases "tcolor u = rbclrRed")
    case True
    with 3 show ?thesis
      using fixup_red_uncle_RR [OF "3.prems"(1) True] by (fastforce dest: top_black_tl)
  next
    case False
    then show ?thesis
      using fixup_black_uncle_RR [OF "3.prems"(1)] by simp
  qed
next
  case (4 p px pr g gc u gx fs a c l x r)
  show ?case
  proof (cases "tcolor u = rbclrRed")
    case True
    with 4 show ?thesis
      using fixup_red_uncle_RL [OF "4.prems"(1) True] by (fastforce dest: top_black_tl)
  next
    case False
    then show ?thesis
      using fixup_black_uncle_RL [OF "4.prems"(1)] by simp
  qed
qed (use fixup_loop_root fixup_loop_black in \<open>fastforce+\<close>)

subsection \<open>The fix-up keeps the nodes and restores the colours\<close>

lemma nodes_ins_fix: "nodes (ins_fix fs t) = nodes (plug fs t)"
  by (induction fs t rule: ins_fix.induct) (auto simp: nodes_plug)

lemma rbt_plug_black:
  "invc t \<Longrightarrow> invh t \<Longrightarrow> tcolor t = rbclrBlack \<Longrightarrow> cinv fs (bh t) \<Longrightarrow> top_black fs \<Longrightarrow>
    rbt (paint rbclrBlack (plug fs t))"
  using inv_plug [of fs t] by (simp add: rbt_def invh_paint invc_paint_Black)

lemma rbt_plug_red:
  "invc t \<Longrightarrow> invh t \<Longrightarrow> hd_black fs \<Longrightarrow> cinv fs (bh t) \<Longrightarrow> rbt (paint rbclrBlack (plug fs t))"
  using inv_plug [of fs t] by (simp add: rbt_def invh_paint invc_paint_Black)

lemma bh_paint_Black: "bh (paint rbclrBlack t) = (if tcolor t = rbclrRed then Suc (bh t) else bh t)"
  by (cases t) auto

lemmas fix_intros = rbt_plug_black invc_paint_Black invh_paint

lemma rbt_ins_fix:
  "invc t \<Longrightarrow> invh t \<Longrightarrow> tcolor t = rbclrRed \<Longrightarrow> cinv fs (bh t) \<Longrightarrow> top_black fs \<Longrightarrow>
    rbt (paint rbclrBlack (ins_fix fs t))"
proof (induction fs t rule: ins_fix.induct)
  case 1 then show ?case by (auto simp: bh_paint_Black intro!: fix_intros dest: top_black_tl split: if_split_asm)
next
  case 2 then show ?case by (auto simp: bh_paint_Black intro!: fix_intros dest: top_black_tl split: if_split_asm)
next
  case 3 then show ?case by (auto simp: bh_paint_Black intro!: fix_intros dest: top_black_tl split: if_split_asm)
next
  case 4 then show ?case by (auto simp: bh_paint_Black intro!: fix_intros dest: top_black_tl split: if_split_asm)
qed (simp_all add: rbt_plug_red del: plug.simps cinv.simps(2,3))

lemma keeps_fixup_loop:
  assumes "rbtree_insert_fixup_loop p s = Some s'"
  shows "keeps s s'"
proof (rule rbtree_insert_fixup_loop.raw_induct [of "\<lambda>p s s'. keeps s s'", OF _ assms], goal_cases)
  case (1 f p s s')
  show ?case
    by (rule upd_okD [OF _ 1(2)])
      (intro updp_ok_rules upd_ok_trans [OF 1(1)] | assumption)+
qed

lemma insert_fixup_shape:
  assumes "linked s (plug fs t)" "dom (cells s) = aset (plug fs t)" "t \<noteq> Tip" "top_black fs"
  shows "\<exists>s'. rbtree_insert_fixup (rt t) s = Some s' \<and> same_env s s' \<and>
      shape s' (paint rbclrBlack (ins_fix fs t))"
proof -
  obtain s1 where s1: "rbtree_insert_fixup_loop (rt t) s = Some s1" "linked s1 (ins_fix fs t)"
    using fixup_loop_linked assms by blast
  have "ins_fix fs t \<noteq> Tip"
    using assms(3) nodes_ins_fix [of fs t] nodes_eq_Nil plug_eq_Tip by metis
  then obtain s2 where s2: "set_color (root s1) rbclrBlack s1 = Some s2"
    "linked s2 (paint rbclrBlack (ins_fix fs t))"
    using set_color_paint [of s1 "[]" "ins_fix fs t"] s1(2) by (auto simp: linked_def)
  have "keeps s s2"
    using keeps_fixup_loop [OF s1(1)] keeps_set(2) [OF s2(1)] by (rule keeps_trans)
  moreover have "aset (ins_fix fs t) = aset (plug fs t)"
    by (simp add: aset_nodes nodes_ins_fix)
  ultimately show ?thesis
    using s1(1) s2 assms(2) by (auto simp: rbtree_insert_fixup_def shape_linked keeps_def)
qed

end
