(* ===== verification/RB_Search.thy ===== *)
theory RB_Search
  imports RB_Insert "HOL-Library.Multiset"
begin

section \<open>Insertion and search\<close>

text \<open>
  The representation invariant of a tree in its store (\<open>holds\<close>), the abstract insertion
  \<open>ins_tree\<close> and the abstract search \<open>look\<close>, and that the pointer programs compute them.
\<close>

subsection \<open>The representation invariant\<close>

definition heap_ok :: "'a rbstate \<Rightarrow> bool" where
  "heap_ok s \<longleftrightarrow> 0 < brk s \<and> brk s \<le> limit s \<and> limit s \<le> 2 ^ 64 \<and> (\<forall>a \<in> dom (cells s). a < brk s)"

definition holds :: "'a rbstate \<Rightarrow> 'a ptree \<Rightarrow> bool" where
  "holds s t \<longleftrightarrow>
     shape s t \<and> tcolor t = rbclrBlack \<and> tree_size s = of_nat (length (nodes t)) \<and> heap_ok s"

lemma holds_fresh: "holds s t \<Longrightarrow> brk s \<notin> aset t \<and> brk s \<noteq> NULL"
  by (auto simp: holds_def heap_ok_def shape_def)

lemma holds_linked: "holds s t \<Longrightarrow> linked s t"
  by (simp add: holds_def shape_linked)

lemma holds_length:
  assumes "holds s t"
  shows "length (nodes t) < brk s"
proof -
  have "aset t \<subseteq> {0<..<brk s}"
    using assms dist_NULL [of t] by (auto simp: holds_def heap_ok_def shape_def Ball_def intro: gr0I)
  then have "card (aset t) \<le> brk s - 1"
    using card_mono [of "{0<..<brk s}"] by fastforce
  moreover have "dist t" "0 < brk s"
    using assms by (auto simp: holds_def shape_def heap_ok_def)
  ultimately show ?thesis
    by (simp add: card_aset)
qed

lemma holds_size:
  assumes "holds s t"
  shows "unat (tree_size s) = length (nodes t)"
proof -
  have "length (nodes t) < 2 ^ 64"
    using holds_length [OF assms] assms by (auto simp: holds_def heap_ok_def)
  then show ?thesis
    using assms by (simp add: holds_def unat_of_nat take_bit_nat_eq_self)
qed

lemma holds_root: "holds s t \<Longrightarrow> root s = NULL \<longleftrightarrow> t = Tip"
  by (auto simp: holds_def shape_def rt_eq_NULL)

subsection \<open>Descent to the insertion point\<close>

fun descend :: "('a \<Rightarrow> bool) \<Rightarrow> 'a frame list \<Rightarrow> 'a ptree \<Rightarrow> 'a frame list" where
  "descend go fs Tip = fs"
| "descend go fs (Nd a c l x r) =
     (if go x then descend go (InL a c x r # fs) l else descend go (InR a c l x # fs) r)"

lemma plug_descend: "plug (descend go fs t) Tip = plug fs t"
  by (induction t arbitrary: fs) auto

lemma while_mid:
  "\<not> P y \<Longrightarrow> takeWhile P (xs @ y # ys) = takeWhile P xs"
  "\<not> P y \<Longrightarrow> dropWhile P (xs @ y # ys) = dropWhile P xs @ y # ys"
  "\<forall>x \<in> set xs. P x \<Longrightarrow> P y \<Longrightarrow> takeWhile P (xs @ y # ys) = xs @ y # takeWhile P ys"
  "\<forall>x \<in> set xs. P x \<Longrightarrow> P y \<Longrightarrow> dropWhile P (xs @ y # ys) = dropWhile P ys"
  by (induction xs) auto

lemma sorted_objsD:
  assumes "sorted_wrt R (objs (Nd a c l x r))"
  shows "sorted_wrt R (objs l)" "sorted_wrt R (objs r)"
    "n \<in> set (nodes l) \<Longrightarrow> R (snd n) x" "n \<in> set (nodes r) \<Longrightarrow> R x (snd n)"
  using assms by (simp_all add: sorted_wrt_append)

lemma split_descend:
  "sorted_wrt (\<lambda>x y. go x \<longrightarrow> go y) (objs t) \<Longrightarrow>
    before (descend go fs t) = before fs @ takeWhile (\<lambda>n. \<not> go (snd n)) (nodes t) \<and>
    after (descend go fs t) = dropWhile (\<lambda>n. \<not> go (snd n)) (nodes t) @ after fs"
proof (induction t arbitrary: fs)
  case (Nd a c l x r)
  note srt = sorted_objsD [OF Nd.prems]
  have left: "\<forall>n \<in> set (nodes l). \<not> go (snd n)" if "\<not> go x"
    using srt(3) that by blast
  show ?case
  proof (cases "go x")
    case True
    then show ?thesis using Nd.IH(1) [OF srt(1)] by (simp add: while_mid)
  next
    case False
    then show ?thesis using Nd.IH(2) [OF srt(2)] left [OF False] by (simp add: while_mid)
  qed
qed simp

lemmas before_descend = split_descend [THEN conjunct1]
lemmas after_descend = split_descend [THEN conjunct2]

text \<open>A new red node under a node with a free child pointer.\<close>

definition grown :: "'a rbstate \<Rightarrow> 'a rbstate \<Rightarrow> bool" where
  "grown s s' \<longleftrightarrow> dom (cells s') = insert (brk s) (dom (cells s)) \<and> brk s' = Suc (brk s) \<and>
     tree_size s' = tree_size s \<and> keycmp s' = keycmp s \<and> limit s' = limit s"

lemma construct_grown:
  assumes "rbnode_construct ob c s = Some (n, s')"
  shows "grown s s'" "n = brk s"
  using assms by (auto simp: rbnode_construct_def malloc_node_def grown_def Let_def split: if_splits)

lemma grown_keeps: "grown s s' \<Longrightarrow> keeps s' s'' \<Longrightarrow> grown s s''"
  by (simp add: grown_def keeps_def same_env_def)

definition has_room :: "'a rbstate \<Rightarrow> 'a ptree \<Rightarrow> bool" where
  "has_room s t \<longleftrightarrow> brk s < limit s \<and> brk s \<noteq> NULL \<and> brk s \<notin> aset t"

definition new_leaf :: "'a rbstate \<Rightarrow> 'a \<Rightarrow> 'a ptree" where
  "new_leaf s ob = Nd (brk s) rbclrRed Tip ob Tip"

lemma construct_room:
  "has_room s t \<Longrightarrow> rbnode_construct ob c s = Some (brk s, s\<lparr>cells := (cells s)(brk s \<mapsto>
     \<lparr>object = ob, color = c, parent = NULL, right = NULL, left = NULL\<rparr>), brk := Suc (brk s)\<rparr>)"
  by (simp add: rbnode_construct_def malloc_node_def Let_def has_room_def)

lemma hang_grown:
  assumes "rbnode_construct ob c s = Some (n, s1)" "set_left a n s1 = Some s2 \<or> set_right a n s1 = Some s2"
    "set_parent n a s2 = Some s'"
  shows "grown s s'"
  using construct_grown(1) [OF assms(1)] assms(2,3) keeps_set grown_keeps by metis

lemma hang_left:
  assumes "linked s (plug fs (Nd a c Tip x r))" "has_room s (plug fs (Nd a c Tip x r))"
  shows "\<exists>s1 s2 s'. rbnode_construct ob rbclrRed s = Some (brk s, s1) \<and> set_left a (brk s) s1 = Some s2 \<and>
    set_parent (brk s) a s2 = Some s' \<and> linked s' (plug (InL a c x r # fs) (new_leaf s ob))"
  using assms unfolding construct_room [OF assms(2)]
  by (simp add: linked_def heap_simps has_room_def new_leaf_def)

lemma hang_right:
  assumes "linked s (plug fs (Nd a c l x Tip))" "has_room s (plug fs (Nd a c l x Tip))"
  shows "\<exists>s1 s2 s'. rbnode_construct ob rbclrRed s = Some (brk s, s1) \<and> set_right a (brk s) s1 = Some s2 \<and>
    set_parent (brk s) a s2 = Some s' \<and> linked s' (plug (InR a c l x # fs) (new_leaf s ob))"
  using assms unfolding construct_room [OF assms(2)]
  by (simp add: linked_def heap_simps has_room_def new_leaf_def)

lemma insert_loop_linked:
  assumes "linked s (plug fs t)" "t \<noteq> Tip" "has_room s (plug fs t)"
  shows "\<exists>s'. rbtree_insert_loop ob (rt t) s = Some (brk s, s') \<and> grown s s' \<and>
    linked s' (plug (descend (\<lambda>y. keycmp s ob y > 0) fs t) (new_leaf s ob))"
  using assms
proof (induction t arbitrary: fs)
  case (Nd a c l x r)
  note node = linked_node [OF Nd.prems(1)]
  have null: "rt l = NULL \<longleftrightarrow> l = Tip" "rt r = NULL \<longleftrightarrow> r = Tip"
    using Nd.prems(1) by (auto simp: linked_def dist_plug rt_eq_NULL)
  show ?case
  proof (cases "keycmp s ob x > 0")
    case True
    then show ?thesis
    proof (cases "l = Tip")
      case l: True
      obtain s1 s2 s' where "rbnode_construct ob rbclrRed s = Some (brk s, s1)"
        "set_left a (brk s) s1 = Some s2" "set_parent (brk s) a s2 = Some s'"
        "linked s' (plug (InL a c x r # fs) (new_leaf s ob))"
        using hang_left [of s fs a c x r ob] Nd.prems l by auto
      with True l node show ?thesis
        by (subst rbtree_insert_loop.simps) (auto intro: hang_grown)
    next
      case False
      with True Nd.IH(1) [of "InL a c x r # fs"] Nd.prems node null show ?thesis
        by (subst rbtree_insert_loop.simps) simp
    qed
  next
    case False
    then show ?thesis
    proof (cases "r = Tip")
      case r: True
      obtain s1 s2 s' where "rbnode_construct ob rbclrRed s = Some (brk s, s1)"
        "set_right a (brk s) s1 = Some s2" "set_parent (brk s) a s2 = Some s'"
        "linked s' (plug (InR a c l x # fs) (new_leaf s ob))"
        using hang_right [of s fs a c l x ob] Nd.prems r by auto
      with False r node show ?thesis
        by (subst rbtree_insert_loop.simps) (auto intro: hang_grown)
    next
      case r: False
      with False Nd.IH(2) [of "InR a c l x # fs"] Nd.prems node null show ?thesis
        by (subst rbtree_insert_loop.simps) simp
    qed
  qed
qed simp


subsection \<open>Insertion\<close>

definition ins_tree :: "('a \<Rightarrow> bool) \<Rightarrow> 'a ptree \<Rightarrow> 'a ptree \<Rightarrow> 'a ptree" where
  "ins_tree go t new = paint rbclrBlack (ins_fix (descend go [] t) new)"

text \<open>What happens from the moment the new red leaf hangs in the tree.\<close>

lemma insert_finish:
  assumes "holds s t" "grown s s1" "linked s1 (plug fs (new_leaf s ob))"
    "plug fs Tip = t" "t \<noteq> Tip" "brk s < limit s"
  shows "\<exists>s'. rbtree_insert_fixup (brk s) (s1\<lparr>tree_size := tree_size s1 + 1\<rparr>) = Some s' \<and>
    holds s' (paint rbclrBlack (ins_fix fs (new_leaf s ob))) \<and> keycmp s' = keycmp s \<and>
    limit s' = limit s \<and> brk s' = Suc (brk s)"
proof -
  let ?s2 = "s1\<lparr>tree_size := tree_size s1 + 1\<rparr>" and ?n = "new_leaf s ob"
  have fs: "fs \<noteq> []" "tcolor (plug fs Tip) = rbclrBlack"
    using assms by (auto simp: holds_def)
  then have "top_black fs" by (simp add: top_black_def tcolor_plug)
  moreover have "dom (cells ?s2) = aset (plug fs ?n)"
    using assms(1,2,4) by (auto simp: holds_def shape_def grown_def aset_plug new_leaf_def)
  moreover have "linked ?s2 (plug fs ?n)"
    using assms(3) by (simp add: linked_def)
  ultimately obtain s' where s': "rbtree_insert_fixup (brk s) ?s2 = Some s'" "same_env ?s2 s'"
      "shape s' (paint rbclrBlack (ins_fix fs ?n))"
    using insert_fixup_shape [of ?s2 fs ?n] by (auto simp: new_leaf_def)
  have "length (nodes (ins_fix fs ?n)) = Suc (length (nodes t))"
    using assms(4) by (auto simp: nodes_ins_fix nodes_plug new_leaf_def)
  moreover have "dom (cells s') = insert (brk s) (dom (cells s))"
    using s'(3) assms(1,4) by (auto simp: shape_def aset_nodes nodes_ins_fix nodes_plug new_leaf_def holds_def)
  ultimately show ?thesis
    using s' assms(1,2,6) by (auto simp: holds_def heap_ok_def same_env_def grown_def less_Suc_eq)
qed

lemma insert_first_holds:
  assumes "holds s Tip" "brk s < limit s"
  shows "\<exists>s'. rbtree_insert_first ob s = Some (brk s, s') \<and>
    holds s' (Nd (brk s) rbclrBlack Tip ob Tip) \<and> keycmp s' = keycmp s \<and> limit s' = limit s \<and>
    brk s' = Suc (brk s)"
  using assms
  by (auto simp: holds_def heap_ok_def rbtree_insert_first_def rbnode_construct_def malloc_node_def Let_def shape_def)

lemma insert_holds:
  assumes "holds s t" "brk s < limit s"
  shows "\<exists>s'. rbtree_insert ob s = Some (brk s, s') \<and>
    holds s' (ins_tree (\<lambda>y. keycmp s ob y > 0) t (new_leaf s ob)) \<and> keycmp s' = keycmp s \<and>
    limit s' = limit s \<and> brk s' = Suc (brk s)"
proof (cases "t = Tip")
  case True
  then show ?thesis
    using insert_first_holds [of s ob] assms holds_root [of s t]
    by (simp add: rbtree_insert_def ins_tree_def new_leaf_def)
next
  case False
  let ?go = "\<lambda>y. keycmp s ob y > 0"
  have "has_room s t"
    using holds_fresh [OF assms(1)] assms(2) by (auto simp: has_room_def)
  then obtain s1 where s1: "rbtree_insert_loop ob (rt t) s = Some (brk s, s1)" "grown s s1"
      "linked s1 (plug (descend ?go [] t) (new_leaf s ob))"
    using insert_loop_linked [of s "[]" t ob] holds_linked [OF assms(1)] False by auto
  then show ?thesis
    using insert_finish [OF assms(1) s1(2,3)] assms False holds_root [of s t] holds_linked [of s t]
    by (auto simp: rbtree_insert_def ins_tree_def plug_descend linked_def)
qed

lemma nodes_ins_tree:
  "sorted_wrt (\<lambda>x y. go x \<longrightarrow> go y) (objs t) \<Longrightarrow>
    nodes (ins_tree go t (new_leaf s ob)) =
      takeWhile (\<lambda>n. \<not> go (snd n)) (nodes t) @ (brk s, ob) # dropWhile (\<lambda>n. \<not> go (snd n)) (nodes t)"
  by (simp add: ins_tree_def nodes_ins_fix nodes_plug before_descend after_descend new_leaf_def)

lemma mset_ins_tree:
  "mset (nodes (ins_tree go t (new_leaf s ob))) = add_mset (brk s, ob) (mset (nodes t))"
  using nodes_plug [of "descend go [] t" Tip]
  by (simp add: plug_descend ins_tree_def nodes_ins_fix nodes_plug new_leaf_def)

lemma rbt_ins_tree:
  assumes "rbt t"
  shows "rbt (ins_tree go t (new_leaf s ob))"
proof -
  let ?fs = "descend go [] t"
  have "invc (plug ?fs Tip)" "invh (plug ?fs Tip)" "tcolor (plug ?fs Tip) = rbclrBlack"
    using assms by (simp_all add: plug_descend rbt_def)
  then have "cinv ?fs 0" "top_black ?fs"
    using inv_plug [of ?fs Tip] by (auto simp: top_black_def tcolor_plug split: if_splits)
  then show ?thesis
    unfolding ins_tree_def by (intro rbt_ins_fix) (simp_all add: new_leaf_def)
qed

subsection \<open>Search\<close>

fun look :: "('a \<Rightarrow> int) \<Rightarrow> 'a ptree \<Rightarrow> ptr" where
  "look k Tip = NULL"
| "look k (Nd a c l x r) = (if k x = 0 then a else if k x > 0 then look k l else look k r)"

lemma find_linked:
  assumes "linked s (plug fs t)"
  shows "rbtree_find_loop ob (rt t) s = Some (look (keycmp s ob) t)"
  using assms
proof (induction t arbitrary: fs)
  case Tip
  then show ?case by (simp add: rbtree_find_loop.simps)
next
  case (Nd a c l x r)
  then show ?case
    using linked_node [OF Nd.prems] Nd.IH(1) [of "InL a c x r # fs"] Nd.IH(2) [of "InR a c l x # fs"]
    by (subst rbtree_find_loop.simps) (simp add: Let_def)
qed

lemma unique_loop_linked:
  assumes "linked s (plug fs t)" "t \<noteq> Tip"
  shows "rbtree_insert_unique_loop ob (rt t) s =
    (if look (keycmp s ob) t = NULL then map_option (\<lambda>(n, s). (n, True, s)) (rbtree_insert_loop ob (rt t) s)
     else Some (look (keycmp s ob) t, False, s))"
    (is "_ = ?res t")
  using assms
proof (induction t arbitrary: fs)
  case (Nd a c l x r)
  have null: "rt l = NULL \<longleftrightarrow> l = Tip" "rt r = NULL \<longleftrightarrow> r = Tip"
    using Nd.prems(1) by (auto simp: linked_def dist_plug rt_eq_NULL)
  note node = linked_node [OF Nd.prems(1)]
  have IH: "l \<noteq> Tip \<Longrightarrow> rbtree_insert_unique_loop ob (rt l) s = ?res l"
    "r \<noteq> Tip \<Longrightarrow> rbtree_insert_unique_loop ob (rt r) s = ?res r"
    using Nd.IH(1) [of "InL a c x r # fs"] Nd.IH(2) [of "InR a c l x # fs"] Nd.prems by simp_all
  have "rbtree_insert_unique_loop ob a s = ?res (Nd a c l x r)"
    by (subst rbtree_insert_unique_loop.simps, subst rbtree_insert_loop.simps)
      (cases "l = Tip"; cases "r = Tip"; simp add: node null IH map_option_bind comp_def split_def)
  then show ?case by simp
qed simp

lemma look_sound:
  "dist t \<Longrightarrow> look k t \<noteq> NULL \<Longrightarrow> \<exists>x. (look k t, x) \<in> set (nodes t) \<and> k x = 0"
  by (induction t) (auto split: if_splits)

lemma look_complete:
  "dist t \<Longrightarrow> sorted_wrt (\<lambda>x y. sgn (k x) \<le> sgn (k y)) (objs t) \<Longrightarrow> n \<in> set (nodes t) \<Longrightarrow>
    k (snd n) = 0 \<Longrightarrow> look k t \<noteq> NULL"
proof (induction t)
  case (Nd a c l x r)
  note srt = sorted_objsD [OF Nd.prems(2)]
  consider "k x = 0" | "k x > 0" "n \<in> set (nodes l)" | "k x < 0" "n \<in> set (nodes r)"
    using srt(3,4) [of n] Nd.prems(3,4) by (fastforce simp: sgn_if split: if_splits)
  then show ?case
    using Nd.IH srt(1,2) Nd.prems(1,4) by cases simp_all
qed simp

lemma find_holds: "holds s t \<Longrightarrow> rbtree_find ob s = Some (look (keycmp s ob) t)"
  using find_linked [of s "[]" t ob] holds_linked [of s t] by (simp add: rbtree_find_def linked_def)

text \<open>Unique insertion is a search followed, where it fails, by an insertion.\<close>

lemma insert_unique_holds:
  assumes "holds s t"
  shows "rbtree_insert_unique ob s =
    (if look (keycmp s ob) t = NULL then map_option (\<lambda>(n, s'). (n, True, s')) (rbtree_insert ob s)
     else Some (look (keycmp s ob) t, False, s))"
proof (cases "t = Tip")
  case True
  then show ?thesis
    using holds_root [OF assms]
    by (cases "rbtree_insert_first ob s") (auto simp: rbtree_insert_unique_def rbtree_insert_def)
next
  case False
  then have "root s \<noteq> NULL" "root s = rt t"
    using holds_root [OF assms] holds_linked [OF assms] by (simp_all add: linked_def)
  then show ?thesis
    using unique_loop_linked [of s "[]" t ob] holds_linked [OF assms] False
    by (cases "rbtree_insert_loop ob (rt t) s")
      (auto simp: rbtree_insert_unique_def rbtree_insert_def map_option_bind comp_def)
qed

text \<open>Without memory for a node the program exits.\<close>

lemma insert_loop_full:
  assumes "linked s (plug fs t)" "t \<noteq> Tip" "\<not> brk s < limit s"
  shows "rbtree_insert_loop ob (rt t) s = None"
  using assms
proof (induction t arbitrary: fs)
  case (Nd a c l x r)
  have "rbnode_construct ob rbclrRed s = None"
    using assms(3) by (simp add: rbnode_construct_def malloc_node_def)
  then have "rbtree_insert_loop ob a s = None"
    using linked_node [OF Nd.prems(1)] Nd.IH(1) [of "InL a c x r # fs"] Nd.IH(2) [of "InR a c l x # fs"]
      Nd.prems linked_def
    by (subst rbtree_insert_loop.simps) (cases "l = Tip"; cases "r = Tip"; simp)
  then show ?case by simp
qed simp

lemma insert_full:
  assumes "holds s t" "\<not> brk s < limit s"
  shows "rbtree_insert ob s = None"
proof (cases "t = Tip")
  case True
  then show ?thesis
    using holds_root [OF assms(1)] assms(2)
    by (simp add: rbtree_insert_def rbtree_insert_first_def rbnode_construct_def malloc_node_def)
next
  case False
  then show ?thesis
    using insert_loop_full [of s "[]" t ob] assms(2) holds_root [OF assms(1)] holds_linked [OF assms(1)]
    by (simp add: rbtree_insert_def linked_def)
qed

end
