(* ===== verification/RB_Query.thy ===== *)
theory RB_Query
  imports RB_Search
begin

section \<open>Queries, traversals and destruction\<close>

text \<open>
  What the read-only operations of the container return, in terms of the sequence of nodes
  of the tree the store holds, and that destruction frees exactly the nodes of the tree.
\<close>

subsection \<open>Traversals\<close>

lemma traverse_linked:
  assumes "linked s (plug fs t)"
  shows "rbnode_traverse (rt t) f p s = Some (fold f (objs t) p)"
  using assms
proof (induction t arbitrary: fs p)
  case Tip
  then show ?case by (simp add: rbnode_traverse.simps)
next
  case (Nd a c l x r)
  then show ?case
    using linked_node [OF Nd.prems] Nd.IH(1) [of "InL a c x r # fs"] Nd.IH(2) [of "InR a c l x # fs"]
    by (subst rbnode_traverse.simps) simp
qed

lemma traverse_right_linked:
  assumes "linked s (plug fs t)"
  shows "rbnode_traverse_right (rt t) f p s = Some (fold f (rev (objs t)) p)"
  using assms
proof (induction t arbitrary: fs p)
  case Tip
  then show ?case by (simp add: rbnode_traverse_right.simps)
next
  case (Nd a c l x r)
  then show ?case
    using linked_node [OF Nd.prems] Nd.IH(1) [of "InL a c x r # fs"] Nd.IH(2) [of "InR a c l x # fs"]
    by (subst rbnode_traverse_right.simps) simp
qed

lemma traverse_holds:
  assumes "holds s t"
  shows "rbtree_traverse f p s = Some (fold f (objs t) p)"
    "rbtree_traverse_right f p s = Some (fold f (rev (objs t)) p)"
  using traverse_linked [of s "[]" t] traverse_right_linked [of s "[]" t] holds_linked [OF assms]
  by (simp_all add: rbtree_traverse_def rbtree_traverse_right_def linked_def)

subsection \<open>Extremal nodes and neighbours\<close>

lemma rt_NULL_linked: "linked s (plug fs t) \<Longrightarrow> rt t = NULL \<longleftrightarrow> t = Tip"
  by (simp add: linked_def dist_plug rt_eq_NULL)

lemma minimum_linked:
  assumes "linked s (plug fs t)" "t \<noteq> Tip"
  shows "rbnode_minimum (rt t) s = Some (fst (hd (nodes t)))"
  using assms
proof (induction t arbitrary: fs)
  case (Nd a c l x r)
  then show ?case
    using linked_node [OF Nd.prems(1)] Nd.IH(1) [of "InL a c x r # fs"]
      rt_NULL_linked [of s "InL a c x r # fs" l]
    by (subst rbnode_minimum.simps) (cases "l = Tip"; simp)
qed simp

lemma maximum_linked:
  assumes "linked s (plug fs t)" "t \<noteq> Tip"
  shows "rbnode_maximum (rt t) s = Some (fst (last (nodes t)))"
  using assms
proof (induction t arbitrary: fs)
  case (Nd a c l x r)
  then show ?case
    using linked_node [OF Nd.prems(1)] Nd.IH(2) [of "InR a c l x # fs"]
      rt_NULL_linked [of s "InR a c l x # fs" r]
    by (subst rbnode_maximum.simps) (cases "r = Tip"; simp)
qed simp

definition first_ptr :: "(ptr \<times> 'a) list \<Rightarrow> ptr" where
  "first_ptr ns = (case ns of [] \<Rightarrow> NULL | n # _ \<Rightarrow> fst n)"

lemma first_ptr_simps [simp]:
  "first_ptr [] = NULL" "first_ptr (n # ns) = fst n"
  "ns \<noteq> [] \<Longrightarrow> first_ptr (ns @ ns') = fst (hd ns)"
  by (auto simp: first_ptr_def neq_Nil_conv)

lemma first_ptr_hd: "ns \<noteq> [] \<Longrightarrow> first_ptr ns = fst (hd ns)"
  by (cases ns) auto

lemma sibling_neq:
  "linked s (plug (InL a c x r # fs) t) \<Longrightarrow> t \<noteq> Tip \<Longrightarrow> rt t \<noteq> rt r"
  "linked s (plug (InR a c l x # fs) t) \<Longrightarrow> t \<noteq> Tip \<Longrightarrow> rt t \<noteq> rt l"
  by (cases t; cases r; simp add: linked_def dist_plug) (cases t; cases l; simp add: linked_def dist_plug)

lemma successor_up_linked:
  assumes "linked s (plug fs t)" "t \<noteq> Tip"
  shows "rbnode_successor_up (rt t) (up fs) s = Some (first_ptr (after fs))"
  using assms
proof (induction fs t rule: plug.induct)
  case (1 t)
  then show ?case by (simp add: rbnode_successor_up.simps)
next
  case (2 a c x r fs t)
  then show ?case
    using linked_node [of s fs a c t x r] sibling_neq(1) [of s a c x r fs t]
    by (subst rbnode_successor_up.simps) simp
next
  case (3 a c l x fs t)
  then show ?case
    using linked_node [of s fs a c l x t] by (subst rbnode_successor_up.simps) simp
qed

lemma predecessor_up_linked:
  assumes "linked s (plug fs t)" "t \<noteq> Tip"
  shows "rbnode_predecessor_up (rt t) (up fs) s = Some (first_ptr (rev (before fs)))"
  using assms
proof (induction fs t rule: plug.induct)
  case (1 t)
  then show ?case by (simp add: rbnode_predecessor_up.simps)
next
  case (2 a c x r fs t)
  then show ?case
    using linked_node [of s fs a c t x r] by (subst rbnode_predecessor_up.simps) simp
next
  case (3 a c l x fs t)
  then show ?case
    using linked_node [of s fs a c l x t] sibling_neq(2) [of s a c l x fs t]
    by (subst rbnode_predecessor_up.simps) simp
qed

lemma successor_linked:
  assumes "linked s (plug fs (Nd a c l x r))"
  shows "rbnode_successor a s = Some (first_ptr (nodes r @ after fs))"
  using linked_node [OF assms] successor_up_linked [OF assms] minimum_linked [of s "InR a c l x # fs" r]
    rt_NULL_linked [of s "InR a c l x # fs" r] assms
  by (cases "r = Tip") (simp_all add: rbnode_successor_def)

lemma predecessor_linked:
  assumes "linked s (plug fs (Nd a c l x r))"
  shows "rbnode_predecessor a s = Some (first_ptr (rev (before fs @ nodes l)))"
  using linked_node [OF assms] predecessor_up_linked [OF assms] maximum_linked [of s "InL a c x r # fs" l]
    rt_NULL_linked [of s "InL a c x r # fs" l] assms
  by (cases "l = Tip") (simp_all add: rbnode_predecessor_def hd_rev)

text \<open>Every node of a tree is at some position.\<close>

lemma nodes_plug_position:
  "(a, x) \<in> set (nodes t) \<Longrightarrow> \<exists>fs' c l r. plug fs t = plug fs' (Nd a c l x r)"
proof (induction t arbitrary: fs)
  case (Nd b c l y r)
  then consider "a = b" "x = y" | "(a, x) \<in> set (nodes l)" | "(a, x) \<in> set (nodes r)" by auto
  then show ?case
  proof cases
    case 1
    then show ?thesis by blast
  next
    case 2
    then show ?thesis using Nd.IH(1) [of "InL b c y r # fs"] by simp
  next
    case 3
    then show ?thesis using Nd.IH(2) [of "InR b c l y # fs"] by simp
  qed
qed simp

lemma nodes_position:
  assumes "nodes t = ns @ (a, x) # ns'" "dist t"
  shows "\<exists>fs c l r. t = plug fs (Nd a c l x r) \<and> ns = before fs @ nodes l \<and> ns' = nodes r @ after fs"
proof -
  obtain fs c l r where t: "t = plug fs (Nd a c l x r)"
    using nodes_plug_position [of a x t "[]"] assms(1) by auto
  have "distinct (nodes t)"
    using assms(2) distinct_map by (auto simp: dist_nodes)
  then have "(a, x) \<notin> set ns" "(a, x) \<notin> set ns'"
    by (simp_all add: assms(1))
  then have "ns = before fs @ nodes l \<and> ns' = nodes r @ after fs"
    using assms(1) append_Cons_eq_iff [of "(a, x)" ns ns' "before fs @ nodes l" "nodes r @ after fs"]
    by (simp add: t nodes_plug)
  then show ?thesis using t by blast
qed

lemma neighbours_holds:
  assumes "holds s t" "nodes t = ns @ (a, x) # ns'"
  shows "rbnode_successor a s = Some (first_ptr ns')" "rbnode_predecessor a s = Some (first_ptr (rev ns))"
proof -
  have lnk: "linked s t" "dist t"
    using holds_linked [OF assms(1)] by (simp_all add: linked_def)
  obtain fs c l r where t: "t = plug fs (Nd a c l x r)" "ns = before fs @ nodes l" "ns' = nodes r @ after fs"
    using nodes_position [OF assms(2) lnk(2)] by blast
  show "rbnode_successor a s = Some (first_ptr ns')" "rbnode_predecessor a s = Some (first_ptr (rev ns))"
    using lnk(1) unfolding t by (rule successor_linked, rule predecessor_linked)
qed

lemma extremes_holds:
  assumes "holds s t"
  shows "rbtree_minimum s = Some (first_ptr (nodes t))" "rbtree_maximum s = Some (first_ptr (rev (nodes t)))"
proof -
  have "rbtree_minimum s = Some (first_ptr (nodes t)) \<and> rbtree_maximum s = Some (first_ptr (rev (nodes t)))"
  proof (cases "t = Tip")
    case True
    then show ?thesis using holds_root [OF assms] by (simp add: rbtree_minimum_def rbtree_maximum_def)
  next
    case False
    then have "root s = rt t" "root s \<noteq> NULL"
      using holds_root [OF assms] holds_linked [OF assms] by (simp_all add: linked_def)
    then show ?thesis
      using False minimum_linked [of s "[]" t] maximum_linked [of s "[]" t] holds_linked [OF assms]
      by (simp add: rbtree_minimum_def rbtree_maximum_def first_ptr_hd hd_rev)
  qed
  then show "rbtree_minimum s = Some (first_ptr (nodes t))" "rbtree_maximum s = Some (first_ptr (rev (nodes t)))"
    by simp_all
qed

subsection \<open>Depth\<close>

lemma depth_linked:
  assumes "linked s (plug fs t)" "t \<noteq> Tip"
  shows "rbnode_depth (rt t) s = Some (int (depth t))"
  using assms
proof (induction t arbitrary: fs)
  case (Nd a c l x r)
  then show ?case
    using linked_node [OF Nd.prems(1)] Nd.IH(1) [of "InL a c x r # fs"] Nd.IH(2) [of "InR a c l x # fs"]
      rt_NULL_linked [of s "InL a c x r # fs" l] rt_NULL_linked [of s "InR a c l x # fs" r]
    by (subst rbnode_depth.simps) (cases "l = Tip"; cases "r = Tip"; simp)
qed simp

lemma depth_holds: "holds s t \<Longrightarrow> rbtree_depth s = Some (int (depth t))"
  using depth_linked [of s "[]" t] holds_linked [of s t] holds_root [of s t]
  by (cases "t = Tip") (auto simp: rbtree_depth_def linked_def)

subsection \<open>Destruction\<close>

lemma tree_at_restrict [simp]: "A \<inter> aset t = {} \<Longrightarrow> tree_at (h |` (- A)) q t = tree_at h q t"
  by (induction t arbitrary: q) (auto simp: Int_Un_distrib)

lemma destruct_tree:
  assumes "tree_at (cells s) q t" "dist t"
  shows "rbnode_destruct (rt t) s = Some (s\<lparr>cells := cells s |` (- aset t)\<rparr>)"
  using assms
proof (induction t arbitrary: q s)
  case Tip
  then show ?case by (simp add: rbnode_destruct.simps)
next
  case (Nd a c l x r)
  let ?s1 = "s\<lparr>cells := cells s |` (- aset r)\<rparr>"
  let ?s2 = "?s1\<lparr>cells := cells ?s1 |` (- aset l)\<rparr>"
  have "rbnode_destruct (rt r) s = Some ?s1"
    using Nd.IH(2) [of s a] Nd.prems by simp
  moreover have "rbnode_destruct (rt l) ?s1 = Some ?s2"
    using Nd.IH(1) [of ?s1 a] Nd.prems by (simp add: Int_commute)
  moreover have "(cells ?s2)(a := None) = cells s |` (- aset (Nd a c l x r))"
    by (auto simp: restrict_map_def fun_eq_iff)
  ultimately show ?case
    using Nd.prems
    by (subst rbnode_destruct.simps) (simp add: field_defs free_node_def restrict_map_def)
qed

lemma clean_holds:
  assumes "holds s t"
  shows "rbtree_clean (Some s) = Some (Some (s\<lparr>cells := Map.empty, root := NULL, tree_size := 0\<rparr>))"
proof -
  have "cells s |` (- aset t) = Map.empty"
    using assms by (auto simp: holds_def shape_def restrict_map_def fun_eq_iff)
  then show ?thesis
    using destruct_tree [of s NULL t] assms by (simp add: rbtree_clean_def holds_def shape_def)
qed

end
