(* ===== verification/RB_Fixup.thy ===== *)
theory RB_Fixup
  imports RB_Query
begin

section \<open>The fix-up of a removal\<close>

text \<open>
  \<open>rbtree_remove_fixup\<close> only recolours and rotates: from every tree with a black root it
  returns, and the tree it leaves has the same nodes in the same order and a black root.  The
  paths need not have the same number of black nodes before or after.
\<close>

subsection \<open>One round\<close>

text \<open>The part of a round behind the treatment of a red sibling.\<close>

definition tail_left :: "ptr \<Rightarrow> ptr \<Rightarrow> 'a rbstate \<Rightarrow> (ptr \<times> 'a rbstate) option" where
  "tail_left curr_node sibling s = do {
     p \<leftarrow> get_parent curr_node s;
     both_black \<leftarrow>
       (if sibling = NULL then Some False
        else do {
          sl \<leftarrow> get_left sibling s;
          lb \<leftarrow> null_or_black sl s;
          if \<not> lb then Some False
          else do {
            sr \<leftarrow> get_right sibling s;
            null_or_black sr s
          }
        });
     if both_black then do {
       s \<leftarrow> set_color sibling rbclrRed s;
       pc \<leftarrow> get_color p s;
       if pc = rbclrRed then do {
         s \<leftarrow> set_color p rbclrBlack s;
         Some (root s, s)
       } else Some (p, s)
     } else if sibling = NULL then do {
       pc \<leftarrow> get_color p s;
       if pc = rbclrRed then do {
         s \<leftarrow> set_color p rbclrBlack s;
         Some (root s, s)
       } else Some (p, s)
     } else do {
       sr \<leftarrow> get_right sibling s;
       rred \<leftarrow> is_red sr s;
       s \<leftarrow> (if rred then do {
                s \<leftarrow> set_color sr rbclrBlack s;
                rbtree_rotate_left p s
              } else do {
                s \<leftarrow> rbtree_rotate_right sibling s;
                p \<leftarrow> get_parent curr_node s;
                sibling \<leftarrow> get_right p s;
                rbtree_rotate_left sibling s
              });
       p \<leftarrow> get_parent curr_node s;
       gp \<leftarrow> get_parent p s;
       pc \<leftarrow> get_color p s;
       s \<leftarrow> (if gp \<noteq> NULL then set_color gp pc s else Some s);
       s \<leftarrow> set_color p rbclrBlack s;
       Some (root s, s)
     }
   }"

lemma fixup_left_tail:
  "rbtree_remove_fixup_left curr_node s = do {
     p \<leftarrow> get_parent curr_node s;
     sibling \<leftarrow> get_right p s;
     sred \<leftarrow> is_red sibling s;
     (sibling, s) \<leftarrow>
       (if sred then do {
          s \<leftarrow> set_color sibling rbclrBlack s;
          s \<leftarrow> set_color p rbclrRed s;
          s \<leftarrow> rbtree_rotate_left p s;
          p \<leftarrow> get_parent curr_node s;
          sibling \<leftarrow> get_right p s;
          Some (sibling, s)
        } else Some (sibling, s));
     tail_left curr_node sibling s }"
  unfolding rbtree_remove_fixup_left_def tail_left_def by (rule refl)

definition tail_right :: "ptr \<Rightarrow> ptr \<Rightarrow> 'a rbstate \<Rightarrow> (ptr \<times> 'a rbstate) option" where
  "tail_right curr_node sibling s = do {
     p \<leftarrow> get_parent curr_node s;
     both_black \<leftarrow>
       (if sibling = NULL then Some False
        else do {
          sl \<leftarrow> get_left sibling s;
          lb \<leftarrow> null_or_black sl s;
          if \<not> lb then Some False
          else do {
            sr \<leftarrow> get_right sibling s;
            null_or_black sr s
          }
        });
     if both_black then do {
       s \<leftarrow> set_color sibling rbclrRed s;
       pc \<leftarrow> get_color p s;
       if pc = rbclrRed then do {
         s \<leftarrow> set_color p rbclrBlack s;
         Some (root s, s)
       } else Some (p, s)
     } else if sibling = NULL then do {
       pc \<leftarrow> get_color p s;
       if pc = rbclrRed then do {
         s \<leftarrow> set_color p rbclrBlack s;
         Some (root s, s)
       } else Some (p, s)
     } else do {
       sl \<leftarrow> get_left sibling s;
       lred \<leftarrow> is_red sl s;
       s \<leftarrow> (if lred then do {
                s \<leftarrow> set_color sl rbclrBlack s;
                rbtree_rotate_right p s
              } else do {
                s \<leftarrow> rbtree_rotate_left sibling s;
                p \<leftarrow> get_parent curr_node s;
                sibling \<leftarrow> get_left p s;
                rbtree_rotate_right sibling s
              });
       p \<leftarrow> get_parent curr_node s;
       gp \<leftarrow> get_parent p s;
       pc \<leftarrow> get_color p s;
       s \<leftarrow> (if gp \<noteq> NULL then set_color gp pc s else Some s);
       s \<leftarrow> set_color p rbclrBlack s;
       Some (root s, s)
     }
   }"

lemma fixup_right_tail:
  "rbtree_remove_fixup_right curr_node s = do {
     p \<leftarrow> get_parent curr_node s;
     sibling \<leftarrow> get_left p s;
     sred \<leftarrow> is_red sibling s;
     (sibling, s) \<leftarrow>
       (if sred then do {
          s \<leftarrow> set_color sibling rbclrBlack s;
          s \<leftarrow> set_color p rbclrRed s;
          s \<leftarrow> rbtree_rotate_right p s;
          p \<leftarrow> get_parent curr_node s;
          sibling \<leftarrow> get_left p s;
          Some (sibling, s)
        } else Some (sibling, s));
     tail_right curr_node sibling s }"
  unfolding rbtree_remove_fixup_right_def tail_right_def by (rule refl)

text \<open>How a round ends: at the root, or, when the parent is black, at the parent with the frames
  above unchanged.\<close>

definition ended ::
    "'a frame list \<Rightarrow> ptr \<Rightarrow> red_black_color \<Rightarrow> (ptr \<times> 'a) list \<Rightarrow> (ptr \<times> 'a rbstate) option \<Rightarrow> bool" where
  "ended fs p cp ns res \<longleftrightarrow>
     (\<exists>s'. res = Some (root s', s') \<and> (\<exists>T. linked s' T \<and> nodes T = ns)) \<or>
     cp = rbclrBlack \<and> (\<exists>s'. res = Some (p, s') \<and>
        (\<exists>t. linked s' (plug fs t) \<and> t \<noteq> Tip \<and> rt t = p \<and> nodes (plug fs t) = ns))"

lemma ended_root: "linked s T \<Longrightarrow> nodes T = ns \<Longrightarrow> ended fs p cp ns (Some (root s, s))"
  by (auto simp: ended_def)

lemma ended_up:
  "linked s (plug fs t) \<Longrightarrow> t \<noteq> Tip \<Longrightarrow> rt t = p \<Longrightarrow> nodes (plug fs t) = ns \<Longrightarrow>
    ended fs p rbclrBlack ns (Some (p, s))"
  by (auto simp: ended_def)

lemma ended_red: "ended fs p rbclrRed ns res \<Longrightarrow> ended fs' p' cp ns res"
  by (simp add: ended_def)

text \<open>Painting the node above a position.\<close>

fun repaint :: "red_black_color \<Rightarrow> 'a frame list \<Rightarrow> 'a frame list" where
  "repaint c [] = []"
| "repaint c (InL a c' x r # fs) = InL a c x r # fs"
| "repaint c (InR a c' l x # fs) = InR a c l x # fs"

lemma nodes_repaint [simp]: "before (repaint c fs) = before fs" "after (repaint c fs) = after fs"
  by (cases fs rule: up.cases; simp)+

lemma set_color_up:
  assumes "linked s (plug fs t)"
  shows "\<exists>s'. (if up fs \<noteq> NULL then set_color (up fs) c s else Some s) = Some s' \<and>
    linked s' (plug (repaint c fs) t)"
proof (cases fs rule: up.cases)
  case 1
  then show ?thesis using assms by simp
next
  case (2 a c' x r fs')
  then show ?thesis
    using assms set_color_linked [of s fs' a c' t x r c] linked_node(6) [of s fs' a c' t x r] by simp
next
  case (3 a c' l x fs')
  then show ?thesis
    using assms set_color_linked [of s fs' a c' l x t c] linked_node(6) [of s fs' a c' l x t] by simp
qed

lemma linked_parent: "linked s (plug fs t) \<Longrightarrow> t \<noteq> Tip \<Longrightarrow> get_parent (rt t) s = Some (up fs)"
  by (cases t) (auto dest: linked_node(3))

text \<open>A black parent is the next node, a red one is painted black and ends the loop.\<close>

lemma parent_ended:
  assumes "linked s (plug fs (Nd p cp l x r))" "nodes (plug fs (Nd p cp l x r)) = ns"
  shows "ended fs p cp ns (do {
       pc \<leftarrow> get_color p s;
       if pc = rbclrRed then do {
         s \<leftarrow> set_color p rbclrBlack s;
         Some (root s, s)
       } else Some (p, s) })"
proof (cases cp)
  case rbclrRed
  then show ?thesis
    using assms linked_node(2) [OF assms(1)] set_color_linked [OF assms(1), of rbclrBlack]
    by (auto simp: nodes_plug intro!: ended_root)
next
  case rbclrBlack
  then show ?thesis
    using assms linked_node(2) [OF assms(1)] by (auto intro!: ended_up [OF assms(1)])
qed

text \<open>The end of a round that has rotated: the parent gives its colour to the node above it.\<close>

lemma grandparent_ended:
  assumes "linked s (plug gs (Nd p cp l x r))" "nodes (plug gs (Nd p cp l x r)) = ns"
  shows "ended fs q cq ns (do {
       gp \<leftarrow> get_parent p s;
       pc \<leftarrow> get_color p s;
       s \<leftarrow> (if gp \<noteq> NULL then set_color gp pc s else Some s);
       s \<leftarrow> set_color p rbclrBlack s;
       Some (root s, s) })"
proof -
  obtain s1 where s1: "(if up gs \<noteq> NULL then set_color (up gs) cp s else Some s) = Some s1"
    "linked s1 (plug (repaint cp gs) (Nd p cp l x r))"
    using set_color_up [OF assms(1)] by blast
  then obtain s2 where "set_color p rbclrBlack s1 = Some s2" "linked s2 (plug (repaint cp gs) (Nd p rbclrBlack l x r))"
    using set_color_linked [OF s1(2), of rbclrBlack] by blast
  moreover have "nodes (plug (repaint cp gs) (Nd p rbclrBlack l x r)) = ns"
    using assms(2) by (simp add: nodes_plug)
  ultimately show ?thesis
    using s1 linked_node [OF assms(1)] by (auto intro: ended_root)
qed

lemma sibling_colors:
  assumes "linked s (plug fs (Nd q cq sl y sr))"
  shows "null_or_black (rt sl) s = Some (tcolor sl = rbclrBlack)"
    "null_or_black (rt sr) s = Some (tcolor sr = rbclrBlack)"
    "is_red (rt sl) s = Some (tcolor sl = rbclrRed)" "is_red (rt sr) s = Some (tcolor sr = rbclrRed)"
  using linked_null_or_black [of s "InL q cq y sr # fs" sl] linked_null_or_black [of s "InR q cq sl y # fs" sr]
    linked_is_red [of s "InL q cq y sr # fs" sl] linked_is_red [of s "InR q cq sl y # fs" sr] assms by simp_all

lemma child_parent:
  "linked s (plug fs (Nd p cp t z sib)) \<Longrightarrow> t \<noteq> Tip \<Longrightarrow> get_parent (rt t) s = Some p"
  "linked s (plug fs (Nd p cp sib z t)) \<Longrightarrow> t \<noteq> Tip \<Longrightarrow> get_parent (rt t) s = Some p"
  using linked_parent [of s "InL p cp z sib # fs" t] linked_parent [of s "InR p cp sib z # fs" t] by simp_all

lemma tail_left_Tip:
  assumes "linked s (plug fs (Nd p cp t z Tip))" "t \<noteq> Tip" "nodes (plug fs (Nd p cp t z Tip)) = ns"
  shows "ended fs p cp ns (tail_left (rt t) NULL s)"
  using parent_ended [OF assms(1,3)] child_parent(1) [OF assms(1,2)] by (simp add: tail_left_def)

lemma tail_left_black:
  assumes "linked s (plug fs (Nd p cp t z (Nd q cq sl y sr)))" "t \<noteq> Tip"
    "nodes (plug fs (Nd p cp t z (Nd q cq sl y sr))) = ns" "tcolor sl = rbclrBlack" "tcolor sr = rbclrBlack"
  shows "ended fs p cp ns (tail_left (rt t) q s)"
proof -
  have L: "linked s (plug (InR p cp t z # fs) (Nd q cq sl y sr))" using assms(1) by simp
  obtain s' where s': "set_color q rbclrRed s = Some s'"
    "linked s' (plug fs (Nd p cp t z (Nd q rbclrRed sl y sr)))"
    using set_color_linked [OF L, of rbclrRed] by auto
  have "nodes (plug fs (Nd p cp t z (Nd q rbclrRed sl y sr))) = ns"
    using assms(3) by (simp add: nodes_plug)
  then show ?thesis
    using parent_ended [OF s'(2)] child_parent(1) [OF assms(1,2)] linked_node [OF L] sibling_colors [OF L] assms(4,5) s'(1)
    by (simp add: tail_left_def)
qed

lemma tail_left_red:
  assumes "linked s (plug fs (Nd p cp t z (Nd q cq sl y sr)))" "t \<noteq> Tip"
    "nodes (plug fs (Nd p cp t z (Nd q cq sl y sr))) = ns" "tcolor sr = rbclrRed"
  shows "ended fs p cp ns (tail_left (rt t) q s)"
proof -
  have L: "linked s (plug (InR p cp t z # fs) (Nd q cq sl y sr))" using assms(1) by simp
  have "sr \<noteq> Tip" using assms(4) by auto
  then obtain s1 where s1: "set_color (rt sr) rbclrBlack s = Some s1"
    "linked s1 (plug fs (Nd p cp t z (Nd q cq sl y (paint rbclrBlack sr))))"
    using set_color_paint [of s "InR q cq sl y # InR p cp t z # fs" sr rbclrBlack] L by auto
  obtain s2 where s2: "rbtree_rotate_left p s1 = Some s2"
    "linked s2 (plug (InL q cq y (paint rbclrBlack sr) # fs) (Nd p cp t z sl))"
    using rotate_left_linked [OF s1(2)] by auto
  have "nodes (plug (InL q cq y (paint rbclrBlack sr) # fs) (Nd p cp t z sl)) = ns"
    using assms(3) by (simp add: nodes_plug)
  then show ?thesis
    using grandparent_ended [OF s2(2), of ns fs p cp] child_parent(1) [OF s2(2) assms(2)] child_parent(1) [OF assms(1,2)]
      linked_node [OF L] sibling_colors [OF L] assms(4) s1(1) s2(1)
    by (simp add: tail_left_def del: plug.simps)
qed

lemma tail_left_left:
  assumes "linked s (plug fs (Nd p cp t z (Nd q cq sl y sr)))" "t \<noteq> Tip"
    "nodes (plug fs (Nd p cp t z (Nd q cq sl y sr))) = ns" "tcolor sl = rbclrRed" "tcolor sr = rbclrBlack"
  shows "ended fs p cp ns (tail_left (rt t) q s)"
proof -
  have L: "linked s (plug (InR p cp t z # fs) (Nd q cq sl y sr))" using assms(1) by simp
  obtain m ml w mr where sl: "sl = Nd m rbclrRed ml w mr" using assms(4) by (cases sl) auto
  obtain s1 where s1: "rbtree_rotate_right q s = Some s1"
    "linked s1 (plug fs (Nd p cp t z (Nd m rbclrRed ml w (Nd q cq mr y sr))))"
    using rotate_right_linked [OF L [unfolded sl]] by auto
  then have M: "linked s1 (plug (InR p cp t z # fs) (Nd m rbclrRed ml w (Nd q cq mr y sr)))" by simp
  obtain s2 where s2: "rbtree_rotate_left m s1 = Some s2"
    "linked s2 (plug fs (Nd p cp t z (Nd q cq sl y sr)))"
    using rotate_left_linked [OF M] sl by auto
  have "get_right p s1 = Some m" using linked_node(4) [OF s1(2)] by simp
  then show ?thesis
    using grandparent_ended [OF s2(2) assms(3), of fs p cp] child_parent(1) [OF s2(2) assms(2)]
      child_parent(1) [OF s1(2) assms(2)] child_parent(1) [OF assms(1,2)]
      linked_node [OF L] sibling_colors [OF L] assms(4,5) s1(1) s2(1)
    by (simp add: tail_left_def)
qed

lemma tail_left_ended:
  assumes "linked s (plug fs (Nd p cp t z sib))" "t \<noteq> Tip" "nodes (plug fs (Nd p cp t z sib)) = ns"
  shows "ended fs p cp ns (tail_left (rt t) (rt sib) s)"
proof (cases sib)
  case Tip
  then show ?thesis using tail_left_Tip assms by simp
next
  case (Nd q cq sl y sr)
  then show ?thesis
    using tail_left_black [of s fs p cp t z q cq sl y sr ns] tail_left_red [of s fs p cp t z q cq sl y sr ns]
      tail_left_left [of s fs p cp t z q cq sl y sr ns] assms
    by (cases "tcolor sl"; cases "tcolor sr") simp_all
qed

lemma fixup_left_ended:
  assumes "linked s (plug fs (Nd p cp t z sib))" "t \<noteq> Tip" "nodes (plug fs (Nd p cp t z sib)) = ns"
  shows "ended fs p cp ns (rbtree_remove_fixup_left (rt t) s)"
proof (cases "tcolor sib")
  case rbclrBlack
  then have "is_red (rt sib) s = Some False"
    using linked_is_red [of s "InR p cp t z # fs" sib] assms(1) by simp
  then show ?thesis
    using tail_left_ended [OF assms] child_parent(1) [OF assms(1,2)] linked_node(4) [OF assms(1)]
    by (simp add: fixup_left_tail)
next
  case rbclrRed
  then obtain q sl y sr where sib: "sib = Nd q rbclrRed sl y sr" by (cases sib) auto
  have L: "linked s (plug (InR p cp t z # fs) (Nd q rbclrRed sl y sr))" using assms(1) sib by simp
  obtain s1 where s1: "set_color q rbclrBlack s = Some s1"
    "linked s1 (plug fs (Nd p cp t z (Nd q rbclrBlack sl y sr)))"
    using set_color_linked [OF L, of rbclrBlack] by auto
  obtain s2 where s2: "set_color p rbclrRed s1 = Some s2"
    "linked s2 (plug fs (Nd p rbclrRed t z (Nd q rbclrBlack sl y sr)))"
    using set_color_linked [OF s1(2), of rbclrRed] by auto
  let ?gs = "InL q rbclrBlack y sr # fs"
  obtain s3 where s3: "rbtree_rotate_left p s2 = Some s3" "linked s3 (plug ?gs (Nd p rbclrRed t z sl))"
    using rotate_left_linked [OF s2(2)] by auto
  have "nodes (plug ?gs (Nd p rbclrRed t z sl)) = ns" using assms(3) sib by (simp add: nodes_plug)
  then have "ended fs p cp ns (tail_left (rt t) (rt sl) s3)"
    using tail_left_ended [OF s3(2) assms(2)] by (blast intro: ended_red)
  moreover have "is_red q s = Some True" using linked_is_red [OF L] by simp
  ultimately show ?thesis
    using child_parent(1) [OF assms(1,2)] linked_node(4) [OF assms(1)] child_parent(1) [OF s3(2) assms(2)]
      linked_node(4) [OF s3(2)] s1(1) s2(1) s3(1) sib
    by (simp add: fixup_left_tail del: plug.simps)
qed

text \<open>The same for a right child.\<close>

lemma tail_right_Tip:
  assumes "linked s (plug fs (Nd p cp Tip z t))" "t \<noteq> Tip" "nodes (plug fs (Nd p cp Tip z t)) = ns"
  shows "ended fs p cp ns (tail_right (rt t) NULL s)"
  using parent_ended [OF assms(1,3)] child_parent(2) [OF assms(1,2)] by (simp add: tail_right_def)

lemma tail_right_black:
  assumes "linked s (plug fs (Nd p cp (Nd q cq sl y sr) z t))" "t \<noteq> Tip"
    "nodes (plug fs (Nd p cp (Nd q cq sl y sr) z t)) = ns" "tcolor sl = rbclrBlack" "tcolor sr = rbclrBlack"
  shows "ended fs p cp ns (tail_right (rt t) q s)"
proof -
  have L: "linked s (plug (InL p cp z t # fs) (Nd q cq sl y sr))" using assms(1) by simp
  obtain s' where s': "set_color q rbclrRed s = Some s'"
    "linked s' (plug fs (Nd p cp (Nd q rbclrRed sl y sr) z t))"
    using set_color_linked [OF L, of rbclrRed] by auto
  have "nodes (plug fs (Nd p cp (Nd q rbclrRed sl y sr) z t)) = ns"
    using assms(3) by (simp add: nodes_plug)
  then show ?thesis
    using parent_ended [OF s'(2)] child_parent(2) [OF assms(1,2)] linked_node [OF L] sibling_colors [OF L] assms(4,5) s'(1)
    by (simp add: tail_right_def)
qed

lemma tail_right_red:
  assumes "linked s (plug fs (Nd p cp (Nd q cq sl y sr) z t))" "t \<noteq> Tip"
    "nodes (plug fs (Nd p cp (Nd q cq sl y sr) z t)) = ns" "tcolor sl = rbclrRed"
  shows "ended fs p cp ns (tail_right (rt t) q s)"
proof -
  have L: "linked s (plug (InL p cp z t # fs) (Nd q cq sl y sr))" using assms(1) by simp
  have "sl \<noteq> Tip" using assms(4) by auto
  then obtain s1 where s1: "set_color (rt sl) rbclrBlack s = Some s1"
    "linked s1 (plug fs (Nd p cp (Nd q cq (paint rbclrBlack sl) y sr) z t))"
    using set_color_paint [of s "InL q cq y sr # InL p cp z t # fs" sl rbclrBlack] L by auto
  obtain s2 where s2: "rbtree_rotate_right p s1 = Some s2"
    "linked s2 (plug (InR q cq (paint rbclrBlack sl) y # fs) (Nd p cp sr z t))"
    using rotate_right_linked [OF s1(2)] by auto
  have "nodes (plug (InR q cq (paint rbclrBlack sl) y # fs) (Nd p cp sr z t)) = ns"
    using assms(3) by (simp add: nodes_plug)
  then show ?thesis
    using grandparent_ended [OF s2(2), of ns fs p cp] child_parent(2) [OF s2(2) assms(2)] child_parent(2) [OF assms(1,2)]
      linked_node [OF L] sibling_colors [OF L] assms(4) s1(1) s2(1)
    by (simp add: tail_right_def del: plug.simps)
qed

lemma tail_right_right:
  assumes "linked s (plug fs (Nd p cp (Nd q cq sl y sr) z t))" "t \<noteq> Tip"
    "nodes (plug fs (Nd p cp (Nd q cq sl y sr) z t)) = ns" "tcolor sl = rbclrBlack" "tcolor sr = rbclrRed"
  shows "ended fs p cp ns (tail_right (rt t) q s)"
proof -
  have L: "linked s (plug (InL p cp z t # fs) (Nd q cq sl y sr))" using assms(1) by simp
  obtain m ml w mr where sr: "sr = Nd m rbclrRed ml w mr" using assms(5) by (cases sr) auto
  obtain s1 where s1: "rbtree_rotate_left q s = Some s1"
    "linked s1 (plug fs (Nd p cp (Nd m rbclrRed (Nd q cq sl y ml) w mr) z t))"
    using rotate_left_linked [OF L [unfolded sr]] by auto
  then have M: "linked s1 (plug (InL p cp z t # fs) (Nd m rbclrRed (Nd q cq sl y ml) w mr))" by simp
  obtain s2 where s2: "rbtree_rotate_right m s1 = Some s2"
    "linked s2 (plug fs (Nd p cp (Nd q cq sl y sr) z t))"
    using rotate_right_linked [OF M] sr by auto
  have "get_left p s1 = Some m" using linked_node(5) [OF s1(2)] by simp
  then show ?thesis
    using grandparent_ended [OF s2(2) assms(3), of fs p cp] child_parent(2) [OF s2(2) assms(2)]
      child_parent(2) [OF s1(2) assms(2)] child_parent(2) [OF assms(1,2)]
      linked_node [OF L] sibling_colors [OF L] assms(4,5) s1(1) s2(1)
    by (simp add: tail_right_def)
qed

lemma tail_right_ended:
  assumes "linked s (plug fs (Nd p cp sib z t))" "t \<noteq> Tip" "nodes (plug fs (Nd p cp sib z t)) = ns"
  shows "ended fs p cp ns (tail_right (rt t) (rt sib) s)"
proof (cases sib)
  case Tip
  then show ?thesis using tail_right_Tip assms by simp
next
  case (Nd q cq sl y sr)
  then show ?thesis
    using tail_right_black [of s fs p cp q cq sl y sr z t ns] tail_right_red [of s fs p cp q cq sl y sr z t ns]
      tail_right_right [of s fs p cp q cq sl y sr z t ns] assms
    by (cases "tcolor sl"; cases "tcolor sr") simp_all
qed

lemma fixup_right_ended:
  assumes "linked s (plug fs (Nd p cp sib z t))" "t \<noteq> Tip" "nodes (plug fs (Nd p cp sib z t)) = ns"
  shows "ended fs p cp ns (rbtree_remove_fixup_right (rt t) s)"
proof (cases "tcolor sib")
  case rbclrBlack
  then have "is_red (rt sib) s = Some False"
    using linked_is_red [of s "InL p cp z t # fs" sib] assms(1) by simp
  then show ?thesis
    using tail_right_ended [OF assms] child_parent(2) [OF assms(1,2)] linked_node(5) [OF assms(1)]
    by (simp add: fixup_right_tail)
next
  case rbclrRed
  then obtain q sl y sr where sib: "sib = Nd q rbclrRed sl y sr" by (cases sib) auto
  have L: "linked s (plug (InL p cp z t # fs) (Nd q rbclrRed sl y sr))" using assms(1) sib by simp
  obtain s1 where s1: "set_color q rbclrBlack s = Some s1"
    "linked s1 (plug fs (Nd p cp (Nd q rbclrBlack sl y sr) z t))"
    using set_color_linked [OF L, of rbclrBlack] by auto
  obtain s2 where s2: "set_color p rbclrRed s1 = Some s2"
    "linked s2 (plug fs (Nd p rbclrRed (Nd q rbclrBlack sl y sr) z t))"
    using set_color_linked [OF s1(2), of rbclrRed] by auto
  let ?gs = "InR q rbclrBlack sl y # fs"
  obtain s3 where s3: "rbtree_rotate_right p s2 = Some s3" "linked s3 (plug ?gs (Nd p rbclrRed sr z t))"
    using rotate_right_linked [OF s2(2)] by auto
  have "nodes (plug ?gs (Nd p rbclrRed sr z t)) = ns" using assms(3) sib by (simp add: nodes_plug)
  then have "ended fs p cp ns (tail_right (rt t) (rt sr) s3)"
    using tail_right_ended [OF s3(2) assms(2)] by (blast intro: ended_red)
  moreover have "is_red q s = Some True" using linked_is_red [OF L] by simp
  ultimately show ?thesis
    using child_parent(2) [OF assms(1,2)] linked_node(5) [OF assms(1)] child_parent(2) [OF s3(2) assms(2)]
      linked_node(5) [OF s3(2)] s1(1) s2(1) s3(1) sib
    by (simp add: fixup_right_tail del: plug.simps)
qed

subsection \<open>The loop\<close>

text \<open>
  The loop ends at a position of a tree with the same nodes: at the root, or at a red node below
  a black root.
\<close>

definition settled :: "(ptr \<times> 'a) list \<Rightarrow> (ptr \<times> 'a rbstate) option \<Rightarrow> bool" where
  "settled ns res \<longleftrightarrow>
     (\<exists>s' fs t. res = Some (rt t, s') \<and> linked s' (plug fs t) \<and> t \<noteq> Tip \<and> nodes (plug fs t) = ns \<and> top_black fs)"

lemma remove_loop_root: "rbtree_remove_fixup_loop (root s) s = Some (root s, s)"
  by (simp add: rbtree_remove_fixup_loop.simps)

lemma settled_root:
  assumes "linked s T" "nodes T = ns" "T \<noteq> Tip"
  shows "settled ns (rbtree_remove_fixup_loop (root s) s)"
  unfolding remove_loop_root settled_def using assms
  by (intro exI [of _ s] exI [of _ "[]"] exI [of _ T]) (simp add: linked_def)

lemma settled_step:
  assumes "ended fs p c ns res" "ns \<noteq> []"
    "\<And>s t. linked s (plug fs t) \<Longrightarrow> t \<noteq> Tip \<Longrightarrow> nodes (plug fs t) = ns \<Longrightarrow>
       settled ns (rbtree_remove_fixup_loop (rt t) s)"
  shows "settled ns (res \<bind> (\<lambda>(q, s). rbtree_remove_fixup_loop q s))"
  using assms(1) unfolding ended_def
proof (elim disjE conjE exE)
  fix s' T
  assume "res = Some (root s', s')" "linked s' T" "nodes T = ns"
  then show ?thesis using settled_root [of s' T ns] assms(2) by auto
next
  fix s' t
  assume "res = Some (p, s')" "linked s' (plug fs t)" "t \<noteq> Tip" "rt t = p" "nodes (plug fs t) = ns"
  then show ?thesis using assms(3) [of s' t] by auto
qed

lemma remove_loop_settled:
  assumes "linked s (plug fs t)" "t \<noteq> Tip" "top_black fs" "nodes (plug fs t) = ns"
  shows "settled ns (rbtree_remove_fixup_loop (rt t) s)"
  using assms
proof (induction fs arbitrary: s t)
  case Nil
  then show ?case using settled_root [of s t ns] by (simp add: linked_def)
next
  case (Cons f fs)
  have "ns \<noteq> []" using Cons.prems(2,4) plug_eq_Tip nodes_eq_Nil by metis
  then have step: "settled ns (res \<bind> (\<lambda>(q, s). rbtree_remove_fixup_loop q s))"
    if "ended fs p c ns res" for p c res
    using settled_step [OF that] Cons.IH top_black_tl [OF Cons.prems(3)] by blast
  show ?case
  proof (cases "rt t = root s \<or> tcolor t = rbclrRed")
    case True
    then have "rbtree_remove_fixup_loop (rt t) s = Some (rt t, s)"
      using linked_node(2) [of s "f # fs"] Cons.prems(1,2)
      by (subst rbtree_remove_fixup_loop.simps) (cases t; auto)
    then show ?thesis
      using Cons.prems unfolding settled_def by blast
  next
    case False
    then have b: "rt t \<noteq> root s" "get_color (rt t) s = Some rbclrBlack"
      using linked_node(2) [of s "f # fs"] Cons.prems(1,2) by (cases t; simp)+
    show ?thesis
    proof (cases f)
      case (InL p cp z sib)
      have L: "linked s (plug fs (Nd p cp t z sib))" using Cons.prems(1) InL by simp
      show ?thesis
        using step [OF fixup_left_ended [OF L Cons.prems(2)]] Cons.prems(4) InL b
          child_parent(1) [OF L Cons.prems(2)] linked_node(5) [OF L]
        by (subst rbtree_remove_fixup_loop.simps) simp
    next
      case (InR p cp sib z)
      have L: "linked s (plug fs (Nd p cp sib z t))" using Cons.prems(1) InR by simp
      then have "rt sib \<noteq> rt t" using Cons.prems(2) by (cases sib; cases t) (auto simp: linked_def dist_plug)
      then show ?thesis
        using step [OF fixup_right_ended [OF L Cons.prems(2)]] Cons.prems(4) InR b
          child_parent(2) [OF L Cons.prems(2)] linked_node(5) [OF L]
        by (subst rbtree_remove_fixup_loop.simps) simp
    qed
  qed
qed

lemma remove_fixup_linked:
  assumes "linked s (plug fs t)" "t \<noteq> Tip" "top_black fs"
  shows "\<exists>s' T. rbtree_remove_fixup (rt t) s = Some s' \<and> linked s' T \<and> nodes T = nodes (plug fs t) \<and>
    tcolor T = rbclrBlack"
proof -
  obtain s1 gs u where s1: "rbtree_remove_fixup_loop (rt t) s = Some (rt u, s1)" "linked s1 (plug gs u)" "u \<noteq> Tip"
    "nodes (plug gs u) = nodes (plug fs t)" "top_black gs"
    using remove_loop_settled [OF assms refl] unfolding settled_def by blast
  moreover obtain s2 where "set_color (rt u) rbclrBlack s1 = Some s2" "linked s2 (plug gs (paint rbclrBlack u))"
    using set_color_paint [OF s1(2,3)] by blast
  moreover have "tcolor (plug gs (paint rbclrBlack u)) = rbclrBlack"
    using s1(5) by (auto simp: tcolor_plug top_black_def)
  ultimately show ?thesis
    by (intro exI [of _ s2] exI [of _ "plug gs (paint rbclrBlack u)"])
      (simp add: rbtree_remove_fixup_def nodes_plug)
qed

text \<open>The set of allocated nodes stays as it is.\<close>

lemma keeps_fixup_left: "updp_ok s (rbtree_remove_fixup_left p s)" "updp_ok s (rbtree_remove_fixup_right p s)"
  unfolding rbtree_remove_fixup_left_def rbtree_remove_fixup_right_def
  by (intro updp_ok_rules | assumption)+

lemma keeps_remove_loop:
  assumes "rbtree_remove_fixup_loop p s = Some (q, s')"
  shows "keeps s s'"
proof -
  have "\<forall>q s'. (q, s') = r \<longrightarrow> keeps s s'" if "rbtree_remove_fixup_loop p s = Some r" for r
  proof (rule rbtree_remove_fixup_loop.raw_induct
      [of "\<lambda>p s r. \<forall>q s'. (q, s') = r \<longrightarrow> keeps s s'", OF _ that], goal_cases)
    case (1 f p s r)
    have "updp_ok s (f q s')" if "keeps s s'" for q s'
      using 1(1) keeps_trans [OF that] unfolding updp_ok_def by blast
    then have "updp_ok s (if p = root s then Some (p, s)
       else get_color p s \<bind> (\<lambda>c. if c \<noteq> rbclrBlack then Some (p, s)
         else get_parent p s \<bind> (\<lambda>pa. get_left pa s \<bind>
           (\<lambda>pl. (if p = pl then rbtree_remove_fixup_left p s else rbtree_remove_fixup_right p s) \<bind>
              (\<lambda>(q, s). f q s)))))"
      by (intro updp_ok_rules keeps_fixup_left | assumption)+
    then show ?case using 1(2) unfolding updp_ok_def by auto
  qed
  then show ?thesis using assms by blast
qed

lemma keeps_remove_fixup: "rbtree_remove_fixup p s = Some s' \<Longrightarrow> keeps s s'"
  by (auto simp: rbtree_remove_fixup_def bind_eq_Some_conv dest!: keeps_remove_loop keeps_set(2) intro: keeps_trans)

end
