(* ===== verification/RB_Splice.thy ===== *)
theory RB_Splice
  imports RB_Fixup
begin

section \<open>Taking a node out of a tree\<close>

text \<open>
  The two parts of \<open>rbtree_remove_at\<close>: a node of two children changes places with its successor,
  and a node of at most one child is replaced by that child.
\<close>

subsection \<open>Replacing a node by its only child\<close>

lemma unlink_linked:
  assumes "linked s (plug fs (Nd a c l x r))" "l = Tip \<or> r = Tip" "u = (if l \<noteq> Tip then l else r)"
  shows "\<exists>s1 s2. (if rt u \<noteq> NULL then set_parent (rt u) (up fs) s else Some s) = Some s1 \<and>
    (if up fs = NULL then Some (s1\<lparr>root := rt u\<rparr>)
     else do {
       npl \<leftarrow> get_left (up fs) s1;
       if a = npl then set_left (up fs) (rt u) s1 else set_right (up fs) (rt u) s1
     }) = Some s2 \<and>
    linked s2 (plug fs u) \<and> keeps s s2 \<and> get_color a s2 = Some c"
  using assms
  by (cases fs rule: up.cases; cases u)
    (auto simp: linked_def heap_simps keeps_def same_env_def split: if_splits)

lemma linked_upd: "linked s T \<Longrightarrow> a \<notin> aset T \<Longrightarrow> linked (s\<lparr>cells := (cells s)(a := v)\<rparr>) T"
  by (simp add: linked_def)

lemma discard_linked:
  assumes "linked s T" "a \<notin> aset T" "a \<in> dom (cells s)" "a \<noteq> NULL"
  shows "\<exists>s'. (do { s \<leftarrow> set_left a NULL s; s \<leftarrow> set_right a NULL s; s \<leftarrow> free_node a s;
      Some (s\<lparr>tree_size := tree_size s - 1\<rparr>) }) = Some s' \<and> linked s' T \<and>
    dom (cells s') = dom (cells s) - {a} \<and> tree_size s' = tree_size s - 1 \<and>
    keycmp s' = keycmp s \<and> brk s' = brk s \<and> limit s' = limit s"
  using assms by (auto simp: field_defs free_node_def linked_def)

lemma repair_linked:
  assumes "linked s (plug fs u)" "top_black fs" "fs = [] \<Longrightarrow> c = rbclrBlack"
  shows "\<exists>s' T. (if c = rbclrBlack \<and> rt u \<noteq> NULL then rbtree_remove_fixup (rt u) s else Some s) = Some s' \<and>
    linked s' T \<and> nodes T = nodes (plug fs u) \<and> tcolor T = rbclrBlack \<and> keeps s s'"
proof (cases "c = rbclrBlack \<and> u \<noteq> Tip")
  case True
  then obtain s' T where "rbtree_remove_fixup (rt u) s = Some s'" "linked s' T" "nodes T = nodes (plug fs u)"
    "tcolor T = rbclrBlack"
    using remove_fixup_linked [OF assms(1) _ assms(2)] by blast
  then show ?thesis
    using True keeps_remove_fixup rt_NULL_linked [OF assms(1)] by (intro exI [of _ s'] exI [of _ T]) simp
next
  case False
  then have "tcolor (plug fs u) = rbclrBlack"
    using assms(2,3) by (auto simp: tcolor_plug top_black_def)
  then show ?thesis
    using False assms(1) rt_NULL_linked [OF assms(1)] by (intro exI [of _ s] exI [of _ "plug fs u"]) auto
qed

lemma splice_linked:
  assumes "linked s (plug fs (Nd a c l x r))" "l = Tip \<or> r = Tip" "u = (if l \<noteq> Tip then l else r)"
    "tcolor (plug fs (Nd a c l x r)) = rbclrBlack"
  shows "\<exists>s' T. rbtree_splice_out a s = Some s' \<and> linked s' T \<and> nodes T = nodes (plug fs u) \<and>
    tcolor T = rbclrBlack \<and> dom (cells s') = dom (cells s) - {a} \<and> tree_size s' = tree_size s - 1 \<and>
    keycmp s' = keycmp s \<and> brk s' = brk s \<and> limit s' = limit s"
proof -
  note node = linked_node [OF assms(1)]
  have child: "(if rt l \<noteq> NULL then Some (rt l) else get_right a s) = Some (rt u)"
    using assms(1,3) node(4) by (auto simp: linked_def dist_plug rt_eq_NULL)
  obtain s1 s2 where s2: "(if rt u \<noteq> NULL then set_parent (rt u) (up fs) s else Some s) = Some s1"
    "(if up fs = NULL then Some (s1\<lparr>root := rt u\<rparr>)
     else do {
       npl \<leftarrow> get_left (up fs) s1;
       if a = npl then set_left (up fs) (rt u) s1 else set_right (up fs) (rt u) s1
     }) = Some s2" "linked s2 (plug fs u)" "keeps s s2" "get_color a s2 = Some c"
    using unlink_linked [OF assms(1-3)] by blast
  have top: "top_black fs" using assms(4) by (auto simp: top_black_def tcolor_plug split: if_splits)
  have a: "a \<notin> aset (plug fs u)" "a \<in> dom (cells s)"
    using assms(1,3) by (auto simp: linked_def heap_simps)
  have root: "fs = [] \<Longrightarrow> c = rbclrBlack" using assms(4) by simp
  obtain s3 T where s3: "(if c = rbclrBlack \<and> rt u \<noteq> NULL then rbtree_remove_fixup (rt u) s2 else Some s2) = Some s3"
    "linked s3 T" "nodes T = nodes (plug fs u)" "tcolor T = rbclrBlack" "keeps s2 s3"
    using repair_linked [OF s2(3) top root] by blast
  have "a \<notin> aset T" using a(1) s3(3) by (simp add: aset_nodes)
  moreover have "a \<in> dom (cells s3)" using a(2) s2(4) s3(5) by (simp add: keeps_def)
  ultimately obtain s' where s': "(do { s \<leftarrow> set_left a NULL s3; s \<leftarrow> set_right a NULL s; s \<leftarrow> free_node a s;
      Some (s\<lparr>tree_size := tree_size s - 1\<rparr>) }) = Some s'" "linked s' T"
    "dom (cells s') = dom (cells s3) - {a}" "tree_size s' = tree_size s3 - 1"
    "keycmp s' = keycmp s3" "brk s' = brk s3" "limit s' = limit s3"
    using discard_linked [OF s3(2)] node(6) by blast
  have "rbtree_splice_out a s = Some s'"
    unfolding rbtree_splice_out_def by (simp only: node(3,5) child s2(1,2,5) s3(1) s'(1) bind.bind_lunit)
  then show ?thesis using s' s2(4) s3(3-5) by (auto simp: keeps_def same_env_def)
qed

subsection \<open>Changing places with the successor\<close>

lemma plug_append: "plug (gs @ fs) t = plug fs (plug gs t)"
  by (induction gs t rule: plug.induct) auto

lemma swap_immediate:
  assumes "linked s (plug fs (Nd a c l x (Nd b cb Tip y br)))" "l \<noteq> Tip"
  shows "\<exists>s'. rbtree_swap_succ a s = Some s' \<and> linked s' (plug fs (Nd b c l y (Nd a cb Tip x br)))"
proof -
  have "rbnode_minimum b s = Some b"
    using minimum_linked [of s "InR a c l x # fs" "Nd b cb Tip y br"] assms(1) by simp
  moreover have "get_right a s = Some b" using linked_node(4) [OF assms(1)] by simp
  ultimately show ?thesis
    using assms unfolding linked_def heap_simps
    by (cases fs rule: up.cases; cases l; cases br; clarsimp)
      (simp_all add: rbtree_swap_succ_def heap_simps Let_def)
qed

lemma swap_child:
  assumes "linked s (plug fs (Nd a c l x (Nd p cp (Nd b cb Tip y br) z pr)))" "l \<noteq> Tip"
  shows "\<exists>s'. rbtree_swap_succ a s = Some s' \<and>
    linked s' (plug fs (Nd b c l y (Nd p cp (Nd a cb Tip x br) z pr)))"
proof -
  have "rbnode_minimum p s = Some b"
    using minimum_linked [of s "InR a c l x # fs" "Nd p cp (Nd b cb Tip y br) z pr"] assms(1) by simp
  then show ?thesis
    using assms unfolding linked_def heap_simps
    by (cases fs rule: up.cases; cases l; cases br; clarsimp)
      (simp_all add: rbtree_swap_succ_def heap_simps Let_def)
qed

text \<open>A context inside a tree: its topmost node has the parent \<open>q\<close>.\<close>

fun ctx_in :: "(ptr \<rightharpoonup> 'a red_black_node) \<Rightarrow> ptr \<Rightarrow> ptr \<Rightarrow> 'a frame list \<Rightarrow> bool" where
  "ctx_in h q p [] \<longleftrightarrow> True"
| "ctx_in h q p (InL a c x r # fs) \<longleftrightarrow>
     h a = Some \<lparr>object = x, color = c, parent = (if fs = [] then q else up fs), right = rt r, left = p\<rparr> \<and>
     tree_at h a r \<and> ctx_in h q a fs"
| "ctx_in h q p (InR a c l x # fs) \<longleftrightarrow>
     h a = Some \<lparr>object = x, color = c, parent = (if fs = [] then q else up fs), right = p, left = rt l\<rparr> \<and>
     tree_at h a l \<and> ctx_in h q a fs"

lemma tree_at_plug_in:
  "tree_at h q (plug fs t) \<longleftrightarrow> tree_at h (if fs = [] then q else up fs) t \<and> ctx_in h q (rt t) fs"
  by (induction fs t rule: plug.induct) auto

lemma ctx_in_upd [simp]: "a \<notin> faset fs \<Longrightarrow> ctx_in (h(a := v)) q p fs = ctx_in h q p fs"
  by (induction fs arbitrary: p rule: faset.induct) auto

lemma before_left: "\<forall>f \<in> set fs. \<exists>a c x r. f = InL a c x r \<Longrightarrow> before fs = []"
  by (induction fs rule: before.induct) auto

lemma swap_deep:
  assumes "linked s (plug fs (Nd a c l x (Nd q cq (plug ms (Nd p cp (Nd b cb Tip y br) z pr)) w qr)))" "l \<noteq> Tip"
    "\<forall>f \<in> set ms. \<exists>a c x r. f = InL a c x r"
  shows "\<exists>s'. rbtree_swap_succ a s = Some s' \<and>
    linked s' (plug fs (Nd b c l y (Nd q cq (plug ms (Nd p cp (Nd a cb Tip x br) z pr)) w qr)))"
proof -
  let ?r = "\<lambda>t. Nd q cq (plug ms (Nd p cp t z pr)) w qr"
  have "rbnode_minimum q s = Some b"
    using minimum_linked [of s "InR a c l x # fs" "?r (Nd b cb Tip y br)"] assms(1,3)
    by (simp add: nodes_plug before_left)
  then show ?thesis
    using assms(1,2) unfolding linked_def heap_simps
    by (cases fs rule: up.cases; cases l; cases br; clarsimp simp: tree_at_plug_in [of _ q] plug_simps)
      (simp_all add: rbtree_swap_succ_def heap_simps Let_def tree_at_plug_in [of _ q])
qed

lemma leftmost:
  "r \<noteq> Tip \<Longrightarrow> \<exists>gs b cb y br. r = plug gs (Nd b cb Tip y br) \<and> (\<forall>f \<in> set gs. \<exists>a c x r. f = InL a c x r)"
proof (induction r)
  case (Nd a c l x r)
  show ?case
  proof (cases "l = Tip")
    case True
    then show ?thesis by (intro exI [of _ "[]"]) auto
  next
    case False
    then obtain gs b cb y br where "l = plug gs (Nd b cb Tip y br)" "\<forall>f \<in> set gs. \<exists>a c x r. f = InL a c x r"
      using Nd.IH(1) by blast
    then show ?thesis by (intro exI [of _ "gs @ [InL a c x r]"] exI) (auto simp: plug_append)
  qed
qed simp

lemma swap_linked:
  assumes "linked s (plug fs (Nd a c l x r))" "l \<noteq> Tip" "r \<noteq> Tip"
  shows "\<exists>gs b cb y br s'. r = plug gs (Nd b cb Tip y br) \<and> before gs = [] \<and> rbtree_swap_succ a s = Some s' \<and>
    linked s' (plug (gs @ InR b c l y # fs) (Nd a cb Tip x br))"
proof -
  obtain gs b cb y br where r: "r = plug gs (Nd b cb Tip y br)" "\<forall>f \<in> set gs. \<exists>a c x r. f = InL a c x r"
    using leftmost [OF assms(3)] by blast
  have s': "\<exists>s'. rbtree_swap_succ a s = Some s' \<and> linked s' (plug fs (Nd b c l y (plug gs (Nd a cb Tip x br))))"
  proof (cases gs)
    case Nil
    then show ?thesis using swap_immediate [of s fs a c l x b cb y br] assms r by simp
  next
    case (Cons f ms)
    then obtain p cp z pr where f: "f = InL p cp z pr" using r(2) by auto
    show ?thesis
    proof (cases ms rule: rev_exhaust)
      case Nil
      then show ?thesis using swap_child [of s fs a c l x p cp b cb y br z pr] assms r Cons f by simp
    next
      case (snoc ms' g)
      moreover then obtain q cq w qr where "g = InL q cq w qr" using r(2) Cons by auto
      ultimately show ?thesis
        using swap_deep [of s fs a c l x q cq ms' p cp b cb y br z pr w qr] assms r Cons f
        by (simp add: plug_append)
    qed
  qed
  show ?thesis
    using s' r(1) before_left [OF r(2)]
    by (intro exI [of _ gs] exI [of _ b] exI [of _ cb] exI [of _ y] exI [of _ br]) (auto simp: plug_append)
qed

lemma keeps_swap: "rbtree_swap_succ a s = Some s' \<Longrightarrow> keeps s s'"
proof (erule upd_okD [rotated])
  show "upd_ok s (rbtree_swap_succ a s)"
    unfolding rbtree_swap_succ_def Let_def by (intro updp_ok_rules | assumption)+
qed

subsection \<open>Removing a node\<close>

lemma holds_shrunk:
  assumes "holds s t" "nodes t = ns @ (a, x) # ns'" "linked s' T" "nodes T = ns @ ns'" "tcolor T = rbclrBlack"
    "dom (cells s') = dom (cells s) - {a}" "tree_size s' = tree_size s - 1" "brk s' = brk s" "limit s' = limit s"
  shows "holds s' T"
proof -
  have "dist t" "dom (cells s) = aset t" using assms(1) by (simp_all add: holds_def shape_def)
  then have "aset T = aset t - {a}"
    using assms(2,4) by (auto simp: aset_nodes dist_nodes)
  then show ?thesis
    using assms \<open>dom (cells s) = aset t\<close> by (auto simp: holds_def shape_linked heap_ok_def)
qed

lemma remove_at_linked:
  assumes "linked s (plug fs (Nd a c l x r))" "tcolor (plug fs (Nd a c l x r)) = rbclrBlack" "tree_size s \<noteq> 1"
  shows "\<exists>s' T. rbtree_remove_at a s = Some s' \<and> linked s' T \<and>
    nodes T = before fs @ nodes l @ nodes r @ after fs \<and>
    tcolor T = rbclrBlack \<and> dom (cells s') = dom (cells s) - {a} \<and> tree_size s' = tree_size s - 1 \<and>
    keycmp s' = keycmp s \<and> brk s' = brk s \<and> limit s' = limit s"
proof (cases "l \<noteq> Tip \<and> r \<noteq> Tip")
  case True
  then obtain gs b cb y br s1 where sw: "r = plug gs (Nd b cb Tip y br)" "before gs = []" "rbtree_swap_succ a s = Some s1"
    "linked s1 (plug (gs @ InR b c l y # fs) (Nd a cb Tip x br))"
    using swap_linked [OF assms(1)] by blast
  have "tcolor (plug (gs @ InR b c l y # fs) (Nd a cb Tip x br)) = rbclrBlack"
    using assms(2) by (auto simp: tcolor_plug last_append split: if_splits)
  moreover have "nodes (plug (gs @ InR b c l y # fs) br) = before fs @ nodes l @ nodes r @ after fs"
    using sw(1,2) by (simp add: plug_append nodes_plug)
  ultimately show ?thesis
    using splice_linked [OF sw(4), of br] keeps_swap [OF sw(3)] True assms(3) linked_node [OF assms(1)] sw(3)
      rt_NULL_linked [of s "InL a c x r # fs" l] rt_NULL_linked [of s "InR a c l x # fs" r] assms(1)
    by (auto simp: rbtree_remove_at_def keeps_def same_env_def)
next
  case False
  then have "nodes (plug fs (if l \<noteq> Tip then l else r)) = before fs @ nodes l @ nodes r @ after fs"
    by (auto simp: nodes_plug)
  then show ?thesis
    using splice_linked [OF assms(1) _ refl assms(2)] False assms(3) linked_node [OF assms(1)]
      rt_NULL_linked [of s "InL a c x r # fs" l] rt_NULL_linked [of s "InR a c l x # fs" r] assms(1)
    by (auto simp: rbtree_remove_at_def)
qed

lemma remove_single:
  assumes "holds s (Nd a c Tip x Tip)"
  shows "\<exists>s'. rbtree_remove_at a s = Some s' \<and> holds s' Tip \<and> keycmp s' = keycmp s \<and>
    brk s' = brk s \<and> limit s' = limit s"
proof -
  have "cells s |` (- {a}) = Map.empty"
    using assms by (auto simp: holds_def shape_def restrict_map_def fun_eq_iff)
  then show ?thesis
    using destruct_tree [of s NULL "Nd a c Tip x Tip"] assms
    by (auto simp: holds_def shape_def heap_ok_def rbtree_remove_at_def)
qed

lemma remove_at_holds:
  assumes "holds s t" "nodes t = ns @ (a, x) # ns'"
  shows "\<exists>s' t'. rbtree_remove_at a s = Some s' \<and> holds s' t' \<and> nodes t' = ns @ ns' \<and>
    keycmp s' = keycmp s \<and> brk s' = brk s \<and> limit s' = limit s"
proof -
  have "dist t" "tcolor t = rbclrBlack" using assms(1) by (simp_all add: holds_def shape_def)
  then obtain fs c l r where t: "t = plug fs (Nd a c l x r)" "ns = before fs @ nodes l" "ns' = nodes r @ after fs"
    using nodes_position [OF assms(2)] by blast
  show ?thesis
  proof (cases "tree_size s = 1")
    case True
    then have "length (nodes t) = 1" using holds_size [OF assms(1)] by simp
    then have "nodes t = [(a, x)]" "ns = []" "ns' = []" using assms(2) by auto
    then have "t = Nd a c Tip x Tip" using t by (cases fs rule: up.cases) (auto simp: nodes_plug)
    then show ?thesis using remove_single [of s a c x] assms(1) \<open>ns = []\<close> \<open>ns' = []\<close> by (auto intro!: exI [of _ Tip])
  next
    case False
    then obtain s' T where "rbtree_remove_at a s = Some s'" "linked s' T" "nodes T = ns @ ns'"
      "tcolor T = rbclrBlack" "dom (cells s') = dom (cells s) - {a}" "tree_size s' = tree_size s - 1"
      "keycmp s' = keycmp s" "brk s' = brk s" "limit s' = limit s"
      using remove_at_linked [of s fs a c l x r] holds_linked [OF assms(1)] t \<open>tcolor t = rbclrBlack\<close> by auto
    then show ?thesis using holds_shrunk [OF assms] by blast
  qed
qed

end
