(* ===== verification/RB_Order.thy ===== *)
theory RB_Order
  imports RB_Query
begin

section \<open>Trees ordered by their comparison function\<close>

text \<open>
  The contract of the \<open>keycmp\<close> callback the container relies on, as a locale, and what the
  container then promises: insertion at the right place of the sequence, search that finds
  a key exactly when it is there, and unique insertion that keeps the keys distinct.  The
  code goes left when the new object compares greater, so the sequence of a tree descends.
\<close>

definition descending :: "('a \<Rightarrow> 'a \<Rightarrow> int) \<Rightarrow> 'a list \<Rightarrow> bool" where
  "descending cmp xs \<longleftrightarrow> sorted_wrt (\<lambda>x y. cmp x y \<ge> 0) xs"

definition strictly :: "('a \<Rightarrow> 'a \<Rightarrow> int) \<Rightarrow> 'a list \<Rightarrow> bool" where
  "strictly cmp xs \<longleftrightarrow> sorted_wrt (\<lambda>x y. cmp x y > 0) xs"

text \<open>The sequence after an insertion of \<open>k\<close>: behind everything that is not smaller.\<close>

definition put :: "('a \<Rightarrow> 'a \<Rightarrow> int) \<Rightarrow> 'a \<Rightarrow> 'a list \<Rightarrow> 'a list" where
  "put cmp k xs = takeWhile (\<lambda>x. \<not> cmp k x > 0) xs @ k # dropWhile (\<lambda>x. \<not> cmp k x > 0) xs"

lemma sorted_wrt_put:
  "sorted_wrt R (xs @ ys) \<Longrightarrow> (\<And>x. x \<in> set xs \<Longrightarrow> R x k) \<Longrightarrow> (\<And>y. y \<in> set ys \<Longrightarrow> R k y) \<Longrightarrow>
    sorted_wrt R (xs @ k # ys)"
  by (simp add: sorted_wrt_append)

lemma sgn_pos_mono: "sgn (a :: int) \<le> sgn b \<Longrightarrow> a > 0 \<Longrightarrow> b > 0"
  by (auto simp: sgn_if split: if_splits)

locale keycmp_order =
  fixes cmp :: "'a \<Rightarrow> 'a \<Rightarrow> int"
  assumes cmp_sgn: "sgn (cmp y x) = - sgn (cmp x y)"
    and cmp_trans: "cmp x y \<ge> 0 \<Longrightarrow> cmp y z \<ge> 0 \<Longrightarrow> cmp x z \<ge> 0"
begin

lemma cmp_flip: "cmp y x \<ge> 0 \<longleftrightarrow> cmp x y \<le> 0" "cmp y x > 0 \<longleftrightarrow> cmp x y < 0" "cmp y x = 0 \<longleftrightarrow> cmp x y = 0"
  using cmp_sgn [of y x] by (auto simp: sgn_if split: if_splits)

lemma cmp_mono: "cmp x y \<ge> 0 \<Longrightarrow> sgn (cmp k x) \<le> sgn (cmp k y)"
  using cmp_trans [of k x y] cmp_trans [of x y k] cmp_flip [of k x] cmp_flip [of k y]
  by (auto simp: sgn_if)

lemma signs_mono: "descending cmp xs \<Longrightarrow> sorted_wrt (\<lambda>x y. sgn (cmp k x) \<le> sgn (cmp k y)) xs"
  unfolding descending_def by (rule sorted_wrt_mono_rel) (rule cmp_mono)

lemma go_mono: "descending cmp xs \<Longrightarrow> sorted_wrt (\<lambda>x y. cmp k x > 0 \<longrightarrow> cmp k y > 0) xs"
  by (drule signs_mono [of _ k], erule sorted_wrt_mono_rel [rotated])
    (metis sgn_pos_mono)

lemma strictly_descending: "strictly cmp xs \<Longrightarrow> descending cmp xs"
  unfolding strictly_def descending_def by (erule sorted_wrt_mono_rel [rotated]) simp

lemma dropWhile_go: "descending cmp xs \<Longrightarrow> x \<in> set (dropWhile (\<lambda>x. \<not> cmp k x > 0) xs) \<Longrightarrow> cmp k x > 0"
proof (induction xs)
  case (Cons y ys)
  then show ?case
    using go_mono [of "y # ys" k] by (auto simp: descending_def split: if_splits)
qed simp

lemma put_descending:
  assumes "descending cmp xs"
  shows "descending cmp (put cmp k xs)"
proof -
  let ?P = "\<lambda>x. \<not> cmp k x > 0"
  have "sorted_wrt (\<lambda>x y. cmp x y \<ge> 0) (takeWhile ?P xs @ dropWhile ?P xs)"
    using assms by (simp add: descending_def)
  moreover have "cmp x k \<ge> 0" if "x \<in> set (takeWhile ?P xs)" for x
    using set_takeWhileD [OF that] cmp_flip(1) [of x k] by simp
  moreover have "cmp k y \<ge> 0" if "y \<in> set (dropWhile ?P xs)" for y
    using dropWhile_go [OF assms that] by simp
  ultimately show ?thesis
    unfolding put_def descending_def by (rule sorted_wrt_put)
qed

lemma put_strictly:
  assumes "strictly cmp xs" "\<forall>x \<in> set xs. cmp k x \<noteq> 0"
  shows "strictly cmp (put cmp k xs)"
proof -
  let ?P = "\<lambda>x. \<not> cmp k x > 0"
  have "sorted_wrt (\<lambda>x y. cmp x y > 0) (takeWhile ?P xs @ dropWhile ?P xs)"
    using assms by (simp add: strictly_def)
  moreover have "cmp x k > 0" if "x \<in> set (takeWhile ?P xs)" for x
  proof -
    have "\<not> cmp k x > 0" "cmp k x \<noteq> 0"
      using set_takeWhileD [OF that] assms(2) by simp_all
    then show ?thesis using cmp_flip(2) [of x k] by linarith
  qed
  moreover have "cmp k y > 0" if "y \<in> set (dropWhile ?P xs)" for y
    using dropWhile_go [OF strictly_descending [OF assms(1)] that] by simp
  ultimately show ?thesis
    unfolding put_def strictly_def by (rule sorted_wrt_put)
qed

text \<open>The container under this contract.\<close>

lemma insert_put:
  assumes "holds s t" "keycmp s = cmp" "descending cmp (objs t)" "brk s < limit s"
  shows "\<exists>s' t'. rbtree_insert k s = Some (brk s, s') \<and> holds s' t' \<and> keycmp s' = cmp \<and>
    objs t' = put cmp k (objs t) \<and> (rbt t \<longrightarrow> rbt t') \<and> limit s' = limit s \<and> brk s' = Suc (brk s)"
proof -
  let ?t = "ins_tree (\<lambda>y. cmp k y > 0) t (new_leaf s k)"
  have "objs ?t = put cmp k (objs t)"
    using go_mono [OF assms(3), of k]
    by (simp add: nodes_ins_tree put_def takeWhile_map dropWhile_map comp_def)
  then show ?thesis
    using insert_holds [OF assms(1,4), of k] rbt_ins_tree [of t] unfolding assms(2) by blast
qed

lemma look_iff:
  assumes "holds s t" "descending cmp (objs t)"
  shows "look (cmp k) t \<noteq> NULL \<longleftrightarrow> (\<exists>x \<in> set (objs t). cmp k x = 0)"
    "look (cmp k) t \<noteq> NULL \<Longrightarrow> \<exists>x. (look (cmp k) t, x) \<in> set (nodes t) \<and> cmp k x = 0"
proof -
  have d: "dist t" using assms(1) by (simp add: holds_def shape_def)
  show "look (cmp k) t \<noteq> NULL \<Longrightarrow> \<exists>x. (look (cmp k) t, x) \<in> set (nodes t) \<and> cmp k x = 0"
    by (rule look_sound [OF d])
  then show "look (cmp k) t \<noteq> NULL \<longleftrightarrow> (\<exists>x \<in> set (objs t). cmp k x = 0)"
    using look_complete [OF d signs_mono [OF assms(2), of k]] by force
qed

lemma find_iff:
  assumes "holds s t" "keycmp s = cmp" "descending cmp (objs t)"
  shows "\<exists>p. rbtree_find k s = Some p \<and> (p \<noteq> NULL \<longleftrightarrow> (\<exists>x \<in> set (objs t). cmp k x = 0)) \<and>
    (p \<noteq> NULL \<longrightarrow> (\<exists>x. (p, x) \<in> set (nodes t) \<and> cmp k x = 0))"
  using find_holds [OF assms(1), of k] look_iff [OF assms(1,3), of k] unfolding assms(2) by blast

lemma insert_unique_put:
  assumes "holds s t" "keycmp s = cmp" "strictly cmp (objs t)" "brk s < limit s"
  shows "\<exists>p b s' t'. rbtree_insert_unique k s = Some (p, b, s') \<and> holds s' t' \<and> keycmp s' = cmp \<and>
    strictly cmp (objs t') \<and> (rbt t \<longrightarrow> rbt t') \<and> (b \<longleftrightarrow> (\<forall>x \<in> set (objs t). cmp k x \<noteq> 0)) \<and>
    (if b then objs t' = put cmp k (objs t) else s' = s \<and> t' = t)"
proof (cases "look (cmp k) t = NULL")
  case True
  then have new: "\<forall>x \<in> set (objs t). cmp k x \<noteq> 0"
    using look_iff(1) [OF assms(1) strictly_descending [OF assms(3)], of k] by blast
  obtain s' t' where "rbtree_insert k s = Some (brk s, s')" "holds s' t'" "keycmp s' = cmp"
    "objs t' = put cmp k (objs t)" "rbt t \<longrightarrow> rbt t'"
    using insert_put [OF assms(1,2) strictly_descending [OF assms(3)] assms(4)] by blast
  then have "rbtree_insert_unique k s = Some (brk s, True, s')"
    using insert_unique_holds [OF assms(1), of k] True assms(2) by simp
  moreover have "strictly cmp (objs t')"
    using put_strictly [OF assms(3) new] \<open>objs t' = put cmp k (objs t)\<close> by simp
  ultimately show ?thesis
    using new \<open>holds s' t'\<close> \<open>keycmp s' = cmp\<close> \<open>objs t' = put cmp k (objs t)\<close> \<open>rbt t \<longrightarrow> rbt t'\<close>
    by (intro exI [of _ "brk s"] exI [of _ True] exI [of _ s'] exI [of _ t']) simp
next
  case False
  then have "rbtree_insert_unique k s = Some (look (cmp k) t, False, s)"
    using insert_unique_holds [OF assms(1), of k] assms(2) by simp
  moreover have "\<not> (\<forall>x \<in> set (objs t). cmp k x \<noteq> 0)"
    using look_iff(1) [OF assms(1) strictly_descending [OF assms(3)], of k] False by blast
  ultimately show ?thesis
    using assms by (intro exI [of _ "look (cmp k) t"] exI [of _ False] exI [of _ s] exI [of _ t]) simp
qed

end

end
