(* ===== verification/CString.thy ===== *)
theory CString
  imports KT_Prelude
begin

section \<open>C strings\<close>

text \<open>
  A \<open>char *\<close> that the code uses as a string is the sequence of its characters before the
  terminating null.  The functions here are the ones of the C library the code calls; a
  pointer into a string that a function returns is the suffix it points to.
\<close>

type_synonym cstr = string

text \<open>
  \<open>strcmp\<close> compares the characters as unsigned bytes; of a result against a proper prefix the
  standard fixes the sign only.
\<close>

fun strcmp :: "cstr \<Rightarrow> cstr \<Rightarrow> int" where
  "strcmp [] [] = 0"
| "strcmp (c # cs) [] = 1"
| "strcmp [] (d # ds) = - 1"
| "strcmp (c # cs) (d # ds) =
     (if c = d then strcmp cs ds else int (of_char c) - int (of_char d))"

text \<open>The character at an index, the terminating null behind the last one.\<close>

definition char_at :: "cstr \<Rightarrow> nat \<Rightarrow> char" where
  "char_at s i = (if i < length s then s ! i else CHR 0x00)"

text \<open>\<open>strchr\<close>: the part before the first occurrence and the part from it on.\<close>

definition strchr :: "cstr \<Rightarrow> char \<Rightarrow> cstr option" where
  "strchr s c = (if c \<in> set s then Some (dropWhile (\<lambda>d. d \<noteq> c) s) else None)"

text \<open>What is left of a string when the pointer \<open>strchr\<close> returned is overwritten by a null.\<close>

definition cut_at :: "cstr \<Rightarrow> char \<Rightarrow> cstr" where
  "cut_at s c = takeWhile (\<lambda>d. d \<noteq> c) s"

definition isdigit :: "char \<Rightarrow> bool" where
  "isdigit c \<longleftrightarrow> 48 \<le> (of_char c :: nat) \<and> (of_char c :: nat) \<le> 57"

text \<open>\<open>isspace\<close> in the C locale: blank, and tab to carriage return.\<close>

definition isspace :: "char \<Rightarrow> bool" where
  "isspace c \<longleftrightarrow> (of_char c :: nat) = 32 \<or> 9 \<le> (of_char c :: nat) \<and> (of_char c :: nat) \<le> 13"

text \<open>
  \<open>atoi\<close> is \<open>(int) strtol(s, NULL, 10)\<close>: blanks, a sign, digits, saturated to a \<open>long\<close> and
  truncated to an \<open>int\<close>.
\<close>

fun digits_val :: "int \<Rightarrow> cstr \<Rightarrow> int" where
  "digits_val acc [] = acc"
| "digits_val acc (c # cs) =
     (if isdigit c then digits_val (acc * 10 + (int (of_char c) - 48)) cs else acc)"

definition strtol10 :: "cstr \<Rightarrow> int" where
  "strtol10 s =
     (case dropWhile isspace s of
        [] \<Rightarrow> 0
      | c # cs \<Rightarrow> if c = CHR ''-'' then max (- (2 ^ 63)) (- digits_val 0 cs)
                  else if c = CHR ''+'' then min (2 ^ 63 - 1) (digits_val 0 cs)
                  else min (2 ^ 63 - 1) (digits_val 0 (c # cs)))"

definition atoi :: "cstr \<Rightarrow> int" where
  "atoi s = int32 (strtol10 s)"

text \<open>Printing with \<open>%d\<close>, \<open>%u\<close> and their long forms.\<close>

fun dec_nat :: "nat \<Rightarrow> cstr" where
  "dec_nat n = (if n < 10 then [char_of (48 + n)] else dec_nat (n div 10) @ [char_of (48 + n mod 10)])"

declare dec_nat.simps [simp del]

definition dec :: "int \<Rightarrow> cstr" where
  "dec i = (if i < 0 then CHR ''-'' # dec_nat (nat (- i)) else dec_nat (nat i))"

text \<open>\<open>snprintf\<close> into a buffer of \<open>n > 0\<close> bytes: what fits before the terminating null.\<close>

definition snprintf_into :: "nat \<Rightarrow> cstr \<Rightarrow> cstr" where
  "snprintf_into n s = take (n - 1) s"

lemma isdigit_digit [simp]: "n < 10 \<Longrightarrow> isdigit (char_of (48 + n :: nat))"
  by (simp add: isdigit_def)

lemma dec_nat_digits: "list_all isdigit (dec_nat n) \<and> dec_nat n \<noteq> []"
  by (induction n rule: dec_nat.induct) (subst (1 2) dec_nat.simps, auto)

lemma digits_val_append:
  "list_all isdigit s \<Longrightarrow> digits_val acc (s @ t) = digits_val (digits_val acc s) t"
  by (induction s arbitrary: acc) auto

lemma digits_val_dec_nat: "digits_val 0 (dec_nat n) = int n"
proof (induction n rule: dec_nat.induct)
  case (1 n)
  show ?case
  proof (cases "n < 10")
    case True
    then show ?thesis by (subst dec_nat.simps) simp
  next
    case False
    have "dec_nat n = dec_nat (n div 10) @ [char_of (48 + n mod 10)]"
      using False by (subst dec_nat.simps) simp
    then have "digits_val 0 (dec_nat n) = int (n div 10) * 10 + int (n mod 10)"
      using 1 [OF False] dec_nat_digits [of "n div 10"] by (simp add: digits_val_append)
    then show ?thesis by (simp add: of_nat_div of_nat_mod)
  qed
qed

text \<open>\<open>atoi\<close> reads back what \<open>%d\<close> printed.\<close>

lemma atoi_dec:
  assumes "- (2 ^ 31) \<le> i" "i < 2 ^ 31"
  shows "atoi (dec i) = i"
proof -
  obtain c cs where c: "dec_nat (nat \<bar>i\<bar>) = c # cs" "isdigit c"
    using dec_nat_digits [of "nat \<bar>i\<bar>"] by (cases "dec_nat (nat \<bar>i\<bar>)") auto
  then have sp: "\<not> isspace c" "\<not> isspace (CHR ''-'')" "c \<noteq> CHR ''-''" "c \<noteq> CHR ''+''"
    by (auto simp: isdigit_def isspace_def)
  have v: "digits_val 0 (c # cs) = \<bar>i\<bar>"
    using digits_val_dec_nat [of "nat \<bar>i\<bar>"] c by simp
  have "strtol10 (dec i) = i"
  proof (cases "i < 0")
    case True
    then have "dec i = CHR ''-'' # c # cs" using c(1) by (simp add: dec_def)
    then show ?thesis using True v sp assms by (simp add: strtol10_def del: digits_val.simps)
  next
    case False
    then have "dec i = c # cs" using c(1) by (simp add: dec_def)
    then show ?thesis using False v sp assms by (simp add: strtol10_def del: digits_val.simps)
  qed
  then show ?thesis using assms by (simp add: atoi_def int32_id)
qed

subsection \<open>The order \<open>strcmp\<close> induces\<close>

lemma of_char_int_eq [simp]: "int (of_char c) = int (of_char d) \<longleftrightarrow> c = d"
  by simp

lemma strcmp_flip: "strcmp t s = - strcmp s t"
  by (induction s t rule: strcmp.induct) auto

lemma strcmp_refl [simp]: "strcmp s s = 0"
  by (induction s) auto

definition no_null :: "cstr \<Rightarrow> bool" where
  "no_null s \<longleftrightarrow> (\<forall>c \<in> set s. c \<noteq> CHR 0x00)"

lemma strcmp_eq_0: "strcmp s t = 0 \<longleftrightarrow> s = t"
  by (induction s t rule: strcmp.induct) auto

lemma strcmp_trans: "strcmp s t \<ge> 0 \<Longrightarrow> strcmp t u \<ge> 0 \<Longrightarrow> strcmp s u \<ge> 0"
proof (induction s t arbitrary: u rule: strcmp.induct)
  case (2 c cs)
  then show ?case by (cases u) auto
next
  case (4 c cs d ds)
  then show ?case by (cases u) (auto split: if_splits)
qed (auto elim: strcmp.elims)

end
