(* ===== verification/RB_Main.thy ===== *)
theory RB_Main
  imports RB_Order CString
begin

section \<open>What the container guarantees\<close>

text \<open>
  The main results on \<open>src/src/common/red_black_tree.c\<close>, each over the pointer programs
  themselves.  The comparison contract is interpreted on \<open>strcmp\<close>.
\<close>

text \<open>A tree of one node, for the examples.\<close>

definition ex_state :: "cstr rbstate" where
  "ex_state =
     \<lparr>root = 16, tree_size = 1, keycmp = strcmp,
      cells = [16 \<mapsto> \<lparr>object = ''c'', color = rbclrBlack, parent = NULL, right = NULL, left = NULL\<rparr>],
      brk = 17, limit = 32\<rparr>"

abbreviation ex_tree :: "cstr ptree" where
  "ex_tree \<equiv> Nd 16 rbclrBlack Tip ''c'' Tip"

lemma ex_state_facts [simp]:
  "holds ex_state ex_tree" "keycmp ex_state = strcmp" "brk ex_state = 17" "limit ex_state = 32"
  "tree_size ex_state = 1" "rbt ex_tree"
  by (simp_all add: ex_state_def holds_def shape_def heap_ok_def rbt_def)

lemma strcmp_sgn: "sgn (strcmp y x) = - sgn (strcmp x y)"
  by (simp add: strcmp_flip [of y x])

interpretation strcmp_keys: keycmp_order strcmp
  by unfold_locales (rule strcmp_sgn, rule strcmp_trans)

lemma ex_state_ordered [simp]:
  "keycmp_order strcmp" "descending strcmp [''c'']" "strictly strcmp [''c'']"
  by (simp_all add: strcmp_keys.keycmp_order_axioms descending_def strictly_def)

text \<open>
  C2: From every well-formed tree with memory left, \<open>rbtree_insert\<close> returns the new node; the
  result is a well-formed tree in the store (root, parent and child pointers, colours, size,
  no node lost) with exactly one more object, and if the tree was a red-black tree it still
  is one.
\<close>

theorem rbtree_insert_correct:
  assumes "holds s t" "brk s < limit s"
  shows "\<exists>s' t'. rbtree_insert ob s = Some (brk s, s') \<and> holds s' t' \<and>
    mset (nodes t') = add_mset (brk s, ob) (mset (nodes t)) \<and> (rbt t \<longrightarrow> rbt t') \<and>
    rbtree_size s' = rbtree_size s + 1"
proof -
  let ?t = "ins_tree (\<lambda>y. keycmp s ob y > 0) t (new_leaf s ob)"
  obtain s' where s': "rbtree_insert ob s = Some (brk s, s')" "holds s' ?t"
    using insert_holds [OF assms, of ob] by blast
  have "mset (nodes ?t) = add_mset (brk s, ob) (mset (nodes t))"
    by (rule mset_ins_tree)
  moreover from this have "length (nodes ?t) = Suc (length (nodes t))"
    by (metis size_add_mset size_mset)
  ultimately show ?thesis
    using s' rbt_ins_tree [of t] assms(1) by (auto simp: rbtree_size_def holds_def)
qed

theorem rbtree_insert_correct_witness:
  "\<exists>s' t'. rbtree_insert ''b'' ex_state = Some (17, s') \<and> holds s' t' \<and>
    mset (nodes t') = {#(17, ''b''), (16, ''c'')#} \<and> rbt t' \<and> rbtree_size s' = 2"
  using rbtree_insert_correct [of ex_state ex_tree "''b''"] by (simp add: rbtree_size_def)

text \<open>
  \<open>rbtree_insert_unique\<close> is a search followed, where nothing is found, by \<open>rbtree_insert\<close>:
  it returns the node found and changes nothing, or inserts and sets \<open>is_new_node\<close>.
\<close>

theorem rbtree_insert_unique_find:
  assumes "holds s t"
  shows "\<exists>p. rbtree_find ob s = Some p \<and>
    rbtree_insert_unique ob s =
      (if p \<noteq> NULL then Some (p, False, s)
       else map_option (\<lambda>(n, s'). (n, True, s')) (rbtree_insert ob s))"
  using find_holds [OF assms] insert_unique_holds [OF assms] by simp

theorem rbtree_insert_unique_find_witness:
  "rbtree_insert_unique ''c'' ex_state = Some (16, False, ex_state)"
  using rbtree_insert_unique_find [of ex_state ex_tree "''c''"] find_holds [of ex_state ex_tree "''c''"]
  by simp

text \<open>
  With a comparison function that is a total preorder, insertion into an ordered tree puts
  the new object behind all that do not compare less, so the tree stays ordered; equal keys
  are kept in the order of their insertion.
\<close>

theorem rbtree_insert_ordered:
  assumes "keycmp_order (keycmp s)" "holds s t" "descending (keycmp s) (objs t)" "brk s < limit s"
  shows "\<exists>s' t'. rbtree_insert ob s = Some (brk s, s') \<and> holds s' t' \<and> keycmp s' = keycmp s \<and>
    objs t' = takeWhile (\<lambda>x. keycmp s ob x \<le> 0) (objs t) @ ob # dropWhile (\<lambda>x. keycmp s ob x \<le> 0) (objs t) \<and>
    descending (keycmp s) (objs t')"
proof -
  obtain s' t' where "rbtree_insert ob s = Some (brk s, s')" "holds s' t'" "keycmp s' = keycmp s"
      "objs t' = put (keycmp s) ob (objs t)"
    using keycmp_order.insert_put [OF assms(1,2) refl assms(3,4), of ob] by blast
  then show ?thesis
    using keycmp_order.put_descending [OF assms(1,3), of ob]
    by (intro exI [of _ s'] exI [of _ t']) (simp add: put_def not_less)
qed

theorem rbtree_insert_ordered_witness:
  "\<exists>s' t'. rbtree_insert ''b'' ex_state = Some (17, s') \<and> holds s' t' \<and>
    objs t' = [''c'', ''b''] \<and> descending strcmp (objs t')"
proof -
  obtain s' t' where "rbtree_insert ''b'' ex_state = Some (17, s')" "holds s' t'"
    "objs t' = [''c'', ''b'']" "descending strcmp (objs t')"
    using rbtree_insert_ordered [of ex_state ex_tree "''b''"] by auto
  then show ?thesis by (intro exI conjI)
qed

text \<open>
  In an ordered tree \<open>rbtree_find\<close> returns a node exactly when some object compares equal,
  and the object of that node does.
\<close>

theorem rbtree_find_correct:
  assumes "keycmp_order (keycmp s)" "holds s t" "descending (keycmp s) (objs t)"
  shows "\<exists>p. rbtree_find ob s = Some p \<and>
    (p \<noteq> NULL \<longleftrightarrow> (\<exists>x \<in> set (objs t). keycmp s ob x = 0)) \<and>
    (p \<noteq> NULL \<longrightarrow> (\<exists>x. (p, x) \<in> set (nodes t) \<and> keycmp s ob x = 0))"
  using keycmp_order.find_iff [OF assms(1,2) refl assms(3), of ob] .

theorem rbtree_find_correct_witness: "rbtree_find ''x'' ex_state = Some NULL"
  using rbtree_find_correct [of ex_state ex_tree "''x''"] by auto

text \<open>
  C33: \<open>rbtree_insert_unique\<close> keeps the keys of a strictly ordered tree distinct, reports a new
  node exactly when the key was absent, and then has inserted at the place the order asks for.
\<close>

theorem rbtree_insert_unique_ordered:
  assumes "keycmp_order (keycmp s)" "holds s t" "strictly (keycmp s) (objs t)" "brk s < limit s"
  shows "\<exists>p b s' t'. rbtree_insert_unique ob s = Some (p, b, s') \<and> holds s' t' \<and>
    keycmp s' = keycmp s \<and> strictly (keycmp s) (objs t') \<and> (rbt t \<longrightarrow> rbt t') \<and>
    (b \<longleftrightarrow> (\<forall>x \<in> set (objs t). keycmp s ob x \<noteq> 0)) \<and>
    (if b then objs t' = put (keycmp s) ob (objs t) else s' = s \<and> t' = t)"
  using keycmp_order.insert_unique_put [OF assms(1,2) refl assms(3,4), of ob] .

theorem rbtree_insert_unique_ordered_witness:
  "\<exists>p s' t'. rbtree_insert_unique ''b'' ex_state = Some (p, True, s') \<and> holds s' t' \<and>
    strictly strcmp (objs t') \<and> objs t' = [''c'', ''b'']"
proof -
  obtain p s' t' where "rbtree_insert_unique ''b'' ex_state = Some (p, True, s')" "holds s' t'"
    "strictly strcmp (objs t')" "objs t' = [''c'', ''b'']"
    using rbtree_insert_unique_ordered [of ex_state ex_tree "''b''"] by (auto simp: put_def)
  then show ?thesis by (intro exI conjI)
qed

text \<open>The two traversals apply the callback to every object, in tree order and in reverse.\<close>

theorem rbtree_traverse_correct:
  assumes "holds s t"
  shows "rbtree_traverse f p s = Some (fold f (objs t) p) \<and>
    rbtree_traverse_right f p s = Some (fold f (rev (objs t)) p)"
  by (simp add: traverse_holds [OF assms])

theorem rbtree_traverse_correct_witness: "rbtree_traverse (#) [] ex_state = Some [''c'']"
  using rbtree_traverse_correct [of ex_state ex_tree "(#)" "[]"] by simp

text \<open>
  \<open>rbtree_clean\<close> frees every node exactly once and leaves an empty tree; no node of the
  store is left.
\<close>

theorem rbtree_clean_correct:
  assumes "holds s t"
  shows "\<exists>s'. rbtree_clean (Some s) = Some (Some s') \<and> holds s' Tip \<and> cells s' = Map.empty \<and>
    rbtree_size s' = 0"
  using assms clean_holds [OF assms]
  by (simp add: holds_def shape_def heap_ok_def rbtree_size_def)

theorem rbtree_clean_correct_witness:
  "\<exists>s'. rbtree_clean (Some ex_state) = Some (Some s') \<and> cells s' = Map.empty"
  using rbtree_clean_correct [of ex_state ex_tree] by auto

text \<open>
  C34: The depth \<open>rbtree_depth\<close> computes on a red-black tree of \<open>n\<close> nodes is at most
  \<open>2 * log2 (n + 1)\<close>: two to the depth is at most the square of \<open>n + 1\<close>.
\<close>

theorem rbtree_depth_bound:
  assumes "holds s t" "rbt t"
  shows "\<exists>d. rbtree_depth s = Some (int d) \<and> 2 ^ d \<le> (unat (rbtree_size s) + 1)\<^sup>2"
  using depth_holds [OF assms(1)] rbt_depth [OF assms(2)] holds_size [OF assms(1)]
  by (auto simp: rbtree_size_def)

theorem rbtree_depth_bound_witness:
  "\<exists>d. rbtree_depth ex_state = Some (int d) \<and> 2 ^ d \<le> (4 :: nat)"
  using rbtree_depth_bound [of ex_state ex_tree] by (simp add: rbtree_size_def numeral_2_eq_2 [symmetric] power2_eq_square)

text \<open>
  For every node of a tree, \<open>rbnode_successor\<close> and \<open>rbnode_predecessor\<close> return the next and
  the previous node of the tree order, or null at its ends, and \<open>rbtree_minimum\<close> and
  \<open>rbtree_maximum\<close> return the ends.
\<close>

theorem rbnode_neighbours:
  assumes "holds s t" "nodes t = ns @ (a, x) # ns'"
  shows "rbnode_successor a s = Some (first_ptr ns') \<and>
    rbnode_predecessor a s = Some (first_ptr (rev ns)) \<and>
    rbtree_minimum s = Some (first_ptr (nodes t)) \<and>
    rbtree_maximum s = Some (first_ptr (rev (nodes t)))"
  using neighbours_holds [OF assms] extremes_holds [OF assms(1)] by simp

theorem rbnode_neighbours_witness:
  "rbnode_successor 16 ex_state = Some NULL \<and> rbtree_minimum ex_state = Some 16"
  using rbnode_neighbours [of ex_state ex_tree "[]" 16 "''c''" "[]"] by simp

end
