(* ===== verification/RB_Remove.thy ===== *)
theory RB_Remove
  imports RB_Splice RB_Main
begin

section \<open>Removal\<close>

text \<open>
  What \<open>rbtree_remove\<close> does to the sequence of objects, the container as a multiset over any
  sequence of operations, and what removal does not keep: the balance of the tree.
\<close>

lemma remove_ordered:
  assumes "keycmp_order (keycmp s)" "holds s t" "descending (keycmp s) (objs t)"
  shows "if \<exists>x \<in> set (objs t). keycmp s ob x = 0 then
      \<exists>ns a x ns' s' t'. nodes t = ns @ (a, x) # ns' \<and> keycmp s ob x = 0 \<and>
        rbtree_remove ob s = Some (Some x, s') \<and> holds s' t' \<and> nodes t' = ns @ ns' \<and>
        keycmp s' = keycmp s \<and> descending (keycmp s) (objs t')
    else rbtree_remove ob s = Some (None, s)"
proof -
  obtain p where p: "rbtree_find ob s = Some p" "p \<noteq> NULL \<longleftrightarrow> (\<exists>x \<in> set (objs t). keycmp s ob x = 0)"
    "p \<noteq> NULL \<longrightarrow> (\<exists>x. (p, x) \<in> set (nodes t) \<and> keycmp s ob x = 0)"
    using keycmp_order.find_iff [OF assms(1,2) refl assms(3), of ob] by blast
  show ?thesis
  proof (cases "p = NULL")
    case False
    then obtain x ns ns' where x: "nodes t = ns @ (p, x) # ns'" "keycmp s ob x = 0"
      using p(3) split_list by metis
    have "get_object p s = Some x"
      using nodes_position [OF x(1)] holds_linked [OF assms(2)] linked_node(1) by (fastforce simp: linked_def)
    moreover obtain s' t' where "rbtree_remove_at p s = Some s'" "holds s' t'" "nodes t' = ns @ ns'"
      "keycmp s' = keycmp s"
      using remove_at_holds [OF assms(2) x(1)] by blast
    moreover have "descending (keycmp s) (map snd (ns @ ns'))"
      using assms(3) x(1) by (simp add: descending_def sorted_wrt_append)
    ultimately show ?thesis using p False x by (fastforce simp: rbtree_remove_def)
  qed (use p in \<open>simp add: rbtree_remove_def\<close>)
qed

text \<open>
  C3: \<open>rbtree_remove\<close> on an ordered tree returns.  When no object compares equal it changes
  nothing; otherwise it takes exactly one such object out of the sequence, hands it back and
  frees its node.  The pointer structure, the size, the order of the others and the black root
  are kept, whether or not the tree was balanced.
\<close>

theorem rbtree_remove_correct:
  assumes "keycmp_order (keycmp s)" "holds s t" "descending (keycmp s) (objs t)"
  shows "if \<exists>x \<in> set (objs t). keycmp s ob x = 0 then
      \<exists>ns a x ns' s' t'. nodes t = ns @ (a, x) # ns' \<and> keycmp s ob x = 0 \<and>
        rbtree_remove ob s = Some (Some x, s') \<and> holds s' t' \<and> nodes t' = ns @ ns' \<and>
        keycmp s' = keycmp s \<and> descending (keycmp s) (objs t')
    else rbtree_remove ob s = Some (None, s)"
  using remove_ordered [OF assms] .

theorem rbtree_remove_correct_witness:
  "\<exists>s'. rbtree_remove ''c'' ex_state = Some (Some ''c'', s') \<and> holds s' Tip"
  using rbtree_remove_correct [of ex_state ex_tree "''c''"] by (auto simp: Cons_eq_append_conv)

subsection \<open>Any sequence of operations\<close>

text \<open>The states a program reaches with the container, and the objects it should then have.\<close>

inductive built :: "('a \<Rightarrow> 'a \<Rightarrow> int) \<Rightarrow> 'a rbstate \<Rightarrow> 'a multiset \<Rightarrow> bool" for cmp where
  init: "cells mem = Map.empty \<Longrightarrow> heap_ok mem \<Longrightarrow> built cmp (rbtree_init cmp mem) {#}"
| insert: "built cmp s M \<Longrightarrow> rbtree_insert k s = Some (n, s') \<Longrightarrow> built cmp s' (add_mset k M)"
| insert_unique: "built cmp s M \<Longrightarrow> rbtree_insert_unique k s = Some (n, is_new, s') \<Longrightarrow>
    built cmp s' (if is_new then add_mset k M else M)"
| remove: "built cmp s M \<Longrightarrow> rbtree_remove k s = Some (ob, s') \<Longrightarrow>
    built cmp s' (case ob of None \<Rightarrow> M | Some x \<Rightarrow> M - {#x#})"
| clean: "built cmp s M \<Longrightarrow> rbtree_clean (Some s) = Some (Some s') \<Longrightarrow> built cmp s' {#}"

definition implements :: "('a \<Rightarrow> 'a \<Rightarrow> int) \<Rightarrow> 'a rbstate \<Rightarrow> 'a ptree \<Rightarrow> 'a multiset \<Rightarrow> bool" where
  "implements cmp s t M \<longleftrightarrow> holds s t \<and> keycmp s = cmp \<and> descending cmp (objs t) \<and> mset (objs t) = M"

lemma mset_put: "mset (put cmp k xs) = add_mset k (mset xs)"
  by (simp add: put_def) (metis mset_append takeWhile_dropWhile_id union_code)

lemma implements_insert:
  assumes "keycmp_order cmp" "implements cmp s t M" "rbtree_insert k s = Some (n, s')"
  shows "\<exists>t'. implements cmp s' t' (add_mset k M)"
proof -
  have "brk s < limit s" using insert_full [of s t k] assms(2,3) by (auto simp: implements_def)
  then obtain t' where "holds s' t'" "keycmp s' = cmp" "objs t' = put cmp k (objs t)"
    using keycmp_order.insert_put [OF assms(1), of s t k] assms(2,3) by (auto simp: implements_def)
  then show ?thesis
    using assms(2) keycmp_order.put_descending [OF assms(1), of "objs t" k]
    by (intro exI [of _ t']) (simp add: implements_def mset_put del: mset_map)
qed

lemma implements_unique:
  assumes "keycmp_order cmp" "implements cmp s t M" "rbtree_insert_unique k s = Some (n, is_new, s')"
  shows "\<exists>t'. implements cmp s' t' (if is_new then add_mset k M else M)"
proof (cases "look (keycmp s k) t = NULL")
  case True
  then have "rbtree_insert k s = Some (n, s')" "is_new"
    using insert_unique_holds [of s t k] assms(2,3) by (cases "rbtree_insert k s"; force simp: implements_def)+
  then show ?thesis using implements_insert [OF assms(1,2)] by simp
next
  case False
  then show ?thesis
    using insert_unique_holds [of s t k] assms(2,3) by (auto simp: implements_def)
qed

lemma implements_remove:
  assumes "keycmp_order cmp" "implements cmp s t M" "rbtree_remove k s = Some (ob, s')"
  shows "\<exists>t'. implements cmp s' t' (case ob of None \<Rightarrow> M | Some x \<Rightarrow> M - {#x#})"
proof -
  have "holds s t" "keycmp s = cmp" "descending cmp (objs t)" "mset (objs t) = M"
    using assms(2) by (simp_all add: implements_def)
  then show ?thesis
    using remove_ordered [of s t k] assms(1,3) by (fastforce simp: implements_def split: if_splits)
qed

lemma built_implements:
  assumes "built cmp s M" "keycmp_order cmp"
  shows "\<exists>t. implements cmp s t M"
  using assms
proof induction
  case (init mem)
  then show ?case
    by (intro exI [of _ Tip])
      (auto simp: implements_def rbtree_init_def holds_def shape_def heap_ok_def descending_def)
next
  case (clean s M s')
  then show ?case
    using clean_holds [of s]
    by (auto simp: implements_def holds_def shape_def heap_ok_def descending_def intro!: exI [of _ Tip])
qed (blast intro: implements_insert implements_unique implements_remove)+

text \<open>
  C1: the container refines a multiset, whatever the sequence of its operations: after any
  insertions, unique insertions, removals and clean-ups the store holds a well-formed tree of
  exactly the expected objects in the order of the keys, with their number as its size; a search
  succeeds exactly when there is an equal object; and the next operation returns, an insertion
  as long as there is memory.
\<close>

theorem rbtree_refines_multiset:
  assumes "keycmp_order cmp" "built cmp s M"
  shows "(\<exists>t. holds s t \<and> descending cmp (objs t) \<and> mset (objs t) = M) \<and>
    unat (rbtree_size s) = size M \<and>
    (\<exists>p. rbtree_find k s = Some p \<and> (p \<noteq> NULL \<longleftrightarrow> (\<exists>x \<in># M. cmp k x = 0))) \<and>
    rbtree_remove k s \<noteq> None \<and> (brk s < limit s \<longrightarrow> rbtree_insert k s \<noteq> None)"
proof -
  obtain t where t: "holds s t" "keycmp s = cmp" "descending cmp (objs t)" "mset (objs t) = M"
    using built_implements [OF assms(2,1)] by (auto simp: implements_def)
  have "\<exists>p. rbtree_find k s = Some p \<and> (p \<noteq> NULL \<longleftrightarrow> (\<exists>x \<in># M. cmp k x = 0))"
    using keycmp_order.find_iff [OF assms(1) t(1-3), of k] t(4) by (metis set_mset_mset)
  moreover have "rbtree_remove k s \<noteq> None"
    using remove_ordered [of s t k] t assms(1) by (auto split: if_splits)
  moreover have "unat (rbtree_size s) = size M"
    using holds_size [OF t(1)] t(4) by (metis rbtree_size_def size_mset length_map)
  ultimately show ?thesis using t insert_holds [OF t(1), of k] by auto
qed

theorem rbtree_refines_multiset_witness:
  "\<exists>s. built strcmp s {#''b''#} \<and> (\<exists>p. rbtree_find ''b'' s = Some p \<and> p \<noteq> NULL) \<and> unat (rbtree_size s) = 1"
proof -
  let ?mem = "ex_state\<lparr>root := NULL, tree_size := 0, cells := Map.empty\<rparr>"
  have "heap_ok ?mem" by (simp add: heap_ok_def)
  then have b: "built strcmp (rbtree_init strcmp ?mem) {#}" by (intro built.init) simp_all
  moreover have "brk (rbtree_init strcmp ?mem) < limit (rbtree_init strcmp ?mem)" by (simp add: rbtree_init_def)
  ultimately obtain n s where "rbtree_insert ''b'' (rbtree_init strcmp ?mem) = Some (n, s)"
    using rbtree_refines_multiset [OF ex_state_ordered(1) b, of "''b''"] by auto
  then have "built strcmp s {#''b''#}" using built.insert [OF b] by simp
  then show ?thesis using rbtree_refines_multiset [OF ex_state_ordered(1), of s "{#''b''#}" "''b''"] by auto
qed

subsection \<open>The balance\<close>

text \<open>
  Removal repairs the colours only when the removed black node leaves a child behind
  (\<open>rbtree_remove_at\<close>, the test before \<open>rbtree_remove_fixup\<close>).  A black leaf is cut off
  without any repair, after which the paths of the tree no longer have the same number of
  black nodes.
\<close>

definition int_cmp :: "int \<Rightarrow> int \<Rightarrow> int" where
  "int_cmp a b = a - b"

definition int_state :: "int rbstate" where
  "int_state =
     \<lparr>root = NULL, tree_size = 0, keycmp = int_cmp, cells = Map.empty, brk = 16, limit = 32\<rparr>"

fun rbtree_insert_all :: "'a list \<Rightarrow> 'a rbstate \<Rightarrow> 'a rbstate option" where
  "rbtree_insert_all [] s = Some s"
| "rbtree_insert_all (x # xs) s = do { (_, s) \<leftarrow> rbtree_insert x s; rbtree_insert_all xs s }"

definition four_tree :: "int ptree" where
  "four_tree =
     Nd 17 rbclrBlack (Nd 16 rbclrBlack Tip 4 Tip) 3
       (Nd 18 rbclrBlack Tip 2 (Nd 19 rbclrRed Tip 1 Tip))"

definition three_tree :: "int ptree" where
  "three_tree = Nd 17 rbclrBlack Tip 3 (Nd 18 rbclrBlack Tip 2 (Nd 19 rbclrRed Tip 1 Tip))"

text \<open>
  Inserting 4, 3, 2, 1 builds a red-black tree; removing 4, a black leaf, returns the
  object and leaves a tree whose paths differ in their number of black nodes.
\<close>

theorem rbtree_remove_black_leaf:
  "case rbtree_insert_all [4, 3, 2, 1] int_state of
     None \<Rightarrow> False
   | Some s \<Rightarrow> linked s four_tree \<and> rbt four_tree \<and>
       (case rbtree_remove 4 s of
          None \<Rightarrow> False
        | Some (ob, s') \<Rightarrow> ob = Some 4 \<and> linked s' three_tree \<and> \<not> invh three_tree)"
  by code_simp

end
