(* ===== verification/ReadConf.thy ===== *)
theory ReadConf
  imports CString
begin

section \<open>Reading configuration files\<close>

text \<open>
  A translation of the reader of \<open>src/src/common/readconf.c\<close>.  A file is the list of its
  bytes; an open file is its contents and the part not read yet.  The line buffer is only
  reachable through the key and the value \<open>ConfGetNextPair\<close> returns, which are strings here;
  a null value pointer is \<open>None\<close>.  Read errors of the C library other than the end of the
  file are not modelled.
\<close>

subsection \<open>Trimming and splitting\<close>

definition ltrim :: "cstr \<Rightarrow> char \<Rightarrow> cstr" where
  "ltrim s c = dropWhile (\<lambda>d. d = c) s"

text \<open>
  The loop of \<open>rtrim\<close> moves \<open>q\<close> behind every character other than \<open>c\<close>; \<open>p\<close> and \<open>q\<close> are
  counted from the start of the string.  The string is cut at \<open>q\<close> unless \<open>q\<close> did not move.
\<close>

fun rtrim_loop :: "cstr \<Rightarrow> char \<Rightarrow> nat \<Rightarrow> nat \<Rightarrow> nat" where
  "rtrim_loop [] c p q = q"
| "rtrim_loop (d # s) c p q = rtrim_loop s c (Suc p) (if d \<noteq> c then Suc p else q)"

definition rtrim :: "cstr \<Rightarrow> char \<Rightarrow> cstr" where
  "rtrim s c = (let q = rtrim_loop s c 0 0 in if q \<noteq> 0 then take q s else s)"

definition dtrim :: "cstr \<Rightarrow> char \<Rightarrow> cstr" where
  "dtrim s c = rtrim (ltrim s c) c"

text \<open>
  \<open>splitpair\<close>: the test at its end is on the address of the key, which is never null, so
  the function always returns true.
\<close>

definition splitpair :: "cstr \<Rightarrow> char \<Rightarrow> cstr \<times> cstr option" where
  "splitpair strbuf sep =
     (let at = strchr strbuf sep;
          key = dtrim (dtrim (case at of None \<Rightarrow> strbuf | Some _ \<Rightarrow> cut_at strbuf sep) (CHR 0x20)) (CHR 0x09);
          val = map_option (\<lambda>p. dtrim (dtrim (dtrim (tl p) (CHR 0x20)) (CHR 0x09)) (CHR 0x22)) at
      in (key, val))"

subsection \<open>Lines\<close>

definition READCONF_MAX_LINESIZE :: nat where "READCONF_MAX_LINESIZE = 4096"
definition READCONF_MAX_SECNAME :: nat where "READCONF_MAX_SECNAME = 256"
definition READCONF_SEC_BEGIN :: char where "READCONF_SEC_BEGIN = CHR ''[''"
definition READCONF_SEC_END :: char where "READCONF_SEC_END = CHR '']''"
definition READCONF_SEPARATOR :: char where "READCONF_SEPARATOR = CHR ''=''"
definition READCONF_NOTE_CHAR :: char where "READCONF_NOTE_CHAR = CHR ''#''"

text \<open>
  \<open>readln\<close>: the result is the return code, the contents of the buffer before its null and
  the rest of the file.  The counters \<open>i\<close> and \<open>j\<close> are those of the code; the buffer holds
  \<open>i\<close> characters.
\<close>

fun readln_loop :: "nat \<Rightarrow> nat \<Rightarrow> nat \<Rightarrow> cstr \<Rightarrow> cstr \<Rightarrow> int \<times> cstr \<times> cstr" where
  "readln_loop bufsize i j strbuf [] =
     (if i < bufsize then (if j = 0 then (- 1, strbuf, []) else (int i, strbuf, []))
      else (int i, strbuf, []))"
| "readln_loop bufsize i j strbuf (ch # fp) =
     (if i < bufsize then
        if ch = CHR 0x0A \<or> ch = CHR 0x00 then (int i, strbuf, fp)
        else if ch = CHR 0x0C \<or> ch = CHR 0x1A then (int (Suc i), strbuf @ [ch], fp)
        else
          (let (i', strbuf') = (if ch \<noteq> CHR 0x0D then (Suc i, strbuf @ [ch]) else (i, strbuf)) in
           if i' = bufsize then (- 3, strbuf', fp)
           else readln_loop bufsize i' (Suc j) strbuf' fp)
      else (int i, strbuf, ch # fp))"

definition readln :: "cstr \<Rightarrow> nat \<Rightarrow> int \<times> cstr \<times> cstr" where
  "readln fp bufsize = readln_loop bufsize 0 0 [] fp"

subsection \<open>The reader\<close>

record conf_position =
  contents :: cstr
  fp :: cstr
  secname :: cstr

text \<open>\<open>ConfOpenFile\<close>: the argument is what \<open>fopen\<close> gives; \<open>calloc\<close> clears the section name.\<close>

definition ConfOpenFile :: "cstr option \<Rightarrow> conf_position option" where
  "ConfOpenFile f = map_option (\<lambda>c. \<lparr>contents = c, fp = c, secname = []\<rparr>) f"

lemma readln_loop_length:
  "readln_loop n i j b f = (nch, b', f') \<Longrightarrow> length f' \<le> length f"
proof (induction f arbitrary: i j b)
  case (Cons c f)
  then show ?case
    using Cons.IH [THEN le_SucI] by (auto simp: Let_def split: if_splits)
qed (auto split: if_splits)

lemma readln_length:
  assumes "(nch, b, f') = readln f n" "\<not> nch < 0" "0 < n"
  shows "length f' < length f"
proof (cases f)
  case (Cons c cs)
  then show ?thesis
    using assms(1) [symmetric] assms(2,3) readln_loop_length [of n, THEN le_imp_less_Suc]
    by (auto simp: readln_def Let_def split: if_splits)
qed (use assms in \<open>auto simp: readln_def\<close>)

text \<open>
  \<open>ConfGetNextPair\<close> returns the key and the value, or \<open>None\<close> for the null pointer it returns
  when no line is left.  Lines of at most two characters are skipped.
\<close>

function ConfGetNextPair :: "conf_position \<Rightarrow> (cstr \<times> cstr option) option \<times> conf_position" where
  "ConfGetNextPair cpos =
     (case readln (fp cpos) READCONF_MAX_LINESIZE of
        (nch, linebuf, rest) \<Rightarrow>
          let cpos = cpos\<lparr>fp := rest\<rparr> in
          if nch < 0 then (None, cpos)
          else
            (let start = dtrim (dtrim linebuf (CHR 0x20)) (CHR 0x09) in
             if start \<noteq> [] \<and> hd start = READCONF_NOTE_CHAR then ConfGetNextPair cpos
             else if length start > 2 then
               if length start \<le> READCONF_MAX_SECNAME \<and> hd start = READCONF_SEC_BEGIN \<and>
                  last start = READCONF_SEC_END
               then ConfGetNextPair (cpos\<lparr>secname := butlast (tl start)\<rparr>)
               else (Some (splitpair start READCONF_SEPARATOR), cpos)
             else ConfGetNextPair cpos))"
  by pat_completeness auto
termination
  by (relation "measure (\<lambda>cpos. length (fp cpos))")
    (auto simp: READCONF_MAX_LINESIZE_def dest!: readln_length)

declare ConfGetNextPair.simps [simp del]

definition ConfGetFirstPair :: "conf_position \<Rightarrow> (cstr \<times> cstr option) option \<times> conf_position" where
  "ConfGetFirstPair cpos = ConfGetNextPair (cpos\<lparr>fp := contents cpos\<rparr>)"

definition ConfGetSection :: "conf_position \<Rightarrow> cstr" where
  "ConfGetSection cpos = secname cpos"

subsection \<open>Trimming removes the character at both ends\<close>

lemma rtrim_loop_eq:
  "rtrim_loop s c p q = (if \<forall>d \<in> set s. d = c then q else p + length (dropWhile (\<lambda>d. d = c) (rev s)))"
proof (induction s arbitrary: p q)
  case (Cons d s)
  then show ?case
    by (cases "\<forall>e \<in> set s. e = c") (auto simp: dropWhile_append)
qed simp

lemma dropWhile_id: "s = [] \<or> \<not> P (hd s) \<Longrightarrow> dropWhile P s = s"
  by (cases s) auto

lemma all_hd: "s = [] \<or> hd s \<noteq> c \<Longrightarrow> (\<forall>d \<in> set s. d = c) \<longleftrightarrow> s = []"
  by (cases s) auto

lemma take_dropWhile_rev: "take (length (dropWhile P (rev s))) s = rev (dropWhile P (rev s))"
  by (simp add: dropWhile_eq_drop rev_drop)

lemma rtrim_eq: "s = [] \<or> hd s \<noteq> c \<Longrightarrow> rtrim s c = rev (dropWhile (\<lambda>d. d = c) (rev s))"
  using all_hd [of s c] by (auto simp: rtrim_def Let_def rtrim_loop_eq take_dropWhile_rev)

lemma hd_ltrim: "ltrim s c = [] \<or> hd (ltrim s c) \<noteq> c"
  using hd_dropWhile [of "\<lambda>d. d = c" s] by (auto simp: ltrim_def)

lemma dtrim_eq: "dtrim s c = rev (dropWhile (\<lambda>d. d = c) (rev (dropWhile (\<lambda>d. d = c) s)))"
  unfolding dtrim_def rtrim_eq [OF hd_ltrim] by (simp add: ltrim_def)

lemma set_dtrim: "set (dtrim s c) \<subseteq> set s"
  by (auto simp: dtrim_eq dest!: set_dropWhileD)

lemma length_dtrim: "length (dtrim s c) \<le> length s"
  by (metis dtrim_eq le_trans length_dropWhile_le length_rev)

lemma dtrim_id: "s = [] \<or> hd s \<noteq> c \<and> last s \<noteq> c \<Longrightarrow> dtrim s c = s"
  unfolding dtrim_eq by (cases "s = []") (simp_all add: dropWhile_id hd_rev)

subsection \<open>The reader on lines\<close>

text \<open>
  What the reader computes, on the list of lines of a text file: comments, short lines and
  section headers yield nothing, every other line is a pair of the current section.
\<close>

datatype line_kind = Skip | Section cstr | KeyVal "cstr \<times> cstr option"

definition classify :: "cstr \<Rightarrow> line_kind" where
  "classify l =
     (let start = dtrim (dtrim l (CHR 0x20)) (CHR 0x09) in
      if start \<noteq> [] \<and> hd start = CHR ''#'' then Skip
      else if length start \<le> 2 then Skip
      else if length start \<le> 256 \<and> hd start = CHR ''['' \<and> last start = CHR '']''
        then Section (butlast (tl start))
      else KeyVal (splitpair start (CHR ''='')))"

fun next_in :: "cstr \<Rightarrow> cstr list \<Rightarrow> (cstr \<times> cstr option) option \<times> cstr \<times> cstr list" where
  "next_in sec [] = (None, sec, [])"
| "next_in sec (l # ls) =
     (case classify l of
        Skip \<Rightarrow> next_in sec ls
      | Section s \<Rightarrow> next_in s ls
      | KeyVal kv \<Rightarrow> (Some kv, sec, ls))"

fun parse_lines :: "cstr \<Rightarrow> cstr list \<Rightarrow> (cstr \<times> cstr \<times> cstr option) list" where
  "parse_lines sec [] = []"
| "parse_lines sec (l # ls) =
     (case classify l of
        Skip \<Rightarrow> parse_lines sec ls
      | Section s \<Rightarrow> parse_lines s ls
      | KeyVal kv \<Rightarrow> (sec, kv) # parse_lines sec ls)"

text \<open>A text file: lines without control characters that end a line, each shorter than the buffer.\<close>

definition plain_line :: "cstr \<Rightarrow> bool" where
  "plain_line l \<longleftrightarrow> length l < READCONF_MAX_LINESIZE \<and>
     (\<forall>c \<in> set l. c \<noteq> CHR 0x0A \<and> c \<noteq> CHR 0x00 \<and> c \<noteq> CHR 0x0C \<and> c \<noteq> CHR 0x1A \<and> c \<noteq> CHR 0x0D)"

definition unlines :: "cstr list \<Rightarrow> cstr" where
  "unlines ls = concat (map (\<lambda>l. l @ [CHR 0x0A]) ls)"

lemma unlines_simps [simp]: "unlines [] = []" "unlines (l # ls) = l @ CHR 0x0A # unlines ls"
  by (simp_all add: unlines_def)

lemma readln_loop_line:
  "plain_line l \<Longrightarrow> i + length l < n \<Longrightarrow>
    readln_loop n i j b (l @ CHR 0x0A # f) = (int (i + length l), b @ l, f)"
  by (induction l arbitrary: i j b) (auto simp: plain_line_def Let_def)

lemma readln_unlines:
  assumes "plain_line l"
  shows "readln (l @ CHR 0x0A # f) READCONF_MAX_LINESIZE = (int (length l), l, f)"
  using assms readln_loop_line [of l 0 READCONF_MAX_LINESIZE 0 "[]" f]
  by (simp add: readln_def plain_line_def)

lemma readln_eof: "readln [] READCONF_MAX_LINESIZE = (- 1, [], [])"
  by (simp add: readln_def READCONF_MAX_LINESIZE_def)

lemma ConfGetNextPair_lines:
  assumes "\<forall>l \<in> set ls. plain_line l"
  shows "ConfGetNextPair \<lparr>contents = c, fp = unlines ls, secname = sec\<rparr> =
    (case next_in sec ls of (kv, sec', ls') \<Rightarrow> (kv, \<lparr>contents = c, fp = unlines ls', secname = sec'\<rparr>))"
  using assms
proof (induction ls arbitrary: sec)
  case Nil
  then show ?case
    by (subst ConfGetNextPair.simps) (simp add: readln_eof)
next
  case (Cons l ls)
  then have "readln (l @ CHR 0x0A # unlines ls) READCONF_MAX_LINESIZE = (int (length l), l, unlines ls)"
    by (simp add: readln_unlines)
  then show ?case
    using Cons
    by (subst ConfGetNextPair.simps)
      (auto simp: classify_def Let_def READCONF_NOTE_CHAR_def READCONF_SEC_BEGIN_def
        READCONF_SEC_END_def READCONF_SEPARATOR_def READCONF_MAX_SECNAME_def not_less)
qed

lemma parse_lines_next_in:
  "parse_lines sec ls =
     (case next_in sec ls of (None, _) \<Rightarrow> [] | (Some kv, sec', ls') \<Rightarrow> (sec', kv) # parse_lines sec' ls')"
  by (induction ls arbitrary: sec) (auto split: line_kind.split)

lemma next_in_plain:
  "next_in sec ls = (kv, sec', ls') \<Longrightarrow> \<forall>l \<in> set ls. plain_line l \<Longrightarrow> \<forall>l \<in> set ls'. plain_line l"
  by (induction ls arbitrary: sec) (auto split: line_kind.splits)

subsection \<open>No string of the reader contains a null\<close>

lemma no_null_snoc [simp]: "no_null []" "no_null (s @ [c]) \<longleftrightarrow> no_null s \<and> c \<noteq> CHR 0x00"
  by (auto simp: no_null_def)

lemma readln_loop_no_null:
  "readln_loop n i j b f = (nch, b', f') \<Longrightarrow> no_null b \<Longrightarrow> no_null b'"
proof (induction f arbitrary: i j b)
  case (Cons c f)
  show ?case
    using Cons.prems
    by (auto simp: Let_def split: if_splits elim: Cons.IH)
qed (auto split: if_splits)

lemma no_null_subset: "no_null s \<Longrightarrow> set t \<subseteq> set s \<Longrightarrow> no_null t"
  by (auto simp: no_null_def)

lemma no_null_sub [intro]:
  "no_null s \<Longrightarrow> no_null (dtrim s c)" "no_null s \<Longrightarrow> no_null (tl s)"
  "no_null s \<Longrightarrow> no_null (takeWhile P s)" "no_null s \<Longrightarrow> no_null (dropWhile P s)"
  using set_dtrim [of s c] by (auto elim!: no_null_subset intro: list.set_sel(2) dest: set_takeWhileD set_dropWhileD)

lemma no_null_splitpair:
  assumes "splitpair s c = (k, v)" "no_null s"
  shows "no_null k" "v = Some w \<Longrightarrow> no_null w"
  using assms
  by (auto simp: splitpair_def Let_def strchr_def cut_at_def split: if_splits option.splits
      intro!: no_null_sub)

lemma readln_no_null: "readln f n = (nch, b, f') \<Longrightarrow> no_null b"
  unfolding readln_def by (erule readln_loop_no_null) simp

text \<open>One step of the reader, as a case distinction on the line it reads.\<close>

lemma ConfGetNextPair_step:
  assumes "readln (fp cpos) READCONF_MAX_LINESIZE = (nch, l, rest)"
  shows "ConfGetNextPair cpos =
    (if nch < 0 then (None, cpos\<lparr>fp := rest\<rparr>)
     else case classify l of
       Skip \<Rightarrow> ConfGetNextPair (cpos\<lparr>fp := rest\<rparr>)
     | Section s \<Rightarrow> ConfGetNextPair (cpos\<lparr>fp := rest, secname := s\<rparr>)
     | KeyVal kv \<Rightarrow> (Some kv, cpos\<lparr>fp := rest\<rparr>))"
  using assms
  by (subst ConfGetNextPair.simps)
    (simp add: classify_def Let_def READCONF_NOTE_CHAR_def READCONF_SEC_BEGIN_def
        READCONF_SEC_END_def READCONF_SEPARATOR_def READCONF_MAX_SECNAME_def not_less)

lemma classify_KeyVal: "classify l = KeyVal kv \<Longrightarrow> \<exists>s. kv = splitpair s (CHR ''='') \<and> set s \<subseteq> set l"
  using subset_trans [OF set_dtrim [of "dtrim l (CHR 0x20)" "CHR 0x09"] set_dtrim [of l "CHR 0x20"]]
  by (intro exI [of _ "dtrim (dtrim l (CHR 0x20)) (CHR 0x09)"])
    (auto simp: classify_def Let_def split: if_splits)

lemma ConfGetNextPair_Some:
  assumes "ConfGetNextPair cpos = (Some (k, v), cpos')"
  shows "length (fp cpos') < length (fp cpos) \<and> contents cpos' = contents cpos \<and> no_null k \<and>
    (\<forall>w. v = Some w \<longrightarrow> no_null w)"
  using assms
proof (induction "length (fp cpos)" arbitrary: cpos rule: less_induct)
  case less
  obtain nch l rest where rd: "readln (fp cpos) READCONF_MAX_LINESIZE = (nch, l, rest)"
    by (cases "readln (fp cpos) READCONF_MAX_LINESIZE") auto
  note step = ConfGetNextPair_step [OF rd]
  have pos: "\<not> nch < 0" using less.prems step by (auto split: if_splits)
  then have len: "length rest < length (fp cpos)"
    using readln_length [OF rd [symmetric]] by (simp add: READCONF_MAX_LINESIZE_def)
  show ?case
  proof (cases "classify l")
    case Skip
    then show ?thesis
      using less.hyps [of "cpos\<lparr>fp := rest\<rparr>"] less.prems len pos step by auto
  next
    case (Section s)
    then show ?thesis
      using less.hyps [of "cpos\<lparr>fp := rest, secname := s\<rparr>"] less.prems len pos step by auto
  next
    case (KeyVal kv)
    moreover obtain s where "kv = splitpair s (CHR ''='')" "no_null s"
      using classify_KeyVal [OF KeyVal] readln_no_null [OF rd] no_null_subset by blast
    ultimately show ?thesis
      using less.prems len pos step no_null_splitpair [of s _ k v] by auto
  qed
qed

end
