(* ===== verification/KT_Types.thy ===== *)
theory KT_Types
  imports CString
begin

section \<open>Result codes and limits of the public interface\<close>

text \<open>The constants of \<open>src/src/kafkatools.h\<close>.\<close>

definition KAFKATOOLS_SUCCESS :: int where "KAFKATOOLS_SUCCESS = 0"
definition KAFKATOOLS_ERROR :: int where "KAFKATOOLS_ERROR = - 1"
definition KAFKATOOLS_ECONF :: int where "KAFKATOOLS_ECONF = - 2"
definition KAFKATOOLS_EARG :: int where "KAFKATOOLS_EARG = - 3"
definition KAFKATOOLS_ENOMEM :: int where "KAFKATOOLS_ENOMEM = - 4"
definition KAFKATOOLS_EFILE :: int where "KAFKATOOLS_EFILE = - 5"
definition KAFKATOOLS_EBREAK :: int where "KAFKATOOLS_EBREAK = - 6"
definition KAFKATOOLS_EPROPS :: int where "KAFKATOOLS_EPROPS = - 7"
definition KAFKATOOLS_EFATAL :: int where "KAFKATOOLS_EFATAL = - 10"

definition KAFKATOOLS_CONF_PROPS_MAX :: nat where "KAFKATOOLS_CONF_PROPS_MAX = 256"
definition KAFKATOOLS_TOPICS_MAX :: nat where "KAFKATOOLS_TOPICS_MAX = 1024"
definition KAFKATOOLS_PARTITIONID_MAX :: int where "KAFKATOOLS_PARTITIONID_MAX = 4095"
definition KAFKATOOLS_TOPIC_NAMELEN :: nat where "KAFKATOOLS_TOPIC_NAMELEN = 127"
definition KAFKATOOLS_ERRSTR_SIZE :: nat where "KAFKATOOLS_ERRSTR_SIZE = 256"
definition KAFKATOOLS_PROPSFILE_LEN_MAX :: nat where "KAFKATOOLS_PROPSFILE_LEN_MAX = 255"

lemmas kt_codes =
  KAFKATOOLS_SUCCESS_def KAFKATOOLS_ERROR_def KAFKATOOLS_ECONF_def KAFKATOOLS_EARG_def
  KAFKATOOLS_ENOMEM_def KAFKATOOLS_EFILE_def KAFKATOOLS_EBREAK_def KAFKATOOLS_EPROPS_def
  KAFKATOOLS_EFATAL_def

end
