(* ===== verification/KT_Props.thy ===== *)
theory KT_Props
  imports ReadConf KT_Types
begin

section \<open>Properties of a section\<close>

text \<open>
  The functions of \<open>src/src/kafkatools_producer.c\<close> that collect the properties of a section
  of a configuration file into one buffer (\<open>kafkatools_props_readconf\<close>) and cut the buffer
  into names and values (\<open>kafkatools_props_retrieve\<close>).  \<open>None\<close> is undefined behaviour: the
  length of a null string, or a read behind the buffer.
\<close>

definition selected :: "cstr option \<Rightarrow> conf_position \<Rightarrow> bool" where
  "selected section cpos \<longleftrightarrow>
     (case section of None \<Rightarrow> True | Some sec \<Rightarrow> strcmp (ConfGetSection cpos) sec = 0)"

definition pair_measure :: "(cstr \<times> cstr option) option \<times> conf_position \<Rightarrow> nat" where
  "pair_measure pc = (case pc of (None, _) \<Rightarrow> 0 | (Some _, cpos) \<Rightarrow> Suc (length (fp cpos)))"

lemma pair_measure_next: "pair_measure (ConfGetNextPair cpos) < pair_measure (Some kv, cpos)"
proof (cases "ConfGetNextPair cpos")
  case (Pair p c)
  then show ?thesis
    using ConfGetNextPair_Some [of cpos "fst (the p)" "snd (the p)" c]
    by (cases p) (simp_all add: pair_measure_def)
qed

text \<open>
  The first pass counts the properties and the bytes they need.  The count stays below
  \<open>KAFKATOOLS_CONF_PROPS_MAX\<close> and a line below \<open>READCONF_MAX_LINESIZE\<close>, so \<open>size_t\<close> does not
  wrap.
\<close>

function props_size_loop ::
    "cstr option \<Rightarrow> (cstr \<times> cstr option) option \<times> conf_position \<Rightarrow> nat \<Rightarrow> nat \<Rightarrow>
      (int + nat \<times> nat \<times> conf_position) option" where
  "props_size_loop section (None, cpos) props outsz = Some (Inr (props, outsz, cpos))"
| "props_size_loop section (Some (key, val), cpos) props outsz =
     (case
       (if selected section cpos then
          (case val of
             None \<Rightarrow> None
           | Some v \<Rightarrow> Some (Suc props, outsz + (length key + 1 + length v + 1)))
        else Some (props, outsz))
      of None \<Rightarrow> None
       | Some (props, outsz) \<Rightarrow>
           if props \<ge> KAFKATOOLS_CONF_PROPS_MAX then Some (Inl KAFKATOOLS_EPROPS)
           else props_size_loop section (ConfGetNextPair cpos) props outsz)"
  by pat_completeness auto
termination
  by (relation "measure (\<lambda>(_, pc, _, _). pair_measure pc)") (auto simp: pair_measure_next)

text \<open>The second pass; \<open>outbuf\<close> is the part of the buffer written so far, up to \<open>offset\<close>.\<close>

function props_copy_loop ::
    "cstr option \<Rightarrow> (cstr \<times> cstr option) option \<times> conf_position \<Rightarrow> nat \<Rightarrow> cstr \<Rightarrow>
      (int + cstr) option" where
  "props_copy_loop section (None, cpos) outsz outbuf = Some (Inr outbuf)"
| "props_copy_loop section (Some (key, val), cpos) outsz outbuf =
     (if selected section cpos then
        if length outbuf + (length key + 1) > outsz then Some (Inl KAFKATOOLS_EBREAK)
        else
          (let outbuf = outbuf @ key @ [CHR 0x00] in
           case val of
             None \<Rightarrow> None
           | Some v \<Rightarrow>
               if length outbuf + (length v + 1) > outsz then Some (Inl KAFKATOOLS_EBREAK)
               else props_copy_loop section (ConfGetNextPair cpos) outsz (outbuf @ v @ [CHR 0x00]))
      else props_copy_loop section (ConfGetNextPair cpos) outsz outbuf)"
  by pat_completeness auto
termination
  by (relation "measure (\<lambda>(_, pc, _, _). pair_measure pc)") (auto simp: pair_measure_next)

text \<open>
  \<open>conf_file\<close> is what \<open>fopen\<close> finds, \<open>alloc\<close> whether memory is left for the buffer:
  \<open>mem_alloc_unset\<close> exits otherwise.  The result is the return code and, where they are assigned, \<open>*propsbuf\<close> and \<open>*bufsz\<close>.
\<close>

definition kafkatools_props_readconf ::
    "cstr option \<Rightarrow> cstr option \<Rightarrow> bool \<Rightarrow> (int \<times> (cstr \<times> nat) option) option" where
  "kafkatools_props_readconf conf_file section alloc =
     (case ConfOpenFile conf_file of
        None \<Rightarrow> Some (KAFKATOOLS_EFILE, None)
      | Some cpos \<Rightarrow>
          (case props_size_loop section (ConfGetFirstPair cpos) 0 0 of
             None \<Rightarrow> None
           | Some (Inl e) \<Rightarrow> Some (e, None)
           | Some (Inr (props, outsz, cpos)) \<Rightarrow>
               if outsz = 0 then Some (0, None)
               else if \<not> alloc then None
               else
                 (case props_copy_loop section (ConfGetFirstPair cpos) outsz [] of
                    None \<Rightarrow> None
                  | Some (Inl e) \<Rightarrow> Some (e, None)
                  | Some (Inr outbuf) \<Rightarrow>
                      if length outbuf \<noteq> outsz then Some (KAFKATOOLS_EBREAK, None)
                      else Some (int props, Some (outbuf @ [CHR 0x00], outsz)))))"

text \<open>The string at an offset of a buffer; none when no null follows.\<close>

definition str_at :: "cstr \<Rightarrow> nat \<Rightarrow> cstr option" where
  "str_at buf p =
     (if CHR 0x00 \<in> set (drop p buf) then Some (takeWhile (\<lambda>c. c \<noteq> CHR 0x00) (drop p buf)) else None)"

text \<open>The pointer \<open>p\<close> of the code is always \<open>propsbuf + offset\<close>.\<close>

fun props_retrieve_loop ::
    "cstr \<Rightarrow> nat \<Rightarrow> nat \<Rightarrow> nat \<Rightarrow> cstr list \<Rightarrow> cstr list \<Rightarrow> (int \<times> cstr list \<times> cstr list) option" where
  "props_retrieve_loop propsbuf bufsz 0 offset propnames propvalues =
     Some (KAFKATOOLS_SUCCESS, propnames, propvalues)"
| "props_retrieve_loop propsbuf bufsz (Suc n) offset propnames propvalues =
     do {
       name \<leftarrow> str_at propsbuf offset;
       let offset = offset + (length name + 1);
       val \<leftarrow> str_at propsbuf offset;
       let offset = offset + (length val + 1);
       if offset > bufsz then Some (KAFKATOOLS_ERROR, propnames @ [name], propvalues @ [val])
       else props_retrieve_loop propsbuf bufsz n offset (propnames @ [name]) (propvalues @ [val])
     }"

definition kafkatools_props_retrieve ::
    "cstr option \<Rightarrow> nat \<Rightarrow> int \<Rightarrow> (int \<times> cstr list \<times> cstr list) option" where
  "kafkatools_props_retrieve propsbuf bufsz numprops =
     (if numprops \<le> 0 then Some (KAFKATOOLS_SUCCESS, [], [])
      else case propsbuf of
        None \<Rightarrow> None
      | Some buf \<Rightarrow> props_retrieve_loop buf bufsz (nat numprops) 0 [] [])"

subsection \<open>The pairs a pass visits\<close>

function all_pairs ::
    "(cstr \<times> cstr option) option \<times> conf_position \<Rightarrow> (cstr \<times> cstr \<times> cstr option) list" where
  "all_pairs (None, cpos) = []"
| "all_pairs (Some kv, cpos) = (secname cpos, kv) # all_pairs (ConfGetNextPair cpos)"
  by pat_completeness auto
termination
  by (relation "measure pair_measure") (auto simp: pair_measure_next)

function last_pos :: "(cstr \<times> cstr option) option \<times> conf_position \<Rightarrow> conf_position" where
  "last_pos (None, cpos) = cpos"
| "last_pos (Some kv, cpos) = last_pos (ConfGetNextPair cpos)"
  by pat_completeness auto
termination
  by (relation "measure pair_measure") (auto simp: pair_measure_next)

definition in_section :: "cstr option \<Rightarrow> cstr \<times> cstr \<times> cstr option \<Rightarrow> bool" where
  "in_section sct p \<longleftrightarrow> (case sct of None \<Rightarrow> True | Some sec \<Rightarrow> fst p = sec)"

abbreviation sel :: "cstr option \<Rightarrow> (cstr \<times> cstr \<times> cstr option) list \<Rightarrow> (cstr \<times> cstr \<times> cstr option) list" where
  "sel sct ps \<equiv> filter (in_section sct) ps"

text \<open>Every selected line has a separator, so that its value is not null.\<close>

definition has_values :: "(cstr \<times> cstr \<times> cstr option) list \<Rightarrow> bool" where
  "has_values ps \<longleftrightarrow> list_all (\<lambda>p. snd (snd p) \<noteq> None) ps"

definition encode :: "(cstr \<times> cstr \<times> cstr option) list \<Rightarrow> cstr" where
  "encode ps = concat (map (\<lambda>(_, k, v). k @ CHR 0x00 # the v @ [CHR 0x00]) ps)"

lemma encode_simps [simp]:
  "encode [] = []" "encode ((s, k, v) # ps) = k @ CHR 0x00 # the v @ CHR 0x00 # encode ps"
  by (simp_all add: encode_def)

lemma has_values_simps [simp]:
  "has_values []" "has_values ((s, k, v) # ps) \<longleftrightarrow> v \<noteq> None \<and> has_values ps"
  by (simp_all add: has_values_def)

lemma selected_in_section: "selected sct cpos \<longleftrightarrow> in_section sct (secname cpos, kv)"
  by (simp add: selected_def in_section_def ConfGetSection_def strcmp_eq_0 split: option.split)

lemma has_values_take: "has_values ps \<Longrightarrow> has_values (take n ps)"
  by (auto simp: has_values_def list_all_iff dest: in_set_takeD)

text \<open>The first pass reads the values of as many selected lines as are allowed, and stops there.\<close>

lemma props_size_loop_eq:
  "props < KAFKATOOLS_CONF_PROPS_MAX \<Longrightarrow>
    props_size_loop sct pc props outsz =
      (if \<not> has_values (take (KAFKATOOLS_CONF_PROPS_MAX - props) (sel sct (all_pairs pc))) then None
       else Some (if props + length (sel sct (all_pairs pc)) < KAFKATOOLS_CONF_PROPS_MAX
            then Inr (props + length (sel sct (all_pairs pc)),
                      outsz + length (encode (sel sct (all_pairs pc))), last_pos pc)
            else Inl KAFKATOOLS_EPROPS))"
proof (induction sct pc props outsz rule: props_size_loop.induct)
  case (2 sct key val cpos props outsz)
  show ?case
  proof (cases "in_section sct (secname cpos, key, val)")
    case True
    have k: "KAFKATOOLS_CONF_PROPS_MAX - props = Suc (KAFKATOOLS_CONF_PROPS_MAX - Suc props)"
      using "2.prems" by simp
    show ?thesis
    proof (cases val)
      case None
      then show ?thesis using True selected_in_section [of sct cpos "(key, val)"] k by simp
    next
      case (Some v)
      then show ?thesis
        using 2 True selected_in_section [of sct cpos "(key, val)"] k by (auto simp: not_le)
    qed
  next
    case False
    then show ?thesis
      using 2 selected_in_section [of sct cpos "(key, val)"] by (auto simp: not_le)
  qed
qed simp

lemma props_copy_loop_eq:
  "has_values (sel sct (all_pairs pc)) \<Longrightarrow> length outbuf \<le> outsz \<Longrightarrow>
    props_copy_loop sct pc outsz outbuf =
      Some (if length outbuf + length (encode (sel sct (all_pairs pc))) \<le> outsz
            then Inr (outbuf @ encode (sel sct (all_pairs pc))) else Inl KAFKATOOLS_EBREAK)"
proof (induction sct pc outsz outbuf rule: props_copy_loop.induct)
  case (2 sct key val cpos outsz outbuf)
  show ?case
  proof (cases "in_section sct (secname cpos, key, val)")
    case True
    then obtain v where "val = Some v" using "2.prems" by auto
    then show ?thesis
      using 2 True selected_in_section [of sct cpos "(key, val)"] by (simp add: Let_def)
  next
    case False
    then show ?thesis
      using 2 selected_in_section [of sct cpos "(key, val)"] by simp
  qed
qed simp

subsection \<open>Cutting the buffer\<close>

definition clean_pairs :: "(cstr \<times> cstr \<times> cstr option) list \<Rightarrow> bool" where
  "clean_pairs ps \<longleftrightarrow> list_all (\<lambda>(_, k, v). no_null k \<and> (\<forall>w. v = Some w \<longrightarrow> no_null w)) ps"

lemma all_pairs_clean: "clean_pairs (all_pairs (ConfGetNextPair cpos))"
proof (induction "length (fp cpos)" arbitrary: cpos rule: less_induct)
  case less
  show ?case
  proof (cases "ConfGetNextPair cpos")
    case (Pair p c)
    then show ?thesis
      using less ConfGetNextPair_Some [of cpos "fst (the p)" "snd (the p)" c]
      by (cases p) (auto simp: clean_pairs_def)
  qed
qed

lemma str_at_append:
  "no_null k \<Longrightarrow> p = length b \<Longrightarrow> str_at (b @ k @ CHR 0x00 # r) p = Some k"
  by (auto simp: str_at_def no_null_def takeWhile_append2)

lemma props_retrieve_encode:
  assumes "clean_pairs ps" "has_values ps" "length (b @ encode ps) \<le> bufsz"
  shows "props_retrieve_loop (b @ encode ps @ r) bufsz (length ps) (length b) ns vs =
    Some (KAFKATOOLS_SUCCESS, ns @ map (\<lambda>(_, k, _). k) ps, vs @ map (\<lambda>(_, _, v). the v) ps)"
  using assms
proof (induction ps arbitrary: b ns vs)
  case (Cons p ps)
  obtain s k v where p: "p = (s, k, Some v)"
    using Cons.prems(2) by (cases p) auto
  have "no_null k" "no_null v" "clean_pairs ps"
    using Cons.prems(1) by (auto simp: p clean_pairs_def)
  then show ?case
    using Cons.IH [of "b @ k @ CHR 0x00 # v @ [CHR 0x00]"] Cons.prems
      str_at_append [of k "length b" b "v @ CHR 0x00 # encode ps @ r"]
      str_at_append [of v "length b + (length k + 1)" "b @ k @ [CHR 0x00]" "encode ps @ r"]
    by (simp add: p Let_def add.assoc)
qed simp

subsection \<open>Text files\<close>

fun last_sec :: "cstr \<Rightarrow> cstr list \<Rightarrow> cstr" where
  "last_sec sec [] = sec"
| "last_sec sec (l # ls) = last_sec (case classify l of Section s \<Rightarrow> s | _ \<Rightarrow> sec) ls"

lemma last_sec_next_in:
  "last_sec sec ls = (case next_in sec ls of (None, sec', _) \<Rightarrow> sec' | (Some kv, sec', ls') \<Rightarrow> last_sec sec' ls')"
  by (induction ls arbitrary: sec) (auto split: line_kind.split)

lemma next_in_None: "next_in sec ls = (None, sec', ls') \<Longrightarrow> ls' = []"
  by (induction ls arbitrary: sec) (auto split: line_kind.splits)

lemma next_in_length: "next_in sec ls = (Some kv, sec', ls') \<Longrightarrow> length ls' < length ls"
  by (induction ls arbitrary: sec) (auto split: line_kind.splits intro: less_SucI)

lemma pairs_of_lines:
  assumes "\<forall>l \<in> set ls. plain_line l"
  shows "all_pairs (ConfGetNextPair \<lparr>contents = c, fp = unlines ls, secname = sec\<rparr>) = parse_lines sec ls \<and>
    last_pos (ConfGetNextPair \<lparr>contents = c, fp = unlines ls, secname = sec\<rparr>) =
      \<lparr>contents = c, fp = [], secname = last_sec sec ls\<rparr>"
  using assms
proof (induction "length ls" arbitrary: ls sec rule: less_induct)
  case less
  obtain p sec' ls' where n: "next_in sec ls = (p, sec', ls')"
    by (cases "next_in sec ls") auto
  note step = ConfGetNextPair_lines [OF less.prems, of c sec]
  show ?case
  proof (cases p)
    case None
    then show ?thesis
      using n step next_in_None [of sec ls] parse_lines_next_in [of sec ls] last_sec_next_in [of sec ls]
      by simp
  next
    case (Some kv)
    then have "length ls' < length ls" "\<forall>l \<in> set ls'. plain_line l"
      using n next_in_length [of sec ls] next_in_plain [OF n less.prems] by simp_all
    then show ?thesis
      using less.hyps [of ls' sec'] n step Some parse_lines_next_in [of sec ls] last_sec_next_in [of sec ls]
      by simp
  qed
qed

lemma size_lines:
  assumes "\<forall>l \<in> set ls. plain_line l" "ps = sel sct (parse_lines [] ls)"
  shows "props_size_loop sct (ConfGetNextPair \<lparr>contents = unlines ls, fp = unlines ls, secname = []\<rparr>) 0 0 =
    (if \<not> has_values (take KAFKATOOLS_CONF_PROPS_MAX ps) then None
     else Some (if length ps < KAFKATOOLS_CONF_PROPS_MAX
       then Inr (length ps, length (encode ps), \<lparr>contents = unlines ls, fp = [], secname = last_sec [] ls\<rparr>)
       else Inl KAFKATOOLS_EPROPS))"
  using props_size_loop_eq [of 0 sct "ConfGetNextPair \<lparr>contents = unlines ls, fp = unlines ls, secname = []\<rparr>" 0]
    pairs_of_lines [OF assms(1), of "unlines ls" "[]"] assms(2)
  by (simp add: KAFKATOOLS_CONF_PROPS_MAX_def)

lemma readconf_lines:
  assumes plain: "\<forall>l \<in> set ls. plain_line l"
    and ps: "ps = sel sct (parse_lines [] ls)" "has_values ps"
    and ps': "ps' = sel sct (parse_lines (last_sec [] ls) ls)" "has_values ps'"
  shows "kafkatools_props_readconf (Some (unlines ls)) sct alloc =
    (if KAFKATOOLS_CONF_PROPS_MAX \<le> length ps then Some (KAFKATOOLS_EPROPS, None)
      else if ps = [] then Some (0, None)
      else if \<not> alloc then None
      else if length (encode ps') \<noteq> length (encode ps) then Some (KAFKATOOLS_EBREAK, None)
      else Some (int (length ps), Some (encode ps' @ [CHR 0x00], length (encode ps))))"
proof -
  let ?c = "\<lparr>contents = unlines ls, fp = unlines ls, secname = []\<rparr>"
  let ?c' = "\<lparr>contents = unlines ls, fp = unlines ls, secname = last_sec [] ls\<rparr>"
  note p2 = pairs_of_lines [OF plain, of "unlines ls" "last_sec [] ls"]
  have e: "encode ps = [] \<longleftrightarrow> ps = []"
    by (cases ps) auto
  have "props_size_loop sct (ConfGetNextPair ?c) 0 0 =
      Some (if length ps < KAFKATOOLS_CONF_PROPS_MAX
        then Inr (length ps, length (encode ps), \<lparr>contents = unlines ls, fp = [], secname = last_sec [] ls\<rparr>)
        else Inl KAFKATOOLS_EPROPS)"
    using size_lines [OF plain ps(1)] has_values_take [OF ps(2)] by simp
  moreover have "props_copy_loop sct (ConfGetNextPair ?c') n [] =
      Some (if length (encode ps') \<le> n then Inr (encode ps') else Inl KAFKATOOLS_EBREAK)" for n
    using props_copy_loop_eq [of sct "ConfGetNextPair ?c'" "[]" n] p2 ps' by simp
  ultimately show ?thesis
    using e by (simp add: kafkatools_props_readconf_def ConfOpenFile_def ConfGetFirstPair_def not_less)
qed

lemma retrieve_encode:
  assumes "clean_pairs ps" "has_values ps"
  shows "kafkatools_props_retrieve (Some (encode ps @ [CHR 0x00])) (length (encode ps)) (int (length ps)) =
    Some (KAFKATOOLS_SUCCESS, map (\<lambda>(_, k, _). k) ps, map (\<lambda>(_, _, v). the v) ps)"
  using props_retrieve_encode [OF assms, of "[]" "length (encode ps)" "[CHR 0x00]" "[]" "[]"]
  by (simp add: kafkatools_props_retrieve_def)

text \<open>A file whose first line that is neither blank nor a comment is a section header.\<close>

fun header_first :: "cstr list \<Rightarrow> bool" where
  "header_first [] \<longleftrightarrow> True"
| "header_first (l # ls) \<longleftrightarrow>
     (case classify l of Skip \<Rightarrow> header_first ls | Section _ \<Rightarrow> True | KeyVal _ \<Rightarrow> False)"

lemma header_first_parse: "header_first ls \<Longrightarrow> parse_lines sec ls = parse_lines sec' ls"
  by (induction ls) (auto split: line_kind.splits)

lemma parse_lines_clean:
  assumes "\<forall>l \<in> set ls. plain_line l"
  shows "clean_pairs (sel sct (parse_lines sec ls))"
  using all_pairs_clean [of "\<lparr>contents = [], fp = unlines ls, secname = sec\<rparr>"]
    pairs_of_lines [OF assms, of "[]" sec]
  by (auto simp: clean_pairs_def list_all_iff)

subsection \<open>Printed configurations\<close>

text \<open>A configuration as its sections and their pairs, and the lines that write it down.\<close>

type_synonym config = "(cstr \<times> (cstr \<times> cstr) list) list"

definition blank :: "char \<Rightarrow> bool" where
  "blank c \<longleftrightarrow> c = CHR 0x20 \<or> c = CHR 0x09"

definition wf_sec :: "cstr \<Rightarrow> bool" where
  "wf_sec s \<longleftrightarrow> s \<noteq> [] \<and> length s \<le> 254 \<and> plain_line s"

definition wf_pair :: "cstr \<times> cstr \<Rightarrow> bool" where
  "wf_pair = (\<lambda>(k, v).
     k \<noteq> [] \<and> v \<noteq> [] \<and> CHR ''='' \<notin> set k \<and> hd k \<noteq> CHR ''#'' \<and> hd k \<noteq> CHR ''['' \<and>
     \<not> blank (hd k) \<and> \<not> blank (last k) \<and> \<not> blank (hd v) \<and> \<not> blank (last v) \<and>
     hd v \<noteq> CHR 0x22 \<and> last v \<noteq> CHR 0x22 \<and> plain_line (k @ CHR ''='' # v))"

definition wf_config :: "config \<Rightarrow> bool" where
  "wf_config cfg \<longleftrightarrow> list_all (\<lambda>(s, kvs). wf_sec s \<and> list_all wf_pair kvs) cfg"

definition sec_line :: "cstr \<Rightarrow> cstr" where
  "sec_line s = CHR ''['' # s @ [CHR '']'']"

definition pair_line :: "cstr \<times> cstr \<Rightarrow> cstr" where
  "pair_line = (\<lambda>(k, v). k @ CHR ''='' # v)"

definition print_config :: "config \<Rightarrow> cstr list" where
  "print_config cfg = concat (map (\<lambda>(s, kvs). sec_line s # map pair_line kvs) cfg)"

definition config_pairs :: "config \<Rightarrow> (cstr \<times> cstr \<times> cstr option) list" where
  "config_pairs cfg = concat (map (\<lambda>(s, kvs). map (\<lambda>(k, v). (s, k, Some v)) kvs) cfg)"

lemma classify_sec_line: "wf_sec s \<Longrightarrow> classify (sec_line s) = Section s"
  by (cases s) (auto simp: wf_sec_def classify_def sec_line_def dtrim_id Let_def)

lemma split_at_notin:
  "c \<notin> set k \<Longrightarrow> takeWhile (\<lambda>d. d \<noteq> c) (k @ c # v) = k"
  "c \<notin> set k \<Longrightarrow> dropWhile (\<lambda>d. d \<noteq> c) (k @ c # v) = c # v"
  by (induction k) auto

lemma splitpair_line:
  assumes "wf_pair (k, v)"
  shows "splitpair (k @ CHR ''='' # v) (CHR ''='') = (k, Some v)"
proof -
  have "takeWhile (\<lambda>d. d \<noteq> CHR ''='') (k @ CHR ''='' # v) = k"
    "dropWhile (\<lambda>d. d \<noteq> CHR ''='') (k @ CHR ''='' # v) = CHR ''='' # v"
    using assms by (simp_all add: wf_pair_def split_at_notin)
  moreover have "dtrim (dtrim k (CHR 0x20)) (CHR 0x09) = k"
    "dtrim (dtrim (dtrim v (CHR 0x20)) (CHR 0x09)) (CHR 0x22) = v"
    using assms by (auto simp: wf_pair_def blank_def dtrim_id)
  ultimately show ?thesis
    by (simp add: splitpair_def strchr_def cut_at_def Let_def)
qed

lemma classify_pair_line:
  assumes "wf_pair (k, v)"
  shows "classify (pair_line (k, v)) = KeyVal (k, Some v)"
proof -
  let ?l = "k @ CHR ''='' # v"
  have "dtrim (dtrim ?l (CHR 0x20)) (CHR 0x09) = ?l"
    using assms by (auto simp: wf_pair_def blank_def dtrim_id)
  moreover have "?l \<noteq> []" "hd ?l \<noteq> CHR ''#''" "hd ?l \<noteq> CHR ''[''" "\<not> length ?l \<le> 2"
    using assms by (auto simp: wf_pair_def hd_append neq_Nil_conv)
  ultimately show ?thesis
    using splitpair_line [OF assms] by (simp add: classify_def pair_line_def Let_def)
qed

lemma parse_pair_lines:
  "list_all wf_pair kvs \<Longrightarrow> parse_lines s (map pair_line kvs @ ls) = map (\<lambda>(k, v). (s, k, Some v)) kvs @ parse_lines s ls"
  by (induction kvs) (auto simp: classify_pair_line)

lemma parse_print: "wf_config cfg \<Longrightarrow> parse_lines sec (print_config cfg) = config_pairs cfg"
  by (induction cfg arbitrary: sec)
    (auto simp: wf_config_def print_config_def config_pairs_def classify_sec_line parse_pair_lines)

lemma header_first_print: "wf_config cfg \<Longrightarrow> header_first (print_config cfg)"
  by (cases cfg) (auto simp: wf_config_def print_config_def classify_sec_line)

lemma plain_sec_line: "wf_sec s \<Longrightarrow> plain_line (sec_line s)"
  by (simp add: wf_sec_def sec_line_def plain_line_def READCONF_MAX_LINESIZE_def)

lemma plain_pair_line: "wf_pair kv \<Longrightarrow> plain_line (pair_line kv)"
  by (simp add: wf_pair_def pair_line_def split: prod.splits)

lemma plain_print: "wf_config cfg \<Longrightarrow> \<forall>l \<in> set (print_config cfg). plain_line l"
  by (auto simp: wf_config_def print_config_def list_all_iff plain_sec_line plain_pair_line)

lemma has_values_config: "has_values (sel sct (config_pairs cfg))"
  by (auto simp: has_values_def list_all_iff config_pairs_def)

definition section_pairs :: "cstr \<Rightarrow> config \<Rightarrow> (cstr \<times> cstr) list" where
  "section_pairs sec cfg = concat (map (\<lambda>(s, kvs). if s = sec then kvs else []) cfg)"

lemma sel_config_pairs:
  "sel (Some sec) (config_pairs cfg) = map (\<lambda>(k, v). (sec, k, Some v)) (section_pairs sec cfg)"
  by (induction cfg)
    (auto simp: config_pairs_def section_pairs_def in_section_def filter_map comp_def split_def)

subsection \<open>A pair before the first header\<close>

fun heads :: "cstr list \<Rightarrow> (cstr \<times> cstr option) list" where
  "heads [] = []"
| "heads (l # ls) =
     (case classify l of Skip \<Rightarrow> heads ls | Section _ \<Rightarrow> [] | KeyVal kv \<Rightarrow> kv # heads ls)"

fun tails :: "cstr list \<Rightarrow> (cstr \<times> cstr \<times> cstr option) list" where
  "tails [] = []"
| "tails (l # ls) =
     (case classify l of Skip \<Rightarrow> tails ls | Section s \<Rightarrow> parse_lines s ls | KeyVal kv \<Rightarrow> tails ls)"

lemma parse_heads_tails: "parse_lines sec ls = map (\<lambda>kv. (sec, kv)) (heads ls) @ tails ls"
  by (induction ls) (auto split: line_kind.split)

lemma heads_header_first: "heads ls \<noteq> [] \<longleftrightarrow> \<not> header_first ls"
  by (induction ls) (auto split: line_kind.split)

subsection \<open>Main results\<close>

text \<open>
  C17: Reading the properties of a section of a printed configuration and cutting the buffer
  gives back exactly the names and the values of that section, in order, whatever other
  sections the file has and however often the section is reopened.
\<close>

theorem props_roundtrip:
  assumes "wf_config cfg" "section_pairs sec cfg \<noteq> []"
    "length (section_pairs sec cfg) < KAFKATOOLS_CONF_PROPS_MAX"
  shows "\<exists>buf sz. kafkatools_props_readconf (Some (unlines (print_config cfg))) (Some sec) True =
      Some (int (length (section_pairs sec cfg)), Some (buf, sz)) \<and>
    kafkatools_props_retrieve (Some buf) sz (int (length (section_pairs sec cfg))) =
      Some (KAFKATOOLS_SUCCESS, map fst (section_pairs sec cfg), map snd (section_pairs sec cfg))"
proof -
  let ?ls = "print_config cfg" and ?ps = "sel (Some sec) (config_pairs cfg)"
  have "parse_lines sec' ?ls = config_pairs cfg" for sec'
    using parse_print [OF assms(1)] .
  then have "kafkatools_props_readconf (Some (unlines ?ls)) (Some sec) True =
      Some (int (length ?ps), Some (encode ?ps @ [CHR 0x00], length (encode ?ps)))"
    using readconf_lines [OF plain_print [OF assms(1)] refl _ refl, of "Some sec" True]
      has_values_config [of "Some sec" cfg] assms(2,3) by (simp add: sel_config_pairs)
  moreover have "clean_pairs ?ps"
    using parse_lines_clean [OF plain_print [OF assms(1)], of "Some sec" "[]"] parse_print [OF assms(1)]
    by simp
  ultimately show ?thesis
    using retrieve_encode [of ?ps] has_values_config [of "Some sec" cfg]
    by (auto simp: sel_config_pairs comp_def split_def)
qed

theorem props_roundtrip_witness:
  "\<exists>buf sz. kafkatools_props_readconf
      (Some (unlines (print_config [(''t'', [(''ab'', ''c'')]), (''u'', [(''x'', ''y'')]), (''t'', [(''d'', ''e'')])])))
      (Some ''t'') True = Some (2, Some (buf, sz)) \<and>
    kafkatools_props_retrieve (Some buf) sz 2 = Some (0, [''ab'', ''d''], [''c'', ''e''])"
proof -
  let ?cfg = "[(''t'', [(''ab'', ''c'')]), (''u'', [(''x'', ''y'')]), (''t'', [(''d'', ''e'')])] :: config"
  have wf: "wf_config ?cfg" by code_simp
  have sec: "section_pairs ''t'' ?cfg = [(''ab'', ''c''), (''d'', ''e'')]" by code_simp
  show ?thesis
    using props_roundtrip [OF wf, of "''t''"] unfolding sec
    by (simp add: KAFKATOOLS_CONF_PROPS_MAX_def KAFKATOOLS_SUCCESS_def)
qed

text \<open>
  C35: \<open>kafkatools_props_readconf\<close> on a file that cannot be opened, and on every branch for a text
  file whose first entry is a section header.  Among the lines of the section up to the limit, one
  without a separator has no value and is read through a null pointer.  Otherwise the outcome is too
  many properties, none, no memory, or their number and the buffer of null-terminated names and
  values; the two passes over such a file never disagree.
\<close>

theorem readconf_header_first:
  assumes "\<forall>l \<in> set ls. plain_line l" "header_first ls"
  shows "kafkatools_props_readconf None sct alloc = Some (KAFKATOOLS_EFILE, None) \<and>
    kafkatools_props_readconf (Some (unlines ls)) sct alloc =
    (let ps = sel sct (parse_lines [] ls) in
     if \<exists>p \<in> set (take KAFKATOOLS_CONF_PROPS_MAX ps). snd (snd p) = None then None
     else if KAFKATOOLS_CONF_PROPS_MAX \<le> length ps then Some (KAFKATOOLS_EPROPS, None)
     else if ps = [] then Some (0, None)
     else if \<not> alloc then None
     else Some (int (length ps), Some (encode ps @ [CHR 0x00], length (encode ps))))"
proof
  show "kafkatools_props_readconf None sct alloc = Some (KAFKATOOLS_EFILE, None)"
    by (simp add: kafkatools_props_readconf_def ConfOpenFile_def)
next
  let ?ps = "sel sct (parse_lines [] ls)"
  have v: "(\<exists>p \<in> set (take KAFKATOOLS_CONF_PROPS_MAX ?ps). snd (snd p) = None) \<longleftrightarrow> \<not> has_values (take KAFKATOOLS_CONF_PROPS_MAX ?ps)"
    by (auto simp: has_values_def list_all_iff)
  show "kafkatools_props_readconf (Some (unlines ls)) sct alloc =
    (let ps = ?ps in
     if \<exists>p \<in> set (take KAFKATOOLS_CONF_PROPS_MAX ps). snd (snd p) = None then None
     else if KAFKATOOLS_CONF_PROPS_MAX \<le> length ps then Some (KAFKATOOLS_EPROPS, None)
     else if ps = [] then Some (0, None)
     else if \<not> alloc then None
     else Some (int (length ps), Some (encode ps @ [CHR 0x00], length (encode ps))))"
  proof (cases "has_values (take KAFKATOOLS_CONF_PROPS_MAX ?ps) \<and> length ?ps < KAFKATOOLS_CONF_PROPS_MAX")
    case True
    then have "has_values ?ps" by (metis take_all less_imp_le)
    then show ?thesis
      using readconf_lines [OF assms(1) refl _ refl, of sct alloc] header_first_parse [OF assms(2), of "last_sec [] ls" "[]"] True v
      by (simp add: Let_def)
  next
    case False
    then show ?thesis
      using size_lines [OF assms(1) refl, of sct] v
      by (auto simp: Let_def kafkatools_props_readconf_def ConfOpenFile_def ConfGetFirstPair_def)
  qed
qed

theorem readconf_header_first_witness:
  "kafkatools_props_readconf (Some (unlines [''# note'', ''[a]'', ''x=1'', ''[b]'', ''yyy''])) (Some ''a'') True =
     Some (1, Some (''x'' @ [CHR 0x00, CHR ''1'', CHR 0x00, CHR 0x00], 4)) \<and>
   kafkatools_props_readconf (Some (unlines [''# note'', ''[a]'', ''x=1'', ''[b]'', ''yyy''])) (Some ''b'') True = None"
proof -
  let ?ls = "[''# note'', ''[a]'', ''x=1'', ''[b]'', ''yyy''] :: cstr list"
  have l: "\<forall>l \<in> set ?ls. plain_line l" "header_first ?ls" by code_simp+
  have "sel (Some ''a'') (parse_lines [] ?ls) = [(''a'', ''x'', Some ''1'')]"
    "sel (Some ''b'') (parse_lines [] ?ls) = [(''b'', ''yyy'', None)]" by code_simp+
  then show ?thesis
    using readconf_header_first [OF l, of "Some ''a''" True] readconf_header_first [OF l, of "Some ''b''" True]
    by (simp add: KAFKATOOLS_CONF_PROPS_MAX_def)
qed

text \<open>
  \<open>ConfGetFirstPair\<close> does not reset the section name, so in the second pass the pairs
  before the first header belong to the last section of the file: when that section is asked
  for, the sizes of the two passes differ and the call fails with \<open>KAFKATOOLS_EBREAK\<close>.
\<close>

theorem readconf_stale_section:
  assumes "\<forall>l \<in> set ls. plain_line l" "\<not> header_first ls" "has_values (parse_lines [] ls)"
    "last_sec [] ls \<noteq> []" "sel (Some (last_sec [] ls)) (parse_lines [] ls) \<noteq> []"
    "length (sel (Some (last_sec [] ls)) (parse_lines [] ls)) < KAFKATOOLS_CONF_PROPS_MAX"
  shows "kafkatools_props_readconf (Some (unlines ls)) (Some (last_sec [] ls)) True =
    Some (KAFKATOOLS_EBREAK, None)"
proof -
  let ?s = "last_sec [] ls"
  let ?h = "map (\<lambda>kv. (?s, kv)) (heads ls)" and ?t = "sel (Some ?s) (tails ls)"
  have p: "sel (Some ?s) (parse_lines [] ls) = ?t" "sel (Some ?s) (parse_lines ?s ls) = ?h @ ?t"
    using assms(4) by (auto simp: parse_heads_tails [of _ ls] in_section_def filter_empty_conv)
  have v: "has_values ?t" "has_values (?h @ ?t)"
    using assms(3) by (auto simp: parse_heads_tails [of _ ls] has_values_def list_all_iff ball_Un)
  have "encode ?h \<noteq> []"
    using assms(2) heads_header_first [of ls] by (cases "heads ls") auto
  then have "length (encode (?h @ ?t)) \<noteq> length (encode ?t)"
    by (simp add: encode_def)
  then show ?thesis
    using readconf_lines [OF assms(1) p(1) [symmetric] v(1) p(2) [symmetric] v(2), of True] assms(5,6) p(1)
    by simp
qed

theorem readconf_stale_section_witness:
  "kafkatools_props_readconf (Some (unlines [''k=v'', ''[s]'', ''a=b''])) (Some ''s'') True =
    Some (KAFKATOOLS_EBREAK, None)"
proof -
  let ?ls = "[''k=v'', ''[s]'', ''a=b''] :: cstr list"
  have "\<forall>l \<in> set ?ls. plain_line l" "\<not> header_first ?ls" "has_values (parse_lines [] ?ls)"
    by code_simp+
  moreover have s: "last_sec [] ?ls = ''s''" by code_simp
  moreover have "sel (Some ''s'') (parse_lines [] ?ls) = [(''s'', ''a'', Some ''b'')]" by code_simp
  ultimately show ?thesis
    using readconf_stale_section [of ?ls] by (simp add: KAFKATOOLS_CONF_PROPS_MAX_def)
qed
end
