(* ===== verification/KT_Env.thy ===== *)
theory KT_Env
  imports KT_Types
begin

section \<open>librdkafka and the system, as seen by the library\<close>

text \<open>
  The library calls librdkafka, the allocator and the thread library.  Every such call is an
  event of a trace, with its answer.  The environment is the set of functions that answer,
  each from the trace so far; all definitions take it as an argument.  A configuration that is
  passed to \<open>rd_kafka_topic_new\<close> is the event \<open>TopicConfGiven\<close> in front of that call, which takes it
  over, whatever it answers.  What the library
  relies on is stated as a predicate on the environment, from the documentation in
  \<open>rdkafka.h\<close>.  A handle of a topic is a value of the type \<open>'h\<close>; a null handle is \<open>None\<close>.
\<close>

datatype 'h event =
    Alloc bool
  | Free
  | ConfNew bool
  | ConfSet cstr cstr int
  | ConfSetDrMsgCb bool
  | ConfSetOpaque
  | ConfSetDefaultTopicConf
  | ConfDestroy
  | TopicConfNew bool
  | TopicConfSetOpaque
  | TopicConfSet cstr cstr int
  | TopicConfDestroy
  | TopicConfGiven
  | TplistNew bool
  | TplistAdd cstr int
  | TplistAddRange cstr int int
  | TplistDestroy
  | KafkaNew bool
  | BrokersAdd cstr int
  | PollSetConsumer int
  | Flush bool
  | Poll int
  | KafkaDestroy
  | MutexInit int
  | MutexLock
  | MutexDestroy
  | TopicNew cstr "'h option"
  | TopicDestroy 'h
  | Produce 'h int int

type_synonym 'h trace = "'h event list"

record 'h env =
  env_alloc :: "'h trace \<Rightarrow> bool"
  env_conf_new :: "'h trace \<Rightarrow> bool"
  env_conf_set :: "'h trace \<Rightarrow> cstr \<Rightarrow> cstr \<Rightarrow> int"
  env_topic_conf_new :: "'h trace \<Rightarrow> bool"
  env_topic_conf_set :: "'h trace \<Rightarrow> cstr \<Rightarrow> cstr \<Rightarrow> int"
  env_tplist_new :: "'h trace \<Rightarrow> bool"
  env_kafka_new :: "'h trace \<Rightarrow> bool"
  env_brokers_add :: "'h trace \<Rightarrow> cstr \<Rightarrow> int"
  env_poll_set_consumer :: "'h trace \<Rightarrow> int"
  env_flush_timed_out :: "'h trace \<Rightarrow> bool"
  env_mutex_init :: "'h trace \<Rightarrow> int"
  env_topic_new :: "'h trace \<Rightarrow> cstr \<Rightarrow> 'h option"
  env_produce :: "'h trace \<Rightarrow> 'h \<Rightarrow> int \<Rightarrow> int"
  env_last_error :: "'h trace \<Rightarrow> int"
  env_topic_name :: "'h \<Rightarrow> cstr"
  env_err2str :: "int \<Rightarrow> cstr"

text \<open>The answers of \<open>rd_kafka_conf_set\<close> the code tests (\<open>rd_kafka_conf_res_t\<close>).\<close>

definition RD_KAFKA_CONF_UNKNOWN :: int where "RD_KAFKA_CONF_UNKNOWN = - 2"
definition RD_KAFKA_CONF_OK :: int where "RD_KAFKA_CONF_OK = 0"
definition RD_KAFKA_RESP_ERR__QUEUE_FULL :: int where "RD_KAFKA_RESP_ERR__QUEUE_FULL = - 184"

subsection \<open>Accounting over a trace\<close>

text \<open>How many references to a topic handle the program holds.\<close>

definition topic_delta :: "'h \<Rightarrow> 'h event \<Rightarrow> int" where
  "topic_delta h e =
     (case e of
        TopicNew _ r \<Rightarrow> if r = Some h then 1 else 0
      | TopicDestroy h' \<Rightarrow> if h' = h then - 1 else 0
      | _ \<Rightarrow> 0)"

definition refs :: "'h trace \<Rightarrow> 'h \<Rightarrow> int" where
  "refs tr h = sum_list (map (topic_delta h) tr)"

lemma refs_simps [simp]: "refs [] h = 0" "refs (tr @ tr') h = refs tr h + refs tr' h"
  "refs (e # tr) h = topic_delta h e + refs tr h"
  by (simp_all add: refs_def)

lemma topic_delta_simps [simp]:
  "topic_delta h (TopicNew n r) = (if r = Some h then 1 else 0)"
  "topic_delta h (TopicDestroy h') = (if h' = h then - 1 else 0)"
  "topic_delta h (Produce h' i j) = 0" "topic_delta h (Poll i) = 0" "topic_delta h MutexLock = 0"
  "topic_delta h MutexDestroy = 0" "topic_delta h KafkaDestroy = 0" "topic_delta h Free = 0"
  "topic_delta h (Flush b) = 0" "topic_delta h (Alloc b) = 0" "topic_delta h (ConfNew b) = 0"
  "topic_delta h (ConfSet n v r') = 0" "topic_delta h (ConfSetDrMsgCb b) = 0" "topic_delta h ConfSetOpaque = 0"
  "topic_delta h ConfDestroy = 0" "topic_delta h (KafkaNew b) = 0" "topic_delta h (MutexInit i) = 0"
  "topic_delta h ConfSetDefaultTopicConf = 0" "topic_delta h (TopicConfNew b) = 0"
  "topic_delta h TopicConfSetOpaque = 0" "topic_delta h (TopicConfSet n v r') = 0"
  "topic_delta h TopicConfDestroy = 0" "topic_delta h TopicConfGiven = 0" "topic_delta h (TplistNew b) = 0" "topic_delta h (TplistAdd n i) = 0"
  "topic_delta h (TplistAddRange n i j) = 0" "topic_delta h TplistDestroy = 0"
  "topic_delta h (BrokersAdd n i) = 0" "topic_delta h (PollSetConsumer i) = 0"
  by (simp_all add: topic_delta_def)

text \<open>The other resources: what a call acquires, gives away or releases.\<close>

datatype resource = Memory | Conf | TopicConf | Tplist | Kafka

definition delta :: "resource \<Rightarrow> 'h event \<Rightarrow> int" where
  "delta r e =
     (case e of
        Alloc ok \<Rightarrow> if ok \<and> r = Memory then 1 else 0
      | Free \<Rightarrow> if r = Memory then - 1 else 0
      | ConfNew ok \<Rightarrow> if ok \<and> r = Conf then 1 else 0
      | ConfDestroy \<Rightarrow> if r = Conf then - 1 else 0
      | TopicConfNew ok \<Rightarrow> if ok \<and> r = TopicConf then 1 else 0
      | TopicConfDestroy \<Rightarrow> if r = TopicConf then - 1 else 0
      | TopicConfGiven \<Rightarrow> if r = TopicConf then - 1 else 0
      | ConfSetDefaultTopicConf \<Rightarrow> if r = TopicConf then - 1 else 0
      | TplistNew ok \<Rightarrow> if ok \<and> r = Tplist then 1 else 0
      | TplistDestroy \<Rightarrow> if r = Tplist then - 1 else 0
      | KafkaNew ok \<Rightarrow> if \<not> ok then 0 else if r = Kafka then 1 else if r = Conf then - 1 else 0
      | KafkaDestroy \<Rightarrow> if r = Kafka then - 1 else 0
      | _ \<Rightarrow> 0)"

definition owned :: "'h trace \<Rightarrow> resource \<Rightarrow> int" where
  "owned tr r = sum_list (map (delta r) tr)"

lemma owned_simps [simp]: "owned [] r = 0" "owned (tr @ tr') r = owned tr r + owned tr' r"
  "owned (e # tr) r = delta r e + owned tr r"
  by (simp_all add: owned_def)

lemma delta_simps [simp]:
  "delta r (TopicNew n h') = 0" "delta r (TopicDestroy h) = 0" "delta r (Produce h i j) = 0" "delta r (Poll i) = 0"
  "delta r MutexLock = 0" "delta r MutexDestroy = 0" "delta r (MutexInit i) = 0" "delta r (Flush b) = 0"
  "delta r (ConfSet n v res) = 0" "delta r (ConfSetDrMsgCb b) = 0" "delta r ConfSetOpaque = 0"
  "delta r (Alloc b) = (if b \<and> r = Memory then 1 else 0)" "delta r Free = (if r = Memory then - 1 else 0)"
  "delta r (ConfNew b) = (if b \<and> r = Conf then 1 else 0)" "delta r ConfDestroy = (if r = Conf then - 1 else 0)"
  "delta r (KafkaNew b) = (if \<not> b then 0 else if r = Kafka then 1 else if r = Conf then - 1 else 0)"
  "delta r KafkaDestroy = (if r = Kafka then - 1 else 0)"
  "delta r ConfSetDefaultTopicConf = (if r = TopicConf then - 1 else 0)"
  "delta r (TopicConfNew b) = (if b \<and> r = TopicConf then 1 else 0)" "delta r TopicConfSetOpaque = 0"
  "delta r (TopicConfSet n v res) = 0" "delta r TopicConfDestroy = (if r = TopicConf then - 1 else 0)"
  "delta r TopicConfGiven = (if r = TopicConf then - 1 else 0)"
  "delta r (TplistNew b) = (if b \<and> r = Tplist then 1 else 0)" "delta r (TplistAdd n i) = 0"
  "delta r (TplistAddRange n i j) = 0" "delta r TplistDestroy = (if r = Tplist then - 1 else 0)"
  "delta r (BrokersAdd n i) = 0" "delta r (PollSetConsumer i) = 0"
  by (simp_all add: delta_def)

text \<open>
  What \<open>rdkafka.h\<close> documents of \<open>rd_kafka_topic_new\<close>: the handle has the name asked for, and
  while a handle of that name is held, the same handle is returned.
\<close>

definition topic_new_documented :: "'h env \<Rightarrow> bool" where
  "topic_new_documented env \<longleftrightarrow>
     (\<forall>tr n h. env_topic_new env tr n = Some h \<longrightarrow>
        env_topic_name env h = n \<and>
        (\<forall>h'. refs tr h' > 0 \<and> env_topic_name env h' = n \<longrightarrow> h' = h))"

end
