(* ===== verification/KT_Topics.thy ===== *)
theory KT_Topics
  imports KT_Env RB_Main
begin

section \<open>The cache of topic handles\<close>

text \<open>
  Producer and consumer keep the topic handles they hold in a red-black tree, ordered by the
  names of the topics (\<open>rktopic_name_cmp\<close>).  The interface they use of the tree is a locale;
  it is interpreted on the container with that comparison.
\<close>

definition rktopic_name_cmp :: "'h env \<Rightarrow> 'h \<Rightarrow> 'h \<Rightarrow> int" where
  "rktopic_name_cmp env newObject nodeObject =
     strcmp (env_topic_name env newObject) (env_topic_name env nodeObject)"

definition rktopic_object_release :: "'h \<Rightarrow> 'h trace \<Rightarrow> 'h trace" where
  "rktopic_object_release obj tr = tr @ [TopicDestroy obj]"

interpretation topic_keys: keycmp_order "rktopic_name_cmp env" for env
  by unfold_locales (auto simp: rktopic_name_cmp_def intro: strcmp_trans strcmp_keys.cmp_sgn)

subsection \<open>The interface of the container\<close>

locale unique_container =
  fixes cmp :: "'a \<Rightarrow> 'a \<Rightarrow> int"
    and rep :: "'s \<Rightarrow> 'a set \<Rightarrow> bool"
    and find :: "'a \<Rightarrow> 's \<Rightarrow> ptr option"
    and insert_unique :: "'a \<Rightarrow> 's \<Rightarrow> (ptr \<times> bool \<times> 's) option"
    and traverse :: "('a \<Rightarrow> 'c \<Rightarrow> 'c) \<Rightarrow> 'c \<Rightarrow> 's \<Rightarrow> 'c option"
    and clean :: "'s option \<Rightarrow> 's option option"
    and room :: "'s \<Rightarrow> bool"
  assumes find_law: "rep s X \<Longrightarrow> \<exists>p. find k s = Some p \<and> (p \<noteq> NULL \<longleftrightarrow> (\<exists>x \<in> X. cmp k x = 0))"
    and insert_law: "rep s X \<Longrightarrow> \<forall>x \<in> X. cmp k x \<noteq> 0 \<Longrightarrow> insert_unique k s = Some (p, b, s') \<Longrightarrow>
      b \<and> p \<noteq> NULL \<and> rep s' (insert k X)"
    and insert_total: "rep s X \<Longrightarrow> room s \<Longrightarrow> \<exists>r. insert_unique k s = Some r"
    and traverse_law: "rep s X \<Longrightarrow> \<exists>xs. traverse f c s = Some (fold f xs c) \<and> distinct xs \<and> set xs = X"
    and clean_law: "rep s X \<Longrightarrow> \<exists>s'. clean (Some s) = Some (Some s') \<and> rep s' {}"
begin

text \<open>Looking a key up and inserting it where it is missing, as the clients do.\<close>

lemma lookup_found:
  assumes "rep s X" "find k s = Some p" "p \<noteq> NULL"
  shows "\<exists>x \<in> X. cmp k x = 0"
  using find_law [OF assms(1), of k] assms(2,3) by auto

lemma lookup_missing:
  assumes "rep s X" "find k s = Some NULL"
  shows "\<forall>x \<in> X. cmp k x \<noteq> 0"
  using find_law [OF assms(1), of k] assms(2) by auto

lemma lookup_insert:
  assumes "rep s X" "find k s = Some NULL" "insert_unique k s = Some (p, b, s')"
  shows "b \<and> p \<noteq> NULL \<and> rep s' (insert k X)"
  using insert_law [OF assms(1) lookup_missing [OF assms(1,2)] assms(3)] .

lemma lookup_insert_total:
  assumes "rep s X" "\<forall>x \<in> X. cmp k x \<noteq> 0" "room s"
  shows "find k s = Some NULL \<and> (\<exists>p s'. insert_unique k s = Some (p, True, s') \<and> p \<noteq> NULL \<and> rep s' (insert k X))"
proof -
  obtain p b s' where r: "insert_unique k s = Some (p, b, s')"
    using insert_total [OF assms(1,3), of k] by (metis prod_cases3)
  then have "b \<and> p \<noteq> NULL \<and> rep s' (insert k X)" by (rule insert_law [OF assms(1,2)])
  moreover have "find k s = Some NULL" using find_law [OF assms(1), of k] assms(2) by auto
  ultimately show ?thesis using r by simp
qed

text \<open>Applying an action to every object and emptying the container.\<close>

lemma release_and_clean:
  assumes "rep s X"
  shows "\<exists>xs s'. traverse f c s = Some (fold f xs c) \<and> distinct xs \<and> set xs = X \<and>
    clean (Some s) = Some (Some s') \<and> rep s' {}"
  using traverse_law [OF assms, of f c] clean_law [OF assms] by auto

end

subsection \<open>The tree provides the interface\<close>

definition topic_rep :: "'h env \<Rightarrow> 'h rbstate \<Rightarrow> 'h set \<Rightarrow> bool" where
  "topic_rep env s X \<longleftrightarrow>
     (\<exists>t. holds s t \<and> rbt t \<and> keycmp s = rktopic_name_cmp env \<and>
          strictly (rktopic_name_cmp env) (objs t) \<and> set (objs t) = X)"

lemma set_put: "set (put cmp k xs) = insert k (set xs)"
proof -
  have "set xs = set (takeWhile P xs) \<union> set (dropWhile P xs)" for P
    by (metis set_append takeWhile_dropWhile_id)
  then show ?thesis by (auto simp: put_def)
qed

lemma strictly_distinct: "strictly (rktopic_name_cmp env) xs \<Longrightarrow> distinct xs"
  by (induction xs) (auto simp: strictly_def rktopic_name_cmp_def)

lemma topic_insert_law:
  assumes "topic_rep env s X" "\<forall>x \<in> X. rktopic_name_cmp env k x \<noteq> 0"
    "rbtree_insert_unique k s = Some (p, b, s')"
  shows "b \<and> p \<noteq> NULL \<and> topic_rep env s' (insert k X)"
proof -
  obtain t where t: "holds s t" "rbt t" "keycmp s = rktopic_name_cmp env"
    "strictly (rktopic_name_cmp env) (objs t)" "set (objs t) = X"
    using assms(1) by (auto simp: topic_rep_def)
  have null: "look (rktopic_name_cmp env k) t = NULL"
    using topic_keys.look_iff(1) [OF t(1) topic_keys.strictly_descending [OF t(4)], of k] assms(2) t(5)
    by blast
  then have ins: "rbtree_insert k s = Some (p, s')" "b"
    using insert_unique_holds [OF t(1), of k] assms(3) t(3)
    by (cases "rbtree_insert k s"; auto)+
  then have room: "brk s < limit s"
    using insert_full [OF t(1), of k] by auto
  obtain s1 t1 where s1: "rbtree_insert k s = Some (brk s, s1)" "holds s1 t1"
    "keycmp s1 = rktopic_name_cmp env" "objs t1 = put (rktopic_name_cmp env) k (objs t)" "rbt t1"
    using topic_keys.insert_put [OF t(1,3) topic_keys.strictly_descending [OF t(4)] room, of k] t(2)
    by blast
  have "set (objs t1) = insert k X"
    unfolding s1(4) set_put t(5) by (rule refl)
  moreover have "strictly (rktopic_name_cmp env) (objs t1)"
    unfolding s1(4) using topic_keys.put_strictly [OF t(4)] assms(2) t(5) by blast
  ultimately have "topic_rep env s1 (insert k X)"
    using s1 unfolding topic_rep_def by blast
  then show ?thesis
    using ins s1(1) holds_fresh [OF t(1)] by auto
qed

definition has_room :: "'a rbstate \<Rightarrow> bool" where
  "has_room s \<longleftrightarrow> brk s < limit s"

interpretation topic_tree: unique_container
  "rktopic_name_cmp env" "topic_rep env" rbtree_find rbtree_insert_unique rbtree_traverse rbtree_clean has_room
  for env
proof
  fix s X k
  assume "topic_rep env s X"
  then obtain t where t: "holds s t" "rbt t" "keycmp s = rktopic_name_cmp env"
    "strictly (rktopic_name_cmp env) (objs t)" "set (objs t) = X"
    by (auto simp: topic_rep_def)
  show "\<exists>p. rbtree_find k s = Some p \<and> (p \<noteq> NULL \<longleftrightarrow> (\<exists>x \<in> X. rktopic_name_cmp env k x = 0))"
    using topic_keys.find_iff [OF t(1,3) topic_keys.strictly_descending [OF t(4)], of k] t(5) by blast
  show "\<exists>xs. rbtree_traverse f c s = Some (fold f xs c) \<and> distinct xs \<and> set xs = X" for f and c :: 'c
    using traverse_holds(1) [OF t(1), of f c] strictly_distinct [OF t(4)] t(5) by blast
  show "\<exists>s'. rbtree_clean (Some s) = Some (Some s') \<and> topic_rep env s' {}"
    using clean_holds [OF t(1)] t(1,3)
    by (auto simp: topic_rep_def holds_def shape_def heap_ok_def rbt_def strictly_def intro!: exI [of _ Tip])
  show "\<exists>r. rbtree_insert_unique k s = Some r" if room: "has_room s"
  proof (cases "look (rktopic_name_cmp env k) t = NULL")
    case True
    obtain s1 where "rbtree_insert k s = Some (brk s, s1)"
      using topic_keys.insert_put [OF t(1,3) topic_keys.strictly_descending [OF t(4)], of k] room
      by (auto simp: has_room_def)
    then show ?thesis using insert_unique_holds [OF t(1), of k] True t(3) by auto
  next
    case False
    then show ?thesis using insert_unique_holds [OF t(1), of k] t(3) by auto
  qed
qed (rule topic_insert_law)

lemma topic_rep_init:
  assumes "cells mem = Map.empty" "heap_ok mem"
  shows "topic_rep env (rbtree_init (rktopic_name_cmp env) mem) {}"
  using assms
  by (auto simp: topic_rep_def rbtree_init_def holds_def shape_def heap_ok_def rbt_def strictly_def
      intro!: exI [of _ Tip])

subsection \<open>The abstract cache\<close>

text \<open>
  The abstract cache is a map from names to handles.  A tree implements it when it holds its
  handles, every handle has the name it is filed under, and the program holds exactly one
  reference to each of them and none to any other handle.
\<close>

definition caches :: "'h env \<Rightarrow> 'h rbstate \<Rightarrow> (cstr \<rightharpoonup> 'h) \<Rightarrow> 'h trace \<Rightarrow> bool" where
  "caches env s m tr \<longleftrightarrow>
     topic_rep env s (ran m) \<and> (\<forall>n h. m n = Some h \<longrightarrow> env_topic_name env h = n) \<and>
     (\<forall>h. refs tr h = (if h \<in> ran m then 1 else 0))"

lemma caches_refs: "caches env s m tr \<Longrightarrow> refs tr h = (if h \<in> ran m then 1 else 0)"
  by (simp add: caches_def)

lemma caches_neutral: "\<forall>h. refs ev h = 0 \<Longrightarrow> caches env s m (tr @ ev) \<longleftrightarrow> caches env s m tr"
  by (simp add: caches_def)

lemma caches_cmp:
  assumes "caches env s m tr" "x \<in> ran m" "env_topic_name env h = n"
  shows "rktopic_name_cmp env h x = 0 \<longleftrightarrow> m n = Some x"
proof -
  have inj: "m k = Some x \<Longrightarrow> env_topic_name env x = k" for k using assms(1) by (simp add: caches_def)
  obtain k where k: "m k = Some x" using assms(2) by (auto simp: ran_def)
  then show ?thesis
    using inj [OF k] inj [of n] assms(3) by (auto simp: rktopic_name_cmp_def strcmp_eq_0)
qed

text \<open>What \<open>rd_kafka_topic_new\<close> documents, seen through the cache.\<close>

lemma caches_new:
  assumes "topic_new_documented env" "caches env s m tr" "env_topic_new env tr n = Some h"
  shows "env_topic_name env h = n" "m n = None \<or> m n = Some h" "m n = None \<Longrightarrow> h \<notin> ran m"
proof -
  have d: "env_topic_name env h = n" "\<And>h'. refs tr h' > 0 \<Longrightarrow> env_topic_name env h' = n \<Longrightarrow> h' = h"
    using assms(1,3) unfolding topic_new_documented_def by blast+
  show "env_topic_name env h = n" by (rule d(1))
  show "m n = None \<or> m n = Some h"
  proof (cases "m n")
    case (Some x)
    then have "refs tr x > 0" "env_topic_name env x = n"
      using assms(2) by (auto simp: caches_def ranI)
    then show ?thesis using d(2) Some by blast
  qed simp
  show "h \<notin> ran m" if "m n = None"
  proof
    assume "h \<in> ran m"
    then obtain k where "m k = Some h" by (auto simp: ran_def)
    then have "k = n" using assms(2) d(1) by (simp add: caches_def)
    then show False using \<open>m k = Some h\<close> that by simp
  qed
qed

lemma caches_missing:
  assumes "topic_new_documented env" "caches env s m tr" "env_topic_new env tr n = Some h" "m n = None"
  shows "rbtree_find h s = Some NULL"
    and "rbtree_insert_unique h s = Some (q, b, s') \<Longrightarrow>
      b \<and> q \<noteq> NULL \<and> caches env s' (m(n \<mapsto> h)) (tr @ [TopicNew n (Some h)])"
    and "has_room s \<Longrightarrow> \<exists>q s'. rbtree_insert_unique h s = Some (q, True, s') \<and> q \<noteq> NULL"
proof -
  note new = caches_new [OF assms(1-3)]
  have rep: "topic_rep env s (ran m)" using assms(2) by (simp add: caches_def)
  have miss: "\<forall>x \<in> ran m. rktopic_name_cmp env h x \<noteq> 0"
    using caches_cmp [OF assms(2) _ new(1)] assms(4) by auto
  show f: "rbtree_find h s = Some NULL" using topic_tree.find_law [OF rep, of h] miss by auto
  have r: "ran (m(n \<mapsto> h)) = insert h (ran m)" using assms(4) by (rule ran_map_upd)
  show "b \<and> q \<noteq> NULL \<and> caches env s' (m(n \<mapsto> h)) (tr @ [TopicNew n (Some h)])"
    if "rbtree_insert_unique h s = Some (q, b, s')"
    using topic_tree.lookup_insert [OF rep f that] assms(2) new(1) new(3) [OF assms(4)]
    by (simp add: caches_def r)
  show "\<exists>q s'. rbtree_insert_unique h s = Some (q, True, s') \<and> q \<noteq> NULL" if "has_room s"
    using topic_tree.lookup_insert_total [OF rep miss that] by blast
qed

lemma caches_present:
  assumes "topic_new_documented env" "caches env s m tr" "env_topic_new env tr n = Some h" "m n \<noteq> None"
  shows "m n = Some h \<and> (\<exists>q. rbtree_find h s = Some q \<and> q \<noteq> NULL) \<and>
    caches env s m (tr @ [TopicNew n (Some h), TopicDestroy h])"
proof -
  have x: "m n = Some h" using caches_new(2) [OF assms(1-3)] assms(4) by auto
  have rep: "topic_rep env s (ran m)" using assms(2) by (simp add: caches_def)
  have "\<exists>x \<in> ran m. rktopic_name_cmp env h x = 0"
    using ranI [of m n h] x by (intro bexI [of _ h]) (simp_all add: rktopic_name_cmp_def)
  then have "\<exists>q. rbtree_find h s = Some q \<and> q \<noteq> NULL"
    using topic_tree.find_law [OF rep, of h] by blast
  moreover have "caches env s m (tr @ [TopicNew n (Some h), TopicDestroy h])"
    using assms(2) by (simp add: caches_def)
  ultimately show ?thesis using x by blast
qed

lemma release_fold: "fold rktopic_object_release xs tr = tr @ map TopicDestroy xs"
  by (induction xs arbitrary: tr) (simp_all add: rktopic_object_release_def)

lemma refs_map_destroy: "distinct xs \<Longrightarrow> refs (map TopicDestroy xs) h = (if h \<in> set xs then - 1 else 0)"
  by (induction xs) auto

lemma owned_map_destroy [simp]: "owned (map TopicDestroy xs) r = 0"
  by (induction xs) auto

text \<open>Releasing a cache: every handle in it once.\<close>

lemma caches_release:
  assumes "caches env s m tr" "refs tr' = refs tr"
  shows "\<exists>xs s'. rbtree_traverse rktopic_object_release tr' s = Some (tr' @ map TopicDestroy xs) \<and>
    distinct xs \<and> set xs = ran m \<and> rbtree_clean (Some s) = Some (Some s') \<and>
    (\<forall>h. refs (tr' @ map TopicDestroy xs) h = 0)"
proof -
  have rep: "topic_rep env s (ran m)" using assms(1) by (simp add: caches_def)
  obtain xs s' where x: "rbtree_traverse rktopic_object_release tr' s = Some (tr' @ map TopicDestroy xs)"
    "distinct xs" "set xs = ran m" "rbtree_clean (Some s) = Some (Some s')"
    using topic_tree.release_and_clean [OF rep, of rktopic_object_release tr'] by (auto simp: release_fold)
  then show ?thesis
    using caches_refs [OF assms(1)] assms(2) by (auto simp: refs_map_destroy)
qed

subsection \<open>An environment\<close>

text \<open>A cluster where everything works; the handle of a topic is its name.\<close>

definition ex_env :: "cstr env" where
  "ex_env = \<lparr>env_alloc = (\<lambda>_. True), env_conf_new = (\<lambda>_. True), env_conf_set = (\<lambda>_ _ _. 0),
     env_topic_conf_new = (\<lambda>_. True), env_topic_conf_set = (\<lambda>_ _ _. 0), env_tplist_new = (\<lambda>_. True),
     env_kafka_new = (\<lambda>_. True), env_brokers_add = (\<lambda>_ _. 1), env_poll_set_consumer = (\<lambda>_. 0),
     env_flush_timed_out = (\<lambda>tr. last tr = MutexLock), env_mutex_init = (\<lambda>_. 0),
     env_topic_new = (\<lambda>_ n. Some n), env_produce = (\<lambda>_ _ _. 0), env_last_error = (\<lambda>_. 0),
     env_topic_name = (\<lambda>h. h), env_err2str = (\<lambda>_. [])\<rparr>"

definition ex_mem :: "cstr rbstate" where
  "ex_mem = \<lparr>root = NULL, tree_size = 0, keycmp = (\<lambda>_ _. 0), cells = Map.empty, brk = 16, limit = 4096\<rparr>"

lemma ex_env_documented: "topic_new_documented ex_env"
  by (simp add: topic_new_documented_def ex_env_def)

lemma ex_mem_ok: "cells ex_mem = Map.empty" "heap_ok ex_mem"
  by (simp_all add: ex_mem_def heap_ok_def)

end
