(* ===== verification/CStrBuf.thy ===== *)
theory CStrBuf
  imports CString
begin

section \<open>Growable string buffers\<close>

text \<open>
  The type \<open>cstrbuf\<close> of \<open>src/src/common/cstrbuf.h\<close>: a block with its capacity, the length in
  use and the bytes.  Sizes are \<open>ub4\<close>, so the arithmetic wraps at 32 bits.  \<open>None\<close> is a null
  pointer.  Functions that take a format take the formatted text here.  The allocator exits
  the program when memory is short, so an allocation always gives a block.
\<close>

record cstrbuf =
  maxsz :: "32 word"
  len :: "32 word"
  str :: "char list"

definition cstr_length_maximum :: nat where "cstr_length_maximum = 536870911"

definition cstrbuf_error_size_len :: "32 word" where "cstrbuf_error_size_len = - 1"

definition cstrbuf_alignsize :: "32 word \<Rightarrow> 32 word" where
  "cstrbuf_alignsize n = ((n + 16) div 16) * 16"

text \<open>\<open>cstr_length\<close>, the macro: \<open>strnlen\<close>, or \<open>strlen\<close> for a maximum of -1, or 0 for null.\<close>

definition cstr_length :: "cstr option \<Rightarrow> nat option \<Rightarrow> nat" where
  "cstr_length s maxlen =
     (case s of
        None \<Rightarrow> 0
      | Some s \<Rightarrow> (case maxlen of None \<Rightarrow> length s | Some n \<Rightarrow> min n (length s)))"

definition cstrbufGetLen :: "cstrbuf option \<Rightarrow> nat" where
  "cstrbufGetLen s = (case s of None \<Rightarrow> 0 | Some s \<Rightarrow> unat (len s))"

text \<open>The text of a buffer, as \<open>printf("%.*s", len, str)\<close> shows it.\<close>

definition content :: "cstrbuf \<Rightarrow> cstr" where
  "content s = take (unat (len s)) (str s)"

definition cstrbufCharAt :: "cstrbuf \<Rightarrow> nat \<Rightarrow> char" where
  "cstrbufCharAt s i = str s ! i"

definition cstrbufCharAtSafe :: "cstrbuf option \<Rightarrow> int \<Rightarrow> nat option" where
  "cstrbufCharAtSafe csb i =
     (let n = int (cstrbufGetLen csb) in if i \<ge> 0 \<and> i < n then Some (nat i) else None)"

text \<open>
  \<open>cstrbufNew\<close>: \<open>str\<close> is the memory at the source pointer, of which \<open>len\<close> bytes are copied
  after the length of its string was taken where \<open>len\<close> is the error size.
\<close>

definition cstrbufNew :: "32 word \<Rightarrow> cstr option \<Rightarrow> 32 word \<Rightarrow> cstrbuf" where
  "cstrbufNew maxsz0 str0 len0 =
     (let l = (if len0 = cstrbuf_error_size_len
               then of_nat (cstr_length str0 (Some cstr_length_maximum)) else len0);
          m = (if maxsz0 = 0 then l + 1
               else if maxsz0 = cstrbuf_error_size_len \<or> maxsz0 \<le> l then cstrbuf_alignsize (l + 1)
               else cstrbuf_alignsize maxsz0)
      in case str0 of
           Some s \<Rightarrow> \<lparr>maxsz = m, len = l,
                      str = take (unat l) s @ replicate (unat m - unat l) (CHR 0x00)\<rparr>
         | None \<Rightarrow> \<lparr>maxsz = m, len = 0, str = replicate (unat m) (CHR 0x00)\<rparr>)"

definition cstrbufFree :: "cstrbuf option \<Rightarrow> cstrbuf option" where
  "cstrbufFree csb = None"

definition cstrbufCopyTo :: "cstrbuf option \<Rightarrow> char list \<Rightarrow> nat \<Rightarrow> char list \<times> nat" where
  "cstrbufCopyTo src dstbuf offcb =
     (case src of
        None \<Rightarrow> (dstbuf, offcb)
      | Some s \<Rightarrow>
          if len s \<noteq> 0 then
            (take offcb dstbuf @ content s @ drop (offcb + unat (len s)) dstbuf, offcb + unat (len s))
          else (dstbuf, offcb))"

text \<open>\<open>vsnprintf(&str[off], n, ...)\<close> into the bytes of a block.\<close>

definition vsnprintf_at :: "char list \<Rightarrow> nat \<Rightarrow> nat \<Rightarrow> cstr \<Rightarrow> char list" where
  "vsnprintf_at bytes off n txt =
     (if n = 0 then bytes
      else
        (let w = take (n - 1) txt in
         take off bytes @ w @ [CHR 0x00] @ drop (off + length w + 1) bytes))"

text \<open>
  \<open>cstrbufCat\<close>.  The first argument is what \<open>realloc\<close> leaves in the bytes behind the old
  block.  Texts are shorter than \<open>INT_MAX\<close>, so \<open>vsnprintf\<close> does not fail.
\<close>

definition cstrbufCat :: "(nat \<Rightarrow> char) \<Rightarrow> cstrbuf option \<Rightarrow> cstr \<Rightarrow> cstrbuf" where
  "cstrbufCat junk dst txt =
     (let vlen = (of_nat (length txt) :: 32 word) in
      case dst of
        None \<Rightarrow>
          (let d = cstrbufNew (vlen + 1) None 0;
               bytes = vsnprintf_at (str d) 0 (unat (maxsz d)) txt
           in d\<lparr>len := vlen, str := bytes[length txt := CHR 0x00]\<rparr>)
      | Some d \<Rightarrow>
          (let bytes = vsnprintf_at (str d) (unat (len d)) (unat (maxsz d - len d)) txt in
           if len d + vlen < maxsz d then
             d\<lparr>len := len d + vlen, str := bytes[unat (len d + vlen) := CHR 0x00]\<rparr>
           else
             (let m = cstrbuf_alignsize (len d + vlen + 1);
                  grown = bytes @ map junk [length bytes..<unat m];
                  bytes' = vsnprintf_at grown (unat (len d)) (unat (m - len d)) txt
              in \<lparr>maxsz = m, len = len d + vlen, str = bytes'[unat (len d + vlen) := CHR 0x00]\<rparr>)))"

definition cstrbufTrunc :: "cstrbuf \<Rightarrow> 32 word \<Rightarrow> cstrbuf" where
  "cstrbufTrunc s n = (if len s > n then s\<lparr>len := n, str := (str s)[unat n := CHR 0x00]\<rparr> else s)"

fun cstrbufConcat_loop :: "(nat \<Rightarrow> char) \<Rightarrow> cstrbuf \<Rightarrow> cstrbuf list \<Rightarrow> cstrbuf" where
  "cstrbufConcat_loop junk result [] = result"
| "cstrbufConcat_loop junk result (src # srcs) =
     cstrbufConcat_loop junk (cstrbufCat junk (Some result) (content src)) srcs"

text \<open>The arguments up to the null that ends them; the first may itself be null.\<close>

definition cstrbufConcat :: "(nat \<Rightarrow> char) \<Rightarrow> cstrbuf option \<Rightarrow> cstrbuf list \<Rightarrow> cstrbuf" where
  "cstrbufConcat junk start srcs =
     cstrbufConcat_loop junk
       (cstrbufCat junk None (case start of None \<Rightarrow> [] | Some s \<Rightarrow> content s)) srcs"

definition cstrbufDup :: "cstrbuf option \<Rightarrow> cstr option \<Rightarrow> 32 word \<Rightarrow> cstrbuf" where
  "cstrbufDup dst source sourcelen =
     (case dst of
        None \<Rightarrow> cstrbufNew 0 source sourcelen
      | Some d \<Rightarrow>
          (let n = (if sourcelen = cstrbuf_error_size_len then of_nat (cstr_length source None)
                    else sourcelen) in
           if n = 0 then d\<lparr>len := 0, str := (str d)[0 := CHR 0x00]\<rparr>
           else if maxsz d > n then
             d\<lparr>len := n,
               str := take (unat n) (case source of None \<Rightarrow> [] | Some s \<Rightarrow> s) @ [CHR 0x00] @
                      drop (unat n + 1) (str d)\<rparr>
           else cstrbufNew 0 source n))"

definition cstrbufSub :: "cstr \<Rightarrow> nat \<Rightarrow> nat \<Rightarrow> cstr \<Rightarrow> nat \<Rightarrow> cstrbuf" where
  "cstrbufSub source startindex cnt substr sublen =
     (let sourlen = length source;
          endstr = cstrbufNew 0 (Some (drop (startindex + cnt) source)) (of_nat (sourlen - startindex - cnt));
          result = cstrbufNew (of_nat (sourlen - cnt + sublen + 1)) (Some source) (of_nat startindex);
          bytes = take startindex (str result) @ take sublen substr @ content endstr @
                  drop (startindex + sublen + unat (len endstr)) (str result);
          n = of_nat (sourlen - cnt + sublen)
      in result\<lparr>len := n, str := bytes[unat n := CHR 0x00]\<rparr>)"

definition cstrbufPushBack :: "(nat \<Rightarrow> char) \<Rightarrow> cstrbuf option \<Rightarrow> char \<Rightarrow> cstrbuf" where
  "cstrbufPushBack junk dst ch =
     (case dst of
        Some d \<Rightarrow>
          if len d + 1 < maxsz d then d\<lparr>str := (str d)[unat (len d) := ch], len := len d + 1\<rparr>
          else cstrbufCat junk (Some d) [ch]
      | None \<Rightarrow> cstrbufCat junk None [ch])"


subsection \<open>Sizes\<close>

lemma unat_plus_nat: "unat a + n < 2 ^ 32 \<Longrightarrow> unat (a + of_nat n :: 32 word) = unat a + n"
  by (simp add: unat_word_ariths(1) unat_of_nat take_bit_nat_eq_self)

lemma unat_plus_small: "unat a + unat b < 2 ^ 32 \<Longrightarrow> unat (a + b :: 32 word) = unat a + unat b"
  by (simp add: unat_word_ariths(1) take_bit_nat_eq_self)

lemma unat_of_nat_32: "n < 2 ^ 32 \<Longrightarrow> unat (of_nat n :: 32 word) = n"
  by (simp add: unat_of_nat take_bit_nat_eq_self)

lemma unat_minus_32: "b \<le> a \<Longrightarrow> unat (a - b :: 32 word) = unat a - unat b"
  by (simp add: unat_sub)

lemma unat_alignsize:
  assumes "unat n + 16 < 2 ^ 32"
  shows "unat (cstrbuf_alignsize n) = ((unat n + 16) div 16) * 16"
proof -
  have "unat (n + 16) = unat n + 16"
    using unat_plus_small [of n 16] assms by simp
  then have "unat ((n + 16) div 16) = (unat n + 16) div 16"
    by (simp add: unat_div_distrib)
  moreover have "((unat n + 16) div 16) * 16 < 2 ^ 32"
    using assms by linarith
  ultimately show ?thesis
    by (simp add: cstrbuf_alignsize_def unat_word_ariths(2) take_bit_nat_eq_self)
qed

lemma alignsize_bounds:
  assumes "unat n + 16 < 2 ^ 32"
  shows "unat n < unat (cstrbuf_alignsize n)" "unat (cstrbuf_alignsize n) \<le> unat n + 16"
  using unat_alignsize [OF assms] by linarith+

subsection \<open>Well-formed buffers\<close>

text \<open>The length leaves room for a null, and the block has as many bytes as it says.\<close>

definition wf_buf :: "cstrbuf \<Rightarrow> bool" where
  "wf_buf s \<longleftrightarrow> len s < maxsz s \<and> length (str s) = unat (maxsz s)"

definition terminated :: "cstrbuf \<Rightarrow> bool" where
  "terminated s \<longleftrightarrow> str s ! unat (len s) = CHR 0x00"

lemma wf_buf_unat: "wf_buf s \<longleftrightarrow> unat (len s) < unat (maxsz s) \<and> length (str s) = unat (maxsz s)"
  by (simp add: wf_buf_def word_less_nat_alt)

lemma length_vsnprintf:
  "off + n \<le> length bytes \<Longrightarrow> length (vsnprintf_at bytes off n txt) = length bytes"
  by (auto simp: vsnprintf_at_def Let_def min_def)

lemma take_vsnprintf:
  "off + n \<le> length bytes \<Longrightarrow> length txt < n \<Longrightarrow>
    take (off + length txt) (vsnprintf_at bytes off n txt) = take off bytes @ txt"
  by (simp add: vsnprintf_at_def Let_def)

lemma vsnprintf_prefix:
  "off \<le> length bytes \<Longrightarrow> take off (vsnprintf_at bytes off n txt) = take off bytes"
  by (simp add: vsnprintf_at_def Let_def)

lemma cstrbufNew_wf:
  assumes "str0 = Some s" "length s < 2 ^ 29" "unat m0 < 2 ^ 31"
    "l0 = cstrbuf_error_size_len \<or> unat l0 \<le> length s"
  shows "wf_buf (cstrbufNew m0 str0 l0) \<and> terminated (cstrbufNew m0 str0 l0) \<and>
    content (cstrbufNew m0 str0 l0) = (if l0 = cstrbuf_error_size_len then s else take (unat l0) s)"
proof -
  define l where "l = (if l0 = cstrbuf_error_size_len
    then of_nat (cstr_length str0 (Some cstr_length_maximum)) else l0)"
  have l: "unat l \<le> length s" "l0 = cstrbuf_error_size_len \<Longrightarrow> unat l = length s"
    using assms by (auto simp: l_def cstr_length_def cstr_length_maximum_def unat_of_nat_32)
  define m where "m = (if m0 = 0 then l + 1
    else if m0 = cstrbuf_error_size_len \<or> m0 \<le> l then cstrbuf_alignsize (l + 1) else cstrbuf_alignsize m0)"
  have s1: "unat (l + 1) = unat l + 1"
    using l(1) assms(2) unat_plus_nat [of l 1] by simp
  have "unat l < unat m"
    using alignsize_bounds [of "l + 1"] alignsize_bounds [of m0] s1 l(1) assms(2,3)
    by (auto simp: m_def word_le_nat_alt)
  moreover have "cstrbufNew m0 str0 l0 =
      \<lparr>maxsz = m, len = l, str = take (unat l) s @ replicate (unat m - unat l) (CHR 0x00)\<rparr>"
    by (simp add: cstrbufNew_def l_def m_def assms(1) Let_def)
  ultimately show ?thesis
    using l by (auto simp: wf_buf_unat terminated_def content_def nth_append l_def)
qed

lemma cstrbufNew_empty:
  assumes "unat m0 < 2 ^ 31" "m0 \<noteq> 0"
  shows "wf_buf (cstrbufNew m0 None 0)" "content (cstrbufNew m0 None 0) = []"
    "len (cstrbufNew m0 None 0) = 0" "unat m0 < unat (maxsz (cstrbufNew m0 None 0))"
proof -
  have "m0 \<noteq> cstrbuf_error_size_len" "\<not> m0 \<le> 0"
    using assms by (auto simp: cstrbuf_error_size_len_def unsigned_minus_1_eq_mask mask_eq_exp_minus_1)
  then show "wf_buf (cstrbufNew m0 None 0)" "content (cstrbufNew m0 None 0) = []"
    "len (cstrbufNew m0 None 0) = 0" "unat m0 < unat (maxsz (cstrbufNew m0 None 0))"
    using alignsize_bounds [of m0] assms
    by (auto simp: cstrbufNew_def Let_def wf_buf_unat content_def cstrbuf_error_size_len_def)
qed

lemma cstrbufCat_None:
  assumes "length txt < 2 ^ 30"
  shows "wf_buf (cstrbufCat junk None txt) \<and> terminated (cstrbufCat junk None txt) \<and>
    content (cstrbufCat junk None txt) = txt"
proof -
  let ?v = "of_nat (length txt) :: 32 word"
  let ?d = "cstrbufNew (?v + 1) None 0"
  have v: "unat ?v = length txt" "unat (?v + 1) = length txt + 1"
    using assms unat_of_nat_32 [of "length txt"] unat_plus_nat [of ?v 1] by simp_all
  have "?v + 1 \<noteq> 0"
    using v(2) by (metis Suc_eq_plus1 nat.distinct(1) unat_0)
  then have d: "wf_buf ?d" "len ?d = 0" "length txt + 1 < unat (maxsz ?d)"
    using cstrbufNew_empty [of "?v + 1"] v(2) assms by simp_all
  have "length (str ?d) = unat (maxsz ?d)"
    using d(1) by (simp add: wf_buf_unat)
  then show ?thesis
    using d v take_vsnprintf [of 0 "unat (maxsz ?d)" "str ?d" "txt"] length_vsnprintf [of 0 "unat (maxsz ?d)" "str ?d" "txt"]
    by (simp add: cstrbufCat_def Let_def wf_buf_unat terminated_def content_def)
qed

lemma cstrbufCat_Some:
  assumes "wf_buf d" "unat (len d) + length txt + 32 < 2 ^ 32"
  shows "wf_buf (cstrbufCat junk (Some d) txt) \<and> terminated (cstrbufCat junk (Some d) txt) \<and>
    content (cstrbufCat junk (Some d) txt) = content d @ txt"
proof -
  let ?v = "of_nat (length txt) :: 32 word" and ?L = "unat (len d)"
  let ?b = "vsnprintf_at (str d) ?L (unat (maxsz d - len d)) txt"
  have L: "?L < unat (maxsz d)" "length (str d) = unat (maxsz d)"
    using assms(1) by (simp_all add: wf_buf_unat)
  have m: "unat (maxsz d - len d) = unat (maxsz d) - ?L"
    using assms(1) unat_minus_32 [OF less_imp_le, of "len d" "maxsz d"] by (simp add: wf_buf_def)
  have v: "unat (len d + ?v) = ?L + length txt" "unat (len d + ?v + 1) = ?L + length txt + 1"
    using assms(2) unat_plus_nat [of "len d" "length txt"] unat_plus_nat [of "len d + ?v" 1] by simp_all
  have b: "length ?b = unat (maxsz d)"
    using L m by (simp add: length_vsnprintf)
  show ?thesis
  proof (cases "len d + ?v < maxsz d")
    case True
    then have "length txt < unat (maxsz d) - ?L"
      using v(1) by (simp add: word_less_nat_alt)
    then show ?thesis
      using True v b L m take_vsnprintf [of ?L "unat (maxsz d) - ?L" "str d" "txt"]
      by (simp add: cstrbufCat_def Let_def wf_buf_unat terminated_def content_def word_less_nat_alt)
  next
    case False
    let ?m = "cstrbuf_alignsize (len d + ?v + 1)"
    let ?g = "?b @ map junk [length ?b..<unat ?m]"
    have mm: "?L + length txt + 1 < unat ?m" "unat (maxsz d) \<le> unat ?m" "len d \<le> ?m"
      using alignsize_bounds [of "len d + ?v + 1"] v assms(2) False
      by (simp_all add: word_less_nat_alt word_le_nat_alt)
    then have n: "unat (?m - len d) = unat ?m - ?L" "length ?g = unat ?m"
      using b by (simp_all add: unat_minus_32)
    have "take ?L ?g = take ?L (str d)"
      using b L by (simp add: vsnprintf_prefix)
    then show ?thesis
      using False v mm n take_vsnprintf [of ?L "unat ?m - ?L" ?g "txt"] length_vsnprintf [of ?L "unat ?m - ?L" ?g "txt"]
      by (simp add: cstrbufCat_def Let_def wf_buf_unat terminated_def content_def word_less_nat_alt)
  qed
qed

lemma cstrbufTrunc_wf:
  assumes "wf_buf s"
  shows "wf_buf (cstrbufTrunc s n) \<and> content (cstrbufTrunc s n) = take (unat n) (content s) \<and>
    (terminated s \<longrightarrow> terminated (cstrbufTrunc s n))"
  using assms
  by (auto simp: cstrbufTrunc_def wf_buf_unat content_def terminated_def word_less_nat_alt min_def)

lemma cstrbufPushBack_content:
  assumes "wf_buf d" "unat (len d) + 33 < 2 ^ 32"
  shows "wf_buf (cstrbufPushBack junk (Some d) ch) \<and>
    content (cstrbufPushBack junk (Some d) ch) = content d @ [ch]"
proof (cases "len d + 1 < maxsz d")
  case True
  have "unat (len d + 1) = Suc (unat (len d))"
    using unat_plus_nat [of "len d" 1] assms(2) by simp
  then show ?thesis
    using True assms(1)
    by (simp add: cstrbufPushBack_def wf_buf_unat content_def word_less_nat_alt take_Suc_conv_app_nth)
next
  case False
  then show ?thesis
    using cstrbufCat_Some [OF assms(1), of "[ch]" junk] assms(2) by (simp add: cstrbufPushBack_def)
qed

lemma cstrbufConcat_loop_content:
  "wf_buf r \<Longrightarrow> \<forall>s \<in> set srcs. wf_buf s \<Longrightarrow>
    unat (len r) + sum_list (map (\<lambda>s. unat (len s)) srcs) + 32 < 2 ^ 32 \<Longrightarrow>
    wf_buf (cstrbufConcat_loop junk r srcs) \<and>
    content (cstrbufConcat_loop junk r srcs) = content r @ concat (map content srcs)"
proof (induction srcs arbitrary: r)
  case (Cons s srcs)
  have s: "length (content s) = unat (len s)"
    using Cons.prems(2) by (simp add: content_def wf_buf_unat)
  let ?r = "cstrbufCat junk (Some r) (content s)"
  have r: "wf_buf ?r" "content ?r = content r @ content s"
    using cstrbufCat_Some [OF Cons.prems(1), of "content s" junk] Cons.prems(3) s by simp_all
  then have "unat (len ?r) = unat (len r) + unat (len s)"
    using Cons.prems(1) s by (metis content_def length_append length_take less_imp_le min.absorb2 wf_buf_unat)
  then show ?case
    using Cons.IH [OF r(1)] Cons.prems r(2) by simp
qed simp

lemma content_length: "wf_buf s \<Longrightarrow> length (content s) = unat (len s)"
  by (simp add: content_def wf_buf_unat)

lemma cstrbufDup_content:
  assumes "wf_buf d" "unat n \<le> length s" "length s < 2 ^ 29"
  shows "wf_buf (cstrbufDup (Some d) (Some s) n) \<and> terminated (cstrbufDup (Some d) (Some s) n) \<and>
    content (cstrbufDup (Some d) (Some s) n) = take (unat n) s"
proof -
  have ne: "n \<noteq> cstrbuf_error_size_len"
    using assms(2,3) by (auto simp: cstrbuf_error_size_len_def unsigned_minus_1_eq_mask mask_eq_exp_minus_1)
  have "length (str d) = unat (maxsz d)" "unat (len d) < unat (maxsz d)"
    using assms(1) by (simp_all add: wf_buf_unat)
  then show ?thesis
    using assms ne cstrbufNew_wf [OF refl assms(3), of 0 n]
    by (auto simp: cstrbufDup_def Let_def wf_buf_unat terminated_def content_def word_less_nat_alt nth_append min_def)
qed

lemma not_error_size: "i < 2 ^ 31 \<Longrightarrow> (of_nat i :: 32 word) \<noteq> cstrbuf_error_size_len"
proof
  assume "i < 2 ^ 31" "(of_nat i :: 32 word) = cstrbuf_error_size_len"
  then have "i = unat (- 1 :: 32 word)"
    using unat_of_nat_32 [of i] by (simp add: cstrbuf_error_size_len_def)
  then show False
    using \<open>i < 2 ^ 31\<close> by (simp add: unsigned_minus_1_eq_mask mask_eq_exp_minus_1)
qed

lemma cstrbufNew_maxsz:
  assumes "l < m" "m < 2 ^ 31"
  shows "m < unat (maxsz (cstrbufNew (of_nat m) (Some s) (of_nat l)))"
proof -
  have "unat (of_nat m :: 32 word) = m" "unat (of_nat l :: 32 word) = l"
    using assms by (simp_all add: unat_of_nat_32)
  moreover from this have "(of_nat m :: 32 word) \<noteq> 0" "\<not> (of_nat m :: 32 word) \<le> of_nat l"
    using assms(1) by (auto simp: word_le_nat_alt)
  ultimately show ?thesis
    using alignsize_bounds(1) [of "of_nat m"] assms not_error_size [of l] not_error_size [of m]
    by (simp add: cstrbufNew_def Let_def)
qed

lemma cstrbufSub_content:
  assumes "startindex + cnt \<le> length source" "sublen \<le> length substr" "length source + sublen < 2 ^ 29"
  shows "wf_buf (cstrbufSub source startindex cnt substr sublen) \<and>
    terminated (cstrbufSub source startindex cnt substr sublen) \<and>
    content (cstrbufSub source startindex cnt substr sublen) =
      take startindex source @ take sublen substr @ drop (startindex + cnt) source"
proof -
  define k where "k = length source - startindex - cnt"
  define n where "n = length source - cnt + sublen"
  let ?e = "drop (startindex + cnt) source"
  define en where "en = cstrbufNew 0 (Some ?e) (of_nat k)"
  define r where "r = cstrbufNew (of_nat (n + 1)) (Some source) (of_nat startindex)"
  define bytes where "bytes = take startindex (str r) @ take sublen substr @ content en @
    drop (startindex + sublen + unat (len en)) (str r)"
  have un: "unat (of_nat n :: 32 word) = n"
    using assms by (intro unat_of_nat_32) (simp add: n_def)
  have sub: "cstrbufSub source startindex cnt substr sublen =
      r\<lparr>len := of_nat n, str := bytes[n := CHR 0x00]\<rparr>"
    unfolding cstrbufSub_def Let_def k_def [symmetric] n_def [symmetric] en_def [symmetric]
      r_def [symmetric] bytes_def [symmetric] un ..
  have kn: "k + startindex + sublen = n" "length ?e = k" "n + 1 < 2 ^ 31" "startindex < n + 1"
    using assms by (auto simp: k_def n_def)
  have en: "content en = ?e" "unat (len en) = k"
    using cstrbufNew_wf [OF refl, of ?e 0 "of_nat k"] content_length [of en] kn assms
      unat_of_nat_32 [of k] not_error_size [of k] by (simp_all add: en_def)
  have r: "wf_buf r" "content r = take startindex source" "n + 1 < unat (maxsz r)"
    using cstrbufNew_wf [OF refl, of source "of_nat (n + 1)" "of_nat startindex"] kn assms
      unat_of_nat_32 [of "n + 1"] unat_of_nat_32 [of startindex] not_error_size [of startindex]
      cstrbufNew_maxsz [of startindex "n + 1" source] by (simp_all add: r_def)
  moreover from r have "take startindex (str r) = take startindex source"
    using content_length [of r] assms(1) by (simp add: content_def)
  ultimately show ?thesis
    using kn en unat_of_nat_32 [of n] assms
    by (simp add: sub wf_buf_unat terminated_def content_def bytes_def)
qed

subsection \<open>Main results\<close>

text \<open>
  Appending formatted text to a buffer, new or not, growing it or not, gives a well-formed,
  null-terminated buffer whose text is the old text followed by the new one; the 32-bit size
  computations do not wrap below 4 GB.
\<close>

theorem cstrbufCat_appends:
  assumes "\<forall>d. dst = Some d \<longrightarrow> wf_buf d" "length txt < 2 ^ 30" "cstrbufGetLen dst < 2 ^ 31"
  shows "wf_buf (cstrbufCat junk dst txt) \<and> terminated (cstrbufCat junk dst txt) \<and>
    content (cstrbufCat junk dst txt) = (case dst of None \<Rightarrow> [] | Some d \<Rightarrow> content d) @ txt"
  using assms cstrbufCat_None [of "txt" junk] cstrbufCat_Some [of _ "txt" junk]
  by (cases dst) (auto simp: cstrbufGetLen_def)

theorem cstrbufCat_appends_witness:
  "content (cstrbufCat (\<lambda>_. CHR ''?'') (Some \<lparr>maxsz = 4, len = 3, str = ''abc'' @ [CHR 0x00]\<rparr>) ''de'') = ''abcde''"
  using cstrbufCat_appends [of "Some \<lparr>maxsz = 4, len = 3, str = ''abc'' @ [CHR 0x00]\<rparr>" "''de''" "\<lambda>_. CHR ''?''"]
  by (simp add: wf_buf_def content_def cstrbufGetLen_def)

text \<open>
  \<open>cstrbufPushBack\<close> writes the character over the terminating null and trusts the byte
  behind it: after a truncation the string of the buffer runs on past its length.
\<close>

theorem cstrbufPushBack_unterminated:
  "let s = cstrbufNew 0 (Some ''abcd'') cstrbuf_error_size_len;
       u = cstrbufPushBack junk (Some (cstrbufTrunc s 1)) (CHR ''x'')
   in wf_buf u \<and> content u = ''ax'' \<and> \<not> terminated u \<and> takeWhile (\<lambda>c. c \<noteq> CHR 0x00) (str u) = ''axcd''"
  by (simp add: Let_def cstrbufNew_def cstrbufTrunc_def cstrbufPushBack_def cstr_length_def
      cstr_length_maximum_def content_def terminated_def wf_buf_def)

text \<open>
  \<open>cstrbufSub\<close> replaces a range of a string by another string; the result is well-formed
  and null-terminated.
\<close>

theorem cstrbufSub_correct:
  assumes "startindex + cnt \<le> length source" "sublen \<le> length substr" "length source + sublen < 2 ^ 29"
  shows "wf_buf (cstrbufSub source startindex cnt substr sublen) \<and>
    terminated (cstrbufSub source startindex cnt substr sublen) \<and>
    content (cstrbufSub source startindex cnt substr sublen) =
      take startindex source @ take sublen substr @ drop (startindex + cnt) source"
  using cstrbufSub_content [OF assms] .

theorem cstrbufSub_correct_witness: "content (cstrbufSub ''abcdef'' 1 3 ''xy'' 2) = ''axyef''"
  using cstrbufSub_correct [of 1 3 "''abcdef''" 2 "''xy''"] by simp

end
