(* ===== verification/CStrFun.thy ===== *)
theory CStrFun
  imports CStrBuf
begin

section \<open>String functions\<close>

text \<open>
  The functions \<open>cstr_*\<close> of \<open>src/src/common/cstrbuf.h\<close>.  A \<open>char *\<close> is the string it points
  to; a pointer into an argument is an index; a function that writes through its argument
  returns the new contents.  The length arguments are \<open>int\<close> in the code and are never negative
  unless stated, so they are natural numbers here.  Where the code compares two pointers the
  answer is an argument \<open>same\<close>.
\<close>

subsection \<open>C library\<close>

definition toupper :: "char \<Rightarrow> char" where
  "toupper c = (let n = of_char c in if 97 \<le> n \<and> n \<le> (122 :: nat) then char_of (n - 32) else c)"

definition tolower :: "char \<Rightarrow> char" where
  "tolower c = (let n = of_char c in if 65 \<le> n \<and> n \<le> (90 :: nat) then char_of (n + 32) else c)"

text \<open>\<open>strncmp\<close>, \<open>strcasecmp\<close> and \<open>strncasecmp\<close> compare as \<open>strcmp\<close> does.\<close>

definition strncmp :: "cstr \<Rightarrow> cstr \<Rightarrow> nat \<Rightarrow> int" where
  "strncmp s t n = strcmp (take n s) (take n t)"

definition strcasecmp :: "cstr \<Rightarrow> cstr \<Rightarrow> int" where
  "strcasecmp s t = strcmp (map tolower s) (map tolower t)"

definition strncasecmp :: "cstr \<Rightarrow> cstr \<Rightarrow> nat \<Rightarrow> int" where
  "strncasecmp s t n = strcasecmp (take n s) (take n t)"

text \<open>\<open>strstr\<close>: the index of the first occurrence.\<close>

fun strstr :: "cstr \<Rightarrow> cstr \<Rightarrow> nat option" where
  "strstr [] p = (if p = [] then Some 0 else None)"
| "strstr (c # s) p =
     (if take (length p) (c # s) = p then Some 0 else map_option Suc (strstr s p))"

subsection \<open>Case and trimming\<close>

fun cstr_toupper :: "cstr \<Rightarrow> nat \<Rightarrow> cstr" where
  "cstr_toupper [] num = []"
| "cstr_toupper (c # s) 0 = c # s"
| "cstr_toupper (c # s) (Suc num) = toupper c # cstr_toupper s num"

fun cstr_tolower :: "cstr \<Rightarrow> nat \<Rightarrow> cstr" where
  "cstr_tolower [] num = []"
| "cstr_tolower (c # s) 0 = c # s"
| "cstr_tolower (c # s) (Suc num) = tolower c # cstr_tolower s num"

text \<open>
  The recursion of \<open>cstr_trim_chr\<close> and \<open>cstr_trim_whitespace\<close>, which differ in the test and
  the character they leave behind.  \<open>n\<close> is the length of the string; the result is the
  contents and the index of the pointer returned.  The recursive calls are made in the order
  of the code, each on what the one before left.
\<close>

fun trim_rec :: "(char \<Rightarrow> bool) \<Rightarrow> char \<Rightarrow> nat \<Rightarrow> cstr \<Rightarrow> cstr \<times> nat" where
  "trim_rec P f 0 s = (s, 0)"
| "trim_rec P f (Suc n) [] = ([], 0)"
| "trim_rec P f (Suc n) (d # s) =
     (if \<not> P d then
        (case trim_rec P f n s of
           (s1, k1) \<Rightarrow>
             if k1 = 0 then (d # s1, 0)
             else
               (case trim_rec P f n s1 of
                  (s2, k2) \<Rightarrow>
                    (case trim_rec P f n (if k2 = 0 then s2 else s2[k2 - 1 := d]) of
                       (s3, k3) \<Rightarrow> (f # s3, Suc k3))))
      else (case trim_rec P f n s of (s1, k1) \<Rightarrow> (d # s1, Suc k1)))"

definition cstr_trim_chr :: "cstr \<Rightarrow> char \<Rightarrow> cstr \<times> nat" where
  "cstr_trim_chr s c = trim_rec (\<lambda>d. d = c) c (length s) s"

definition cstr_trim_whitespace :: "cstr \<Rightarrow> cstr \<times> nat" where
  "cstr_trim_whitespace s = trim_rec isspace (CHR 0x20) (length s) s"

text \<open>\<open>cstr_trim_chr_mul\<close> goes through the characters from the last to the first.\<close>

definition cstr_trim_chr_mul :: "cstr \<Rightarrow> char list \<Rightarrow> cstr" where
  "cstr_trim_chr_mul s chrs =
     fold (\<lambda>c s. case cstr_trim_chr s c of (s', k) \<Rightarrow> drop k s') (rev chrs) s"

fun cstr_Ltrim_chr :: "cstr \<Rightarrow> char \<Rightarrow> cstr" where
  "cstr_Ltrim_chr [] ch = []"
| "cstr_Ltrim_chr (d # s) ch = (if d = ch then cstr_Ltrim_chr s ch else d # s)"

text \<open>The loop of \<open>cstr_Rtrim_chr\<close>: \<open>p\<close> and \<open>q\<close> counted from the start of the string.\<close>

fun Rtrim_chr_loop :: "cstr \<Rightarrow> char \<Rightarrow> nat \<Rightarrow> nat \<Rightarrow> nat" where
  "Rtrim_chr_loop [] ch p q = q"
| "Rtrim_chr_loop (d # s) ch p q = Rtrim_chr_loop s ch (Suc p) (if d \<noteq> ch then p else q)"

definition cstr_Rtrim_chr :: "cstr \<Rightarrow> char \<Rightarrow> cstr \<times> nat" where
  "cstr_Rtrim_chr s ch =
     (let q = Suc (Rtrim_chr_loop s ch 0 0) in
      if q \<le> length s then (take q s, q) else (s, 0))"

definition cstr_LRtrim_chr :: "cstr \<Rightarrow> char \<Rightarrow> cstr \<times> nat" where
  "cstr_LRtrim_chr s c = cstr_Rtrim_chr (cstr_Ltrim_chr s c) c"

fun cstr_Ltrim_whitespace :: "cstr \<Rightarrow> cstr" where
  "cstr_Ltrim_whitespace [] = []"
| "cstr_Ltrim_whitespace (c # s) = (if isspace c then cstr_Ltrim_whitespace s else c # s)"

text \<open>\<open>cstr_Rtrim_whitespace\<close> writes nulls from the back; the result is the length left.\<close>

fun cstr_Rtrim_whitespace :: "cstr \<Rightarrow> nat \<Rightarrow> nat" where
  "cstr_Rtrim_whitespace s 0 = 0"
| "cstr_Rtrim_whitespace s (Suc n) =
     (if isspace (s ! n) then cstr_Rtrim_whitespace s n else Suc n)"

definition cstr_LRtrim_whitespace :: "cstr \<Rightarrow> cstr" where
  "cstr_LRtrim_whitespace s =
     (let p = cstr_Ltrim_whitespace s in take (cstr_Rtrim_whitespace p (length p)) p)"

text \<open>\<open>cstr_shrink_whitespace\<close> narrows the inclusive range from \<open>start\<close> to \<open>end\<close>.\<close>

function shrink_left :: "cstr \<Rightarrow> int \<Rightarrow> int \<Rightarrow> int" where
  "shrink_left s i e = (if i < e \<and> isspace (s ! nat i) then shrink_left s (i + 1) e else i)"
  by auto
termination by (relation "measure (\<lambda>(_, i, e). nat (e - i))") auto

function shrink_right :: "cstr \<Rightarrow> int \<Rightarrow> int \<Rightarrow> int" where
  "shrink_right s i e = (if e \<ge> i \<and> isspace (s ! nat e) then shrink_right s i (e - 1) else e)"
  by auto
termination by (relation "measure (\<lambda>(_, i, e). nat (e - i + 1))") auto

declare shrink_left.simps [simp del] shrink_right.simps [simp del]

definition cstr_shrink_whitespace :: "cstr \<Rightarrow> int \<Rightarrow> int \<Rightarrow> int \<times> int \<times> int" where
  "cstr_shrink_whitespace s start end0 =
     (let i = shrink_left s start end0; e = shrink_right s i end0 in (e - i + 1, i, e))"

subsection \<open>What the recursive trimming computes\<close>

text \<open>
  The recursion moves every character it keeps to the right: after a call, the pointer stands
  at the kept characters, in their order, and what is before it is filling.
\<close>

lemma trim_rec_packed:
  assumes "P f" "list_all P (take k s)" "list_all (\<lambda>d. \<not> P d) (drop k s)" "k \<le> length s"
  shows "trim_rec P f (length s) s = (s, k)"
  using assms(2-4)
proof (induction s arbitrary: k)
  case (Cons d s)
  show ?case
  proof (cases k)
    case 0
    then show ?thesis
      using Cons.IH [of 0] Cons.prems by simp
  next
    case (Suc j)
    then show ?thesis
      using Cons.IH [of j] Cons.prems by simp
  qed
qed simp

lemma trim_rec_spec:
  assumes "P f"
  shows "\<exists>s' k. trim_rec P f (length s) s = (s', k) \<and> length s' = length s \<and> k \<le> length s \<and>
    list_all P (take k s') \<and> drop k s' = filter (\<lambda>d. \<not> P d) s"
proof (induction s)
  case (Cons d s)
  then obtain s' k where IH: "trim_rec P f (length s) s = (s', k)" "length s' = length s"
    "k \<le> length s" "list_all P (take k s')" "drop k s' = filter (\<lambda>d. \<not> P d) s"
    by blast
  have kept: "list_all (\<lambda>d. \<not> P d) (drop k s')"
    by (simp add: IH(5) list_all_iff)
  show ?case
  proof (cases "P d \<or> k = 0")
    case True
    then have "trim_rec P f (length (d # s)) (d # s) = (d # s', if P d then Suc k else 0)"
      using IH(1) by auto
    then show ?thesis
      using IH(2-5) True
      by (intro exI [of _ "d # s'"] exI [of _ "if P d then Suc k else 0"] conjI) auto
  next
    case False
    then obtain j where j: "k = Suc j" "\<not> P d" by (cases k) simp_all
    have again: "trim_rec P f (length s) s' = (s', k)"
      using trim_rec_packed [OF assms IH(4) kept] IH(2,3) by simp
    let ?s = "s'[j := d]"
    have tk: "take j ?s = take j s'" "drop j ?s = d # drop k s'"
      using IH(2,3) j(1) by (simp_all add: drop_update_swap Cons_nth_drop_Suc [symmetric])
    have "list_all P (take j s')"
      using IH(2-4) j(1) by (simp add: list_all_length)
    then have "trim_rec P f (length ?s) ?s = (?s, j)"
      using trim_rec_packed [of P f j ?s, OF assms] tk kept j IH(2,3) by simp
    then have "trim_rec P f (length s) ?s = (?s, j)" by (simp add: IH(2))
    then have "trim_rec P f (length (d # s)) (d # s) = (f # ?s, k)"
      using again by (simp add: IH(1) j)
    moreover have "list_all P (take k (f # ?s))"
      using \<open>list_all P (take j s')\<close> by (simp add: j(1) tk(1) assms)
    moreover have "drop k (f # ?s) = filter (\<lambda>d. \<not> P d) (d # s)"
      by (simp add: j tk(2) IH(5) [unfolded j(1)])
    ultimately show ?thesis
      using IH(2,3) by (intro exI conjI) simp_all
  qed
qed simp

text \<open>
  \<open>cstr_trim_chr\<close> and \<open>cstr_trim_whitespace\<close> return a pointer, inside the string they were
  given, to the characters that are kept, all of them and in their order, for every string.
\<close>

theorem cstr_trim_filter:
  "(case cstr_trim_chr s c of (s', k) \<Rightarrow>
      length s' = length s \<and> k \<le> length s \<and> drop k s' = filter (\<lambda>d. d \<noteq> c) s) \<and>
   (case cstr_trim_whitespace s of (s', k) \<Rightarrow>
      length s' = length s \<and> k \<le> length s \<and> drop k s' = filter (\<lambda>d. \<not> isspace d) s)"
  using trim_rec_spec [of "\<lambda>d. d = c" c s] trim_rec_spec [of isspace "CHR 0x20" s]
  by (auto simp: cstr_trim_chr_def cstr_trim_whitespace_def isspace_def)

lemma cstr_trim_chr_mul_filter:
  "cstr_trim_chr_mul s chrs = filter (\<lambda>d. d \<notin> set chrs) s"
proof -
  have step: "(case cstr_trim_chr s c of (s', k) \<Rightarrow> drop k s') = filter (\<lambda>d. d \<noteq> c) s" for s c
    using trim_rec_spec [of "\<lambda>d. d = c" c s] by (auto simp: cstr_trim_chr_def)
  have "fold (\<lambda>c s. case cstr_trim_chr s c of (s', k) \<Rightarrow> drop k s') cs s = filter (\<lambda>d. d \<notin> set cs) s" for cs
    by (induction cs arbitrary: s) (auto simp: step intro: filter_cong)
  then show ?thesis by (simp add: cstr_trim_chr_mul_def)
qed

subsection \<open>Trimming at the ends\<close>

lemma cstr_Ltrim_chr_eq: "cstr_Ltrim_chr s ch = dropWhile (\<lambda>d. d = ch) s"
  by (induction s) auto

lemma cstr_Ltrim_whitespace_eq: "cstr_Ltrim_whitespace s = dropWhile isspace s"
  by (induction s) auto

text \<open>The text without the characters \<open>P\<close> at its end, and at both ends.\<close>

definition rstrip :: "(char \<Rightarrow> bool) \<Rightarrow> cstr \<Rightarrow> cstr" where
  "rstrip P s = rev (dropWhile P (rev s))"

definition strip :: "(char \<Rightarrow> bool) \<Rightarrow> cstr \<Rightarrow> cstr" where
  "strip P s = rstrip P (dropWhile P s)"

lemma rstrip_snoc: "rstrip P (s @ [d]) = (if P d then rstrip P s else s @ [d])"
  by (simp add: rstrip_def)

lemma rstrip_take: "\<exists>n \<le> length s. rstrip P s = take n s"
proof (induction s rule: rev_induct)
  case (snoc d s)
  then obtain n where "n \<le> length s" "rstrip P s = take n s" by blast
  then show ?case
    by (cases "P d") (auto simp: rstrip_snoc intro: exI [of _ n] exI [of _ "Suc (length s)"])
qed (simp add: rstrip_def)

lemma Rtrim_chr_loop_snoc:
  "Rtrim_chr_loop (s @ [d]) ch p q = (if d \<noteq> ch then p + length s else Rtrim_chr_loop s ch p q)"
  by (induction s arbitrary: p q) auto

lemma Rtrim_chr_loop_length:
  "Suc (Rtrim_chr_loop s ch 0 0) = max 1 (length (rstrip (\<lambda>d. d = ch) s))"
proof (induction s rule: rev_induct)
  case (snoc d s)
  then show ?case by (simp add: Rtrim_chr_loop_snoc rstrip_snoc)
qed (simp add: rstrip_def)

lemma rstrip_take_length: "take (length (rstrip P s)) s = rstrip P s"
  using rstrip_take [of s P] by auto

lemma length_rstrip_le: "length (rstrip P s) \<le> length s"
  using rstrip_take [of s P] by auto

lemma rstrip_hd: "s \<noteq> [] \<Longrightarrow> \<not> P (hd s) \<Longrightarrow> rstrip P s \<noteq> []"
  by (cases s) (auto simp: rstrip_def)

lemma cstr_LRtrim_chr_eq:
  "cstr_LRtrim_chr s c = (strip (\<lambda>d. d = c) s, length (strip (\<lambda>d. d = c) s))"
proof -
  define t where "t = cstr_Ltrim_chr s c"
  define r where "r = rstrip (\<lambda>d. d = c) t"
  have "t = [] \<or> r \<noteq> []"
    using rstrip_hd [of t "\<lambda>d. d = c"] hd_dropWhile [of "\<lambda>d. d = c" s]
    by (auto simp: r_def t_def cstr_Ltrim_chr_eq)
  moreover have "length r \<le> length t" "take (length r) t = r"
    by (simp_all add: r_def length_rstrip_le rstrip_take_length)
  moreover have "Suc (Rtrim_chr_loop t c 0 0) = max 1 (length r)"
    by (simp add: r_def Rtrim_chr_loop_length)
  ultimately have "cstr_Rtrim_chr t c = (r, length r)"
    by (cases r) (simp_all add: cstr_Rtrim_chr_def Let_def)
  then show ?thesis
    by (simp add: cstr_LRtrim_chr_def t_def r_def strip_def cstr_Ltrim_chr_eq)
qed

lemma cstr_LRtrim_whitespace_eq: "cstr_LRtrim_whitespace s = strip isspace s"
proof -
  have "cstr_Rtrim_whitespace t (length t) = length (rstrip isspace t)" for t
  proof (induction t rule: rev_induct)
    case (snoc d t)
    have "cstr_Rtrim_whitespace (t @ [d]) n = cstr_Rtrim_whitespace t n" if "n \<le> length t" for n
      using that by (induction n) (auto simp: nth_append)
    then show ?case using snoc by (simp add: rstrip_snoc nth_append)
  qed (simp add: rstrip_def)
  then show ?thesis
    by (simp add: cstr_LRtrim_whitespace_def Let_def cstr_Ltrim_whitespace_eq strip_def rstrip_take_length)
qed

text \<open>
  \<open>cstr_LRtrim_chr\<close> removes every leading and trailing occurrence of the character and
  reports the length of what is left; \<open>cstr_LRtrim_whitespace\<close> does it for white space.
\<close>

theorem cstr_LRtrim_strip:
  "cstr_LRtrim_chr s c = (strip (\<lambda>d. d = c) s, length (strip (\<lambda>d. d = c) s)) \<and>
   cstr_LRtrim_whitespace s = strip isspace s"
  by (simp add: cstr_LRtrim_chr_eq cstr_LRtrim_whitespace_eq)

text \<open>
  \<open>cstr_Rtrim_chr\<close> alone does not trim a string of nothing but the character: one
  occurrence is left and the length reported is one.
\<close>

theorem cstr_Rtrim_chr_all:
  "cstr_Rtrim_chr (replicate (Suc n) ch) ch = ([ch], 1)"
proof -
  have "rstrip (\<lambda>d. d = ch) (replicate (Suc n) ch) = []"
    by (simp add: rstrip_def dropWhile_eq_Nil_conv)
  then have "Suc (Rtrim_chr_loop (replicate (Suc n) ch) ch 0 0) = 1"
    by (simp only: Rtrim_chr_loop_length list.size max_0R)
  then show ?thesis by (simp add: cstr_Rtrim_chr_def Let_def)
qed

end
