(* ===== verification/CStrSplit.thy ===== *)
theory CStrSplit
  imports CStrFun
begin

section \<open>Finding, replacing and splitting\<close>

text \<open>
  The functions of \<open>src/src/common/cstrbuf.h\<close> that look for characters or strings in a string
  and cut it there.  Pointers into a string that are returned are indexes; pieces a function
  allocates, or makes by writing a null into its argument, are strings.  A loop that does not
  end and an access outside of a string give \<open>None\<close>.
\<close>

subsection \<open>Characters\<close>

fun Lfind_loop :: "cstr \<Rightarrow> nat \<Rightarrow> char \<Rightarrow> nat \<Rightarrow> nat option" where
  "Lfind_loop [] n c i = None"
| "Lfind_loop (d # s) 0 c i = None"
| "Lfind_loop (d # s) (Suc n) c i = (if d = c then Some i else Lfind_loop s n c (Suc i))"

definition cstr_Lfind_chr :: "cstr option \<Rightarrow> int \<Rightarrow> char \<Rightarrow> nat option" where
  "cstr_Lfind_chr sp n c =
     (case sp of None \<Rightarrow> None | Some s \<Rightarrow> if n \<le> 0 then None else Lfind_loop s (nat n) c 0)"

text \<open>The length given to \<open>cstr_Rfind_chr\<close> is at most the length of the string.\<close>

fun Rfind_loop :: "cstr \<Rightarrow> nat \<Rightarrow> char \<Rightarrow> nat option" where
  "Rfind_loop s 0 c = None"
| "Rfind_loop s (Suc n) c = (if s ! n = c then Some n else Rfind_loop s n c)"

definition cstr_Rfind_chr :: "cstr option \<Rightarrow> int \<Rightarrow> char \<Rightarrow> nat option" where
  "cstr_Rfind_chr sp n c =
     (case sp of None \<Rightarrow> None | Some s \<Rightarrow> if n \<le> 0 then None else Rfind_loop s (nat n) c)"

fun find_chrs_loop :: "cstr \<Rightarrow> nat \<Rightarrow> char list \<Rightarrow> nat \<Rightarrow> nat option" where
  "find_chrs_loop [] n chrs i = None"
| "find_chrs_loop (d # s) 0 chrs i = None"
| "find_chrs_loop (d # s) (Suc n) chrs i =
     (if d \<in> set chrs then Some i else find_chrs_loop s n chrs (Suc i))"

definition cstr_find_chrs :: "cstr option \<Rightarrow> int \<Rightarrow> char list \<Rightarrow> nat option" where
  "cstr_find_chrs sp n chrs =
     (case sp of None \<Rightarrow> None | Some s \<Rightarrow> if n \<le> 0 then None else find_chrs_loop s (nat n) chrs 0)"

fun replace_chr_loop :: "cstr \<Rightarrow> char \<Rightarrow> char \<Rightarrow> cstr" where
  "replace_chr_loop [] ch rpl = []"
| "replace_chr_loop (d # s) ch rpl = (if d = ch then rpl else d) # replace_chr_loop s ch rpl"

definition cstr_replace_chr :: "cstr option \<Rightarrow> char \<Rightarrow> char \<Rightarrow> cstr option" where
  "cstr_replace_chr sp ch rpl = map_option (\<lambda>s. replace_chr_loop s ch rpl) sp"

lemma Lfind_loop_eq:
  "Lfind_loop s n c i = (if c \<in> set (take n s) then Some (i + length (takeWhile (\<lambda>d. d \<noteq> c) s)) else None)"
  by (induction s n c i rule: Lfind_loop.induct) auto

lemma find_chrs_loop_single: "find_chrs_loop s n [c] i = Lfind_loop s n c i"
  by (induction s n c i rule: Lfind_loop.induct) auto

lemma Rfind_loop_Some:
  "Rfind_loop s n c = Some i \<longleftrightarrow> i < n \<and> s ! i = c \<and> (\<forall>j. i < j \<and> j < n \<longrightarrow> s ! j \<noteq> c)"
proof (induction n)
  case (Suc n)
  then show ?case by (auto simp: less_Suc_eq)
qed simp

subsection \<open>Splitting at a character\<close>

text \<open>
  \<open>cstr_slpit_chr\<close> counts the pieces and, given room for \<open>maxoutnum\<close> of them, copies them
  without the blanks around them; each piece comes with its length.
\<close>

function slpit_count :: "cstr \<Rightarrow> nat \<Rightarrow> char \<Rightarrow> nat" where
  "slpit_count s n delim =
     (case strchr s delim of
        None \<Rightarrow> 1
      | Some p \<Rightarrow>
          (let k = length s - length p in
           if k < n then Suc (slpit_count (tl p) (n - Suc k) delim) else 1))"
  by auto
termination
proof (relation "measure (\<lambda>(s, _, _). length s)")
  fix s :: cstr and n delim p k
  assume "strchr s delim = Some p"
  then have "p \<noteq> []" "length p \<le> length s"
    by (auto simp: strchr_def length_dropWhile_le split: if_splits)
  then show "((tl p, n - Suc k, delim), s, n, delim) \<in> measure (\<lambda>(s, _, _). length s)"
    by (cases p) auto
qed simp

declare slpit_count.simps [simp del]

fun slpit_loop :: "cstr \<Rightarrow> char \<Rightarrow> nat \<Rightarrow> (cstr \<times> nat) list" where
  "slpit_loop sb delim 0 = []"
| "slpit_loop sb delim (Suc room) =
     (case strchr sb delim of
        None \<Rightarrow> [cstr_LRtrim_chr sb (CHR '' '')]
      | Some p \<Rightarrow> cstr_LRtrim_chr (cut_at sb delim) (CHR '' '') # slpit_loop (tl p) delim room)"

definition cstr_slpit_chr :: "cstr \<Rightarrow> nat \<Rightarrow> char \<Rightarrow> nat option \<Rightarrow> nat \<times> (cstr \<times> nat) list" where
  "cstr_slpit_chr s n delim maxoutnum =
     (case maxoutnum of
        None \<Rightarrow> (slpit_count s n delim, [])
      | Some m \<Rightarrow> (let out = slpit_loop (take n s) delim m in (length out, out)))"

text \<open>The pieces of a string between the occurrences of a character.\<close>

fun split_on :: "char \<Rightarrow> cstr \<Rightarrow> cstr list" where
  "split_on d [] = [[]]"
| "split_on d (c # s) =
     (if c = d then [] # split_on d s
      else (case split_on d s of [] \<Rightarrow> [[c]] | p # ps \<Rightarrow> (c # p) # ps))"

lemma split_on_eq:
  "split_on d s =
     (if d \<in> set s then takeWhile (\<lambda>c. c \<noteq> d) s # split_on d (tl (dropWhile (\<lambda>c. c \<noteq> d) s)) else [s])"
  by (induction s) auto

lemma strchr_None: "strchr s d = None \<longleftrightarrow> d \<notin> set s"
  by (simp add: strchr_def)

lemma strchr_Some: "strchr s d = Some p \<Longrightarrow> d \<in> set s \<and> p = dropWhile (\<lambda>c. c \<noteq> d) s"
  by (simp add: strchr_def split: if_splits)

lemma strchr_split:
  assumes "strchr s d = Some p"
  shows "\<exists>w q. s = w @ d # q \<and> d \<notin> set w \<and> p = d # q"
proof -
  from assms have "d \<in> set s" by (simp add: strchr_Some)
  then obtain w q where wq: "s = w @ d # q" "d \<notin> set w" by (auto dest: split_list_first)
  then have "dropWhile (\<lambda>c. c \<noteq> d) s = d # q" by (auto simp: dropWhile_append)
  with strchr_Some [OF assms] wq show ?thesis by (intro exI [of _ w] exI [of _ q]) simp
qed

lemma slpit_loop_eq:
  "slpit_loop s d room = map (\<lambda>p. cstr_LRtrim_chr p (CHR '' '')) (take room (split_on d s))"
proof (induction room arbitrary: s)
  case (Suc room)
  then show ?case
    by (subst split_on_eq) (auto simp: cut_at_def strchr_None split: option.split dest: strchr_Some)
qed simp

lemma slpit_count_eq: "n \<le> length s \<Longrightarrow> slpit_count s n d = length (split_on d (take n s))"
proof (induction s n d rule: slpit_count.induct)
  case (1 s n d)
  show ?case
  proof (cases "strchr s d")
    case None
    then have "d \<notin> set (take n s)" by (auto simp: strchr_None dest: in_set_takeD)
    then show ?thesis using None by (subst slpit_count.simps) (subst split_on_eq, simp)
  next
    case (Some p)
    then obtain w q where s: "s = w @ d # q" "d \<notin> set w" and q: "p = d # q"
      by (auto dest: strchr_split)
    then have k: "length s - length p = length w" by simp
    show ?thesis
    proof (cases "length w < n")
      case True
      then have tk: "take n s = w @ d # take (n - Suc (length w)) q"
        using s(1) by (simp add: take_Cons')
      have "split_on d (take n s) = w # split_on d (take (n - Suc (length w)) q)"
        unfolding tk using s(2) by (subst split_on_eq) (auto simp: takeWhile_append dropWhile_append)
      moreover have "slpit_count q (n - Suc (length w)) d = length (split_on d (take (n - Suc (length w)) q))"
        using 1(1) [OF Some, of "length w"] 1(2) True q k s(1) by simp
      ultimately show ?thesis
        using Some True q k by (subst slpit_count.simps) simp
    next
      case False
      then have "take n s = take n w" using s(1) by simp
      then have "d \<notin> set (take n s)" using s(2) by (auto dest: in_set_takeD)
      then have "split_on d (take n s) = [take n s]" by (subst split_on_eq) simp
      then show ?thesis using Some False k by (subst slpit_count.simps) simp
    qed
  qed
qed

text \<open>
  \<open>cstr_slpit_chr\<close> without an output array returns the number of pieces of the first \<open>n\<close>
  characters; with room for \<open>m\<close> pieces it returns the first \<open>m\<close> of them without the blanks at
  their ends, each with its length.
\<close>

theorem cstr_slpit_chr_correct:
  assumes "n \<le> length s"
  shows "cstr_slpit_chr s n d None = (length (split_on d (take n s)), []) \<and>
    snd (cstr_slpit_chr s n d (Some m)) =
      map (\<lambda>p. (strip (\<lambda>c. c = CHR '' '') p, length (strip (\<lambda>c. c = CHR '' '') p)))
        (take m (split_on d (take n s))) \<and>
    fst (cstr_slpit_chr s n d (Some m)) = min m (length (split_on d (take n s)))"
  using assms
  by (simp_all add: cstr_slpit_chr_def slpit_count_eq slpit_loop_eq cstr_LRtrim_chr_eq)

theorem cstr_slpit_chr_correct_witness:
  "cstr_slpit_chr ''a, b ,c;'' 7 (CHR '','') None = (3, []) \<and>
   snd (cstr_slpit_chr ''a, b ,c;'' 7 (CHR '','') (Some 2)) = [(''a'', 1), (''b'', 1)]"
proof -
  have "7 \<le> length ''a, b ,c;''" by simp
  from cstr_slpit_chr_correct [OF this, of "CHR '',''" 2] show ?thesis
    by (simp add: strip_def rstrip_def numeral_2_eq_2)
qed

subsection \<open>Replacing a pattern\<close>

text \<open>
  \<open>cstr_replace_new\<close> counts the occurrences, allocates, and copies.  Both loops move past each
  occurrence by the length of the pattern, so an empty pattern keeps them where they are.  The
  size is computed in \<open>size_t\<close>; a copy that does not fit the buffer is an error.
\<close>

partial_function (option) replace_count :: "cstr \<Rightarrow> cstr \<Rightarrow> nat option" where
  [code]: "replace_count oriptr pat =
     (case strstr oriptr pat of
        None \<Rightarrow> Some 0
      | Some k \<Rightarrow> do { n \<leftarrow> replace_count (drop (k + length pat) oriptr) pat; Some (Suc n) })"

partial_function (option) replace_copy :: "cstr \<Rightarrow> cstr \<Rightarrow> cstr \<Rightarrow> cstr option" where
  [code]: "replace_copy oriptr pat replacement =
     (case strstr oriptr pat of
        None \<Rightarrow> Some oriptr
      | Some k \<Rightarrow> do {
          rest \<leftarrow> replace_copy (drop (k + length pat) oriptr) pat replacement;
          Some (take k oriptr @ replacement @ rest) })"

definition cstr_replace_new :: "cstr \<Rightarrow> cstr \<Rightarrow> cstr \<Rightarrow> (int \<times> cstr option) option" where
  "cstr_replace_new original pat replacement = do {
     patcnt \<leftarrow> replace_count original pat;
     if patcnt = 0 then Some (0, None)
     else do {
       let n = (of_nat (length original) +
         of_nat patcnt * (of_nat (length replacement) - of_nat (length pat)) :: 64 word);
       result \<leftarrow> replace_copy original pat replacement;
       if length result \<le> unat n then Some (int32 (uint n), Some result) else None } }"

text \<open>The occurrences of the pattern from the left, none overlapping, replaced.\<close>

function replace_all :: "cstr \<Rightarrow> cstr \<Rightarrow> cstr \<Rightarrow> cstr" where
  "replace_all pat r [] = []"
| "replace_all pat r (c # s) =
     (if pat \<noteq> [] \<and> take (length pat) (c # s) = pat then r @ replace_all pat r (drop (length pat) (c # s))
      else c # replace_all pat r s)"
  by pat_completeness auto
termination by (relation "measure (\<lambda>(_, _, s). length s)") auto

lemma strstr_Some_bound: "strstr s pat = Some k \<Longrightarrow> k + length pat \<le> length s"
  by (induction s pat arbitrary: k rule: strstr.induct)
    (auto split: if_splits dest: arg_cong [of _ _ length])

lemma strstr_nil: "strstr s [] = Some 0"
  by (cases s) auto

lemma replace_all_None: "pat \<noteq> [] \<Longrightarrow> strstr s pat = None \<Longrightarrow> replace_all pat r s = s"
  by (induction s pat rule: strstr.induct) (auto split: if_splits)

lemma replace_all_Some:
  "pat \<noteq> [] \<Longrightarrow> strstr s pat = Some k \<Longrightarrow>
   replace_all pat r s = take k s @ r @ replace_all pat r (drop (k + length pat) s)"
proof (induction s pat arbitrary: k rule: strstr.induct)
  case (2 c s pat)
  show ?case
  proof (cases "take (length pat) (c # s) = pat")
    case False
    then obtain j where "strstr s pat = Some j" "k = Suc j"
      using 2(3) by auto
    then show ?thesis using 2(1) [OF False 2(2)] False by simp
  qed (use 2 in auto)
qed simp

lemma replace_copy_all:
  "pat \<noteq> [] \<Longrightarrow> replace_copy s pat r = Some (replace_all pat r s)"
proof (induction s rule: length_induct)
  case (1 s)
  show ?case
  proof (cases "strstr s pat")
    case None
    then show ?thesis using 1(2) by (simp add: replace_copy.simps replace_all_None)
  next
    case (Some k)
    let ?t = "drop (k + length pat) s"
    have "length ?t < length s" using strstr_Some_bound [OF Some] 1(2) by (cases pat) auto
    then have "replace_copy ?t pat r = Some (replace_all pat r ?t)" using 1 by blast
    then show ?thesis
      using 1(2) Some by (subst replace_copy.simps) (simp add: replace_all_Some)
  qed
qed

lemma replace_count_length:
  "pat \<noteq> [] \<Longrightarrow> \<exists>n. replace_count s pat = Some n \<and>
     int (length (replace_all pat r s)) = int (length s) + int n * (int (length r) - int (length pat)) \<and>
     (n = 0 \<longleftrightarrow> strstr s pat = None)"
proof (induction s rule: length_induct)
  case (1 s)
  show ?case
  proof (cases "strstr s pat")
    case None
    then show ?thesis using 1(2) by (simp add: replace_count.simps replace_all_None)
  next
    case (Some k)
    let ?t = "drop (k + length pat) s"
    note b = strstr_Some_bound [OF Some]
    have "length ?t < length s" using b 1(2) by (cases pat) auto
    then obtain n where n: "replace_count ?t pat = Some n"
      "int (length (replace_all pat r ?t)) = int (length ?t) + int n * (int (length r) - int (length pat))"
      using 1 by blast
    have "replace_count s pat = Some (Suc n)"
      using Some n(1) by (subst replace_count.simps) simp
    moreover have "int (length (replace_all pat r s)) =
        int (length s) + int (Suc n) * (int (length r) - int (length pat))"
      using b n(2) replace_all_Some [OF 1(2) Some, of r] by (simp add: of_nat_diff algebra_simps)
    ultimately show ?thesis using Some by auto
  qed
qed

text \<open>
  C40: with a pattern that is not empty \<open>cstr_replace_new\<close> returns; the string it allocates has
  every occurrence of the pattern replaced, from the left and without overlaps; the size it
  computes is the length of that string, also where the replacement is shorter than the pattern
  and the difference wraps around.
\<close>

theorem cstr_replace_new_correct:
  assumes "pat \<noteq> []" "length (replace_all pat r s) < 2 ^ 64"
  shows "cstr_replace_new s pat r =
    Some (if strstr s pat = None then (0, None)
          else (int32 (int (length (replace_all pat r s))), Some (replace_all pat r s)))"
proof -
  obtain n where n: "replace_count s pat = Some n" "n = 0 \<longleftrightarrow> strstr s pat = None"
    "int (length (replace_all pat r s)) = int (length s) + int n * (int (length r) - int (length pat))"
    using replace_count_length [OF assms(1)] by blast
  have "(of_nat (length s) + of_nat n * (of_nat (length r) - of_nat (length pat)) :: 64 word) =
      of_int (int (length (replace_all pat r s)))"
    unfolding n(3) by simp
  also have "\<dots> = of_nat (length (replace_all pat r s))" by simp
  finally have w: "(of_nat (length s) + of_nat n * (of_nat (length r) - of_nat (length pat)) :: 64 word) =
      of_nat (length (replace_all pat r s))" .
  have u: "unat (of_nat (length (replace_all pat r s)) :: 64 word) = length (replace_all pat r s)"
    using assms(2) by (simp add: unat_of_nat take_bit_nat_eq_self)
  then have "uint (of_nat (length (replace_all pat r s)) :: 64 word) = int (length (replace_all pat r s))"
    by (metis uint_nat)
  then show ?thesis
    using n(1,2) u by (simp add: cstr_replace_new_def replace_copy_all [OF assms(1)] w)
qed

theorem cstr_replace_new_correct_witness:
  "cstr_replace_new ''a--b--'' ''--'' ''+'' = Some (4, Some ''a+b+'')"
proof -
  have e: "replace_all ''--'' ''+'' ''a--b--'' = ''a+b+''" by simp
  have "''--'' \<noteq> []" "length (replace_all ''--'' ''+'' ''a--b--'') < 2 ^ 64" by simp_all
  from cstr_replace_new_correct [OF this] show ?thesis unfolding e by (simp add: int32_def)
qed

lemma replace_count_pattern:
  assumes "replace_count s pat = Some n"
  shows "pat \<noteq> []"
proof (rule replace_count.raw_induct [of "\<lambda>s pat n. pat \<noteq> []", OF _ assms], goal_cases)
  case (1 f s pat n)
  then show ?case
    by (cases "pat = []") (auto simp: strstr_nil bind_eq_Some_conv)
qed

text \<open>
  with an empty pattern the counting loop of \<open>cstr_replace_new\<close> never ends.
\<close>

theorem cstr_replace_new_empty_pattern: "cstr_replace_new s [] r = None"
  using replace_count_pattern [of s "[]"] by (cases "replace_count s []") (auto simp: cstr_replace_new_def)

subsection \<open>Splitting at a string\<close>

text \<open>
  \<open>cstr_split_substr\<close> writes a null at each occurrence of the separator and goes on \<open>seplen\<close>
  characters behind it.  With \<open>seplen\<close> zero the rest begins with the null just written; with a
  \<open>seplen\<close> that leaves the string the access is undefined.
\<close>

fun cstr_split_substr :: "cstr \<Rightarrow> cstr \<Rightarrow> nat \<Rightarrow> nat \<Rightarrow> cstr list option" where
  "cstr_split_substr s sepstr seplen 0 = Some []"
| "cstr_split_substr s sepstr seplen (Suc room) =
     (case strstr s sepstr of
        None \<Rightarrow> Some [s]
      | Some k \<Rightarrow>
          if seplen > length s - k then None
          else do {
            subs \<leftarrow> cstr_split_substr (if seplen = 0 then [] else drop (k + seplen) s) sepstr seplen room;
            Some (take k s # subs) })"

fun join :: "cstr \<Rightarrow> cstr list \<Rightarrow> cstr" where
  "join sep [] = []"
| "join sep [p] = p"
| "join sep (p # q # ps) = p @ sep @ join sep (q # ps)"

lemma join_Cons: "ps \<noteq> [] \<Longrightarrow> join sep (p # ps) = p @ sep @ join sep ps"
  by (cases ps) auto

lemma strstr_Some_split: "strstr s pat = Some k \<Longrightarrow> s = take k s @ pat @ drop (k + length pat) s"
  by (induction s pat arbitrary: k rule: strstr.induct)
    (auto split: if_splits simp flip: append_assoc, (metis append_take_drop_id)+)

lemma strstr_take: "pat \<noteq> [] \<Longrightarrow> strstr s pat = Some k \<Longrightarrow> strstr (take k s) pat = None"
proof (induction s pat arbitrary: k rule: strstr.induct)
  case (2 c s pat)
  show ?case
  proof (cases "take (length pat) (c # s) = pat")
    case False
    then obtain j where j: "strstr s pat = Some j" "k = Suc j" using 2(3) by auto
    have "take (length pat) (c # take j s) \<noteq> pat"
    proof
      assume *: "take (length pat) (c # take j s) = pat"
      from arg_cong [OF *, of length] have "length pat \<le> Suc j" by (simp add: min_def split: if_splits)
      then have "take (length pat) (take (Suc j) (c # s)) = take (length pat) (c # s)"
        by (simp only: take_take min_absorb1)
      with * have "pat = take (length pat) (c # s)" by (simp only: take_Suc_Cons)
      with False show False by simp
    qed
    then show ?thesis using 2(1) [OF False 2(2) j(1)] j(2) by simp
  qed (use 2 in auto)
qed simp

text \<open>
  \<open>cstr_split_substr\<close> with a separator that is not empty cuts the string into pieces that
  do not contain the separator and that, joined with it, give the string back; with room for
  fewer pieces it returns the first ones.
\<close>

theorem cstr_split_substr_join:
  assumes "sep \<noteq> []"
  shows "\<exists>ps. (\<forall>room. cstr_split_substr s sep (length sep) room = Some (take room ps)) \<and>
    join sep ps = s \<and> list_all (\<lambda>p. strstr p sep = None) ps \<and> ps \<noteq> []"
proof (induction s rule: length_induct)
  case (1 s)
  show ?case
  proof (cases "strstr s sep")
    case None
    have "cstr_split_substr s sep (length sep) room = Some (take room [s])" for room
      using None by (cases room) auto
    then show ?thesis using None by (intro exI [of _ "[s]"]) simp
  next
    case (Some k)
    let ?t = "drop (k + length sep) s"
    note b = strstr_Some_bound [OF Some]
    have "length ?t < length s" using b assms by (cases sep) auto
    then obtain ps where ps: "\<forall>room. cstr_split_substr ?t sep (length sep) room = Some (take room ps)"
      "join sep ps = ?t" "list_all (\<lambda>p. strstr p sep = None) ps" "ps \<noteq> []"
      using 1 by blast
    have "cstr_split_substr s sep (length sep) room = Some (take room (take k s # ps))" for room
      using Some b ps(1) assms by (cases room) auto
    moreover have "join sep (take k s # ps) = s"
      unfolding join_Cons [OF ps(4)] ps(2) by (rule strstr_Some_split [OF Some, symmetric])
    moreover have "list_all (\<lambda>p. strstr p sep = None) (take k s # ps)"
      using ps(3) strstr_take [OF assms Some] by simp
    ultimately show ?thesis by blast
  qed
qed

theorem cstr_split_substr_join_witness:
  "cstr_split_substr ''a::b::c'' ''::'' 2 2 = Some [''a'', ''b'']"
proof -
  have "''::'' \<noteq> []" by simp
  from cstr_split_substr_join [OF this, of "''a::b::c''"]
  obtain ps where ps: "\<forall>room. cstr_split_substr ''a::b::c'' ''::'' (length ''::'') room = Some (take room ps)"
    by blast
  have "cstr_split_substr ''a::b::c'' ''::'' 2 3 = Some [''a'', ''b'', ''c'']"
    by (simp add: numeral_3_eq_3)
  with ps [rule_format, of 3] have "take 3 ps = [''a'', ''b'', ''c'']" by (simp add: numeral_2_eq_2)
  then have "take 2 ps = [''a'', ''b'']" using take_take [of 2 3 ps] by (simp add: min_def)
  with ps [rule_format, of 2] show ?thesis by (simp add: numeral_2_eq_2)
qed

subsection \<open>Splitting at several characters\<close>

text \<open>
  The main loop of \<open>cstr_split_multi_chrs\<close> over the indexes, with the start of the current piece
  and the pieces so far; the flag is set when it returns from inside the loop.  A piece is the
  range between two separators without the white space around it.
\<close>

definition multi_piece :: "cstr \<Rightarrow> nat \<Rightarrow> nat \<Rightarrow> cstr option" where
  "multi_piece s start end0 =
     (case cstr_shrink_whitespace s (int start) (int end0 - 1) of
        (sublen, substart, subend) \<Rightarrow>
          if sublen > 0 then Some (take (nat sublen) (drop (nat substart) s)) else None)"

fun multi_loop :: "cstr \<Rightarrow> char list \<Rightarrow> nat \<Rightarrow> nat list \<Rightarrow> nat \<Rightarrow> cstr list \<Rightarrow> bool \<times> nat \<times> cstr list" where
  "multi_loop s sepchrs maxsubs [] start out = (False, start, out)"
| "multi_loop s sepchrs maxsubs (i # is) start out =
     (if s ! i \<in> set sepchrs \<and> i > start \<and> length out < maxsubs then
        (case multi_piece s start i of
           None \<Rightarrow> multi_loop s sepchrs maxsubs is i out
         | Some sub \<Rightarrow>
             if Suc (length out) = maxsubs then (True, i, out @ [sub])
             else multi_loop s sepchrs maxsubs is i (out @ [sub]))
      else multi_loop s sepchrs maxsubs is start out)"

definition cstr_split_multi_chrs :: "cstr \<Rightarrow> nat \<Rightarrow> char list \<Rightarrow> nat \<Rightarrow> cstr list" where
  "cstr_split_multi_chrs s slen sepchrs maxsubs =
     (case multi_loop s sepchrs maxsubs [0..<slen] 0 [] of
        (done, start, out) \<Rightarrow>
          if done then out
          else if length out < maxsubs \<and> slen > start then
            (case multi_piece s start slen of None \<Rightarrow> out | Some sub \<Rightarrow> out @ [sub])
          else out)"

lemma shrink_id:
  assumes "start < end0" "\<not> isspace (s ! start)" "\<not> isspace (s ! (end0 - 1))"
  shows "multi_piece s start end0 = Some (take (end0 - start) (drop start s))"
proof -
  have l: "shrink_left s (int start) (int end0 - 1) = int start"
    by (subst shrink_left.simps) (simp add: assms(2))
  have "nat (int end0 - 1) = end0 - 1" by simp
  then have r: "shrink_right s (int start) (int end0 - 1) = int end0 - 1"
    by (subst shrink_right.simps) (simp only: assms(3) if_False simp_thms)
  have "nat (int end0 - int start) = end0 - start" by simp
  then show ?thesis
    using assms(1) by (simp add: multi_piece_def cstr_shrink_whitespace_def Let_def l r)
qed

lemma multi_loop_skip:
  "\<forall>i \<in> set is. s ! i \<notin> set seps \<Longrightarrow> multi_loop s seps m (is @ js) start out = multi_loop s seps m js start out"
  by (induction "is") auto

text \<open>
  \<open>cstr_split_multi_chrs\<close> keeps the separator at the front of the piece behind it: of two
  texts joined by a separator, neither of them with white space at its ends or a separator
  inside, the second piece is the separator and the second text.
\<close>

theorem cstr_split_multi_chrs_separator:
  assumes "c \<in> set seps" "set a \<inter> set seps = {}" "set b \<inter> set seps = {}" "a \<noteq> []" "b \<noteq> []"
    "\<not> isspace (hd a)" "\<not> isspace (last a)" "\<not> isspace c" "\<not> isspace (last b)" "m \<ge> 2"
  shows "cstr_split_multi_chrs (a @ c # b) (length (a @ c # b)) seps m = [a, c # b]"
proof -
  let ?s = "a @ c # b"
  have "[0..<length ?s] = [0..<length a] @ [length a..<length ?s]"
    using upt_add_eq_append [of 0 "length a" "Suc (length b)"] by simp
  moreover have "[length a..<length ?s] = length a # [Suc (length a)..<length ?s]"
    by (rule upt_conv_Cons) simp
  ultimately have ix: "[0..<length ?s] = [0..<length a] @ length a # ([Suc (length a)..<length ?s] @ [])"
    by simp
  have before: "\<forall>i \<in> set [0..<length a]. ?s ! i \<notin> set seps"
    using assms(2) by (auto simp: nth_append disjoint_iff)
  have after: "\<forall>i \<in> set [Suc (length a)..<length ?s]. ?s ! i \<notin> set seps"
    using assms(3) by (auto simp: nth_append nth_Cons' disjoint_iff)
  have p1: "multi_piece ?s 0 (length a) = Some a"
    using shrink_id [of 0 "length a" ?s] assms by (simp add: nth_append hd_conv_nth last_conv_nth)
  have p2: "multi_piece ?s (length a) (length ?s) = Some (c # b)"
    using shrink_id [of "length a" "length ?s" ?s] assms
    by (simp add: nth_append last_conv_nth nth_Cons')
  have "multi_loop ?s seps m [0..<length ?s] 0 [] = (False, length a, [a])"
    unfolding ix multi_loop_skip [OF before] using assms(1,4,10) p1
    by (simp add: nth_append multi_loop_skip [OF after, of m "[]", simplified])
  then show ?thesis
    using assms(5,10) p2 by (simp add: cstr_split_multi_chrs_def)
qed

theorem cstr_split_multi_chrs_separator_witness:
  "cstr_split_multi_chrs ''key=value'' 9 ''=:'' 4 = [''key'', ''=value'']"
proof -
  have "CHR ''='' \<in> set ''=:''" "set ''key'' \<inter> set ''=:'' = {}" "set ''value'' \<inter> set ''=:'' = {}"
    "''key'' \<noteq> []" "''value'' \<noteq> []" "\<not> isspace (hd ''key'')" "\<not> isspace (last ''key'')"
    "\<not> isspace (CHR ''='')" "\<not> isspace (last ''value'')" "(4 :: nat) \<ge> 2"
    by (simp_all add: isspace_def)
  from cstr_split_multi_chrs_separator [OF this] show ?thesis by (simp add: eval_nat_numeral)
qed

end
