(* ===== verification/CStrCmp.thy ===== *)
theory CStrCmp
  imports CStrFun "HOL-Library.Sublist"
begin

section \<open>Comparing, copying and reading strings\<close>

text \<open>
  The remaining functions on strings of \<open>src/src/common/cstrbuf.h\<close>.  Strings that may be null
  are options; \<open>same\<close> tells whether the two pointers compared are equal, which they are when
  both are null and which makes the strings equal (\<open>pointers\<close>).  Lengths given as \<open>int\<close> keep
  their sign where the code looks at it.
\<close>

definition pointers :: "bool \<Rightarrow> cstr option \<Rightarrow> cstr option \<Rightarrow> bool" where
  "pointers same s t \<longleftrightarrow> (same \<longrightarrow> s = t) \<and> (s = None \<and> t = None \<longrightarrow> same)"

text \<open>An \<open>int\<close> passed as a \<open>size_t\<close>.\<close>

definition size_of_int :: "int \<Rightarrow> nat" where
  "size_of_int n = nat (n mod 2 ^ 64)"

subsection \<open>Equality and order\<close>

definition cstr_notequal :: "bool \<Rightarrow> cstr option \<Rightarrow> cstr option \<Rightarrow> bool" where
  "cstr_notequal same str1 str2 =
     (if same then False
      else case (str1, str2) of
        (Some s, Some t) \<Rightarrow> strcmp s t \<noteq> 0
      | _ \<Rightarrow> True)"

definition cstr_notequal_len :: "bool \<Rightarrow> cstr option \<Rightarrow> int \<Rightarrow> cstr option \<Rightarrow> int \<Rightarrow> bool" where
  "cstr_notequal_len same Astr Alen Bstr Blen =
     (if Alen \<noteq> Blen then True
      else if same then False
      else case (Astr, Bstr) of
        (Some s, Some t) \<Rightarrow> strncmp s t (size_of_int Alen) \<noteq> 0
      | _ \<Rightarrow> True)"

definition cstr_compare_len :: "bool \<Rightarrow> cstr option \<Rightarrow> int \<Rightarrow> cstr option \<Rightarrow> int \<Rightarrow> bool \<Rightarrow> int" where
  "cstr_compare_len same Astr Alen Bstr Blen caseignore =
     (if same then 0
      else case Astr of
        None \<Rightarrow> - 1
      | Some A \<Rightarrow>
         (case Bstr of
            None \<Rightarrow> 1
          | Some B \<Rightarrow>
              if Alen = 0 \<and> Blen = 0 then 0
              else if Alen < 0 \<and> Blen < 0 then
                (if caseignore then strcasecmp A B else strcmp A B)
              else
                (let Alen = (if Alen < 0 then int (cstr_length (Some A) None) else Alen);
                     Blen = (if Blen < 0 then int (cstr_length (Some B) None) else Blen) in
                 if Alen > Blen then 1
                 else if Alen < Blen then - 1
                 else if caseignore then strncasecmp A B (size_of_int Alen)
                 else strncmp A B (size_of_int Alen))))"

subsection \<open>Prefixes, suffixes and membership\<close>

text \<open>\<open>memcmp\<close> of \<open>n\<close> bytes of two strings, their terminating nulls included.\<close>

definition memcmp_eq :: "cstr \<Rightarrow> cstr \<Rightarrow> nat \<Rightarrow> bool" where
  "memcmp_eq s t n \<longleftrightarrow> take n (s @ [CHR 0x00]) = take n (t @ [CHR 0x00])"

definition cstr_startwith :: "bool \<Rightarrow> cstr option \<Rightarrow> nat \<Rightarrow> cstr option \<Rightarrow> nat \<Rightarrow> bool" where
  "cstr_startwith same sp count start startlen =
     (if same then True
      else case (sp, start) of
        (Some s, Some t) \<Rightarrow> startlen \<le> count \<and> memcmp_eq s t startlen
      | _ \<Rightarrow> False)"

text \<open>The pointer behind the front part of \<open>s\<close> is the pointer \<open>end\<close> only if they overlap.\<close>

definition cstr_endwith :: "bool \<Rightarrow> cstr option \<Rightarrow> nat \<Rightarrow> cstr option \<Rightarrow> nat \<Rightarrow> bool" where
  "cstr_endwith same sp count end0 endlen =
     (if same then True
      else case (sp, end0) of
        (Some s, Some t) \<Rightarrow>
          endlen \<le> count \<and>
          \<not> cstr_notequal_len False (Some (drop (count - endlen) s)) (int endlen) (Some t) (int endlen)
      | _ \<Rightarrow> False)"

definition cstr_containwith :: "bool \<Rightarrow> cstr option \<Rightarrow> nat \<Rightarrow> cstr option \<Rightarrow> nat \<Rightarrow> int" where
  "cstr_containwith same sp count sub sublen =
     (if same then 0
      else case (sp, sub) of
        (Some s, Some t) \<Rightarrow>
          if sublen \<le> count then (case strstr s t of None \<Rightarrow> - 1 | Some i \<Rightarrow> int i) else - 1
      | _ \<Rightarrow> - 1)"

text \<open>
  The loops over several candidates count down and return the index of the hit.  A candidate is
  a string, the answer of the pointer comparison with \<open>s\<close>, and the length given for it, if
  lengths are given.
\<close>

definition cand_len :: "cstr \<Rightarrow> nat option \<Rightarrow> nat" where
  "cand_len t n = (case n of None \<Rightarrow> length t | Some k \<Rightarrow> k)"

fun with_mul :: "(bool \<Rightarrow> cstr option \<Rightarrow> nat \<Rightarrow> cstr option \<Rightarrow> nat \<Rightarrow> bool) \<Rightarrow> cstr option \<Rightarrow> nat \<Rightarrow>
    (cstr option \<times> bool \<times> nat option) list \<Rightarrow> nat \<Rightarrow> int" where
  "with_mul test sp count cands 0 = - 1"
| "with_mul test sp count cands (Suc n) =
     (case cands ! n of
        (Some t, same, k) \<Rightarrow>
          if test same sp count (Some t) (cand_len t k) then int n
          else with_mul test sp count cands n
      | (None, _, _) \<Rightarrow> with_mul test sp count cands n)"

definition cstr_startwith_mul :: "cstr option \<Rightarrow> nat \<Rightarrow> (cstr option \<times> bool \<times> nat option) list \<Rightarrow> int" where
  "cstr_startwith_mul sp count starts = with_mul cstr_startwith sp count starts (length starts)"

definition cstr_endwith_mul :: "cstr option \<Rightarrow> nat \<Rightarrow> (cstr option \<times> bool \<times> nat option) list \<Rightarrow> int" where
  "cstr_endwith_mul sp count ends = with_mul cstr_endwith sp count ends (length ends)"

fun findstr_loop :: "cstr option \<Rightarrow> nat \<Rightarrow> (cstr option \<times> bool) list \<Rightarrow> bool \<Rightarrow> nat \<Rightarrow> int" where
  "findstr_loop sp count [] caseignore i = - 1"
| "findstr_loop sp count ((dest, same) # dests) caseignore i =
     (if same then int i
      else case (dest, sp) of
        (Some d, Some s) \<Rightarrow>
          if cstr_length (Some d) (Some (Suc count)) = count \<and>
             (if caseignore then strncasecmp s d count = 0 else strncmp s d count = 0)
          then int i else findstr_loop sp count dests caseignore (Suc i)
      | _ \<Rightarrow> findstr_loop sp count dests caseignore (Suc i))"

definition cstr_findstr_in :: "cstr option \<Rightarrow> nat \<Rightarrow> (cstr option \<times> bool) list \<Rightarrow> bool \<Rightarrow> int" where
  "cstr_findstr_in sp count dests caseignore = findstr_loop sp count dests caseignore 0"

fun cstr_isdigit :: "cstr \<Rightarrow> nat \<Rightarrow> bool" where
  "cstr_isdigit s 0 = True"
| "cstr_isdigit s (Suc n) = (if \<not> isdigit (s ! n) then False else cstr_isdigit s n)"

subsection \<open>Copying into a buffer\<close>

text \<open>
  A store of bytes into a buffer, outside of which it is undefined.  The sum of the offset and
  the length is a \<open>size_t\<close>.
\<close>

definition store_at :: "char list \<Rightarrow> nat \<Rightarrow> char list \<Rightarrow> char list option" where
  "store_at buf off bs =
     (if off + length bs \<le> length buf then Some (take off buf @ bs @ drop (off + length bs) buf) else None)"

definition cstr_safecopy :: "char list \<Rightarrow> nat \<Rightarrow> nat \<Rightarrow> char list \<Rightarrow> nat \<Rightarrow> (int \<times> char list) option" where
  "cstr_safecopy dstbuf dstbufsize dstoffset source sourcelen =
     (if (dstoffset + sourcelen) mod 2 ^ 64 < dstbufsize then do {
        buf \<leftarrow> store_at dstbuf dstoffset (take sourcelen source);
        buf \<leftarrow> store_at buf (dstoffset + sourcelen) [CHR 0x00];
        Some (1, buf) }
      else do {
        buf \<leftarrow> (if dstoffset < dstbufsize then do {
            buf \<leftarrow> store_at dstbuf dstoffset (take (dstbufsize - dstoffset) source);
            if dstbufsize > 3 then store_at buf (dstbufsize - 4) ''...'' else Some buf }
          else Some dstbuf);
        if dstbufsize = 0 then None
        else do { buf \<leftarrow> store_at buf (dstbufsize - 1) [CHR 0x00]; Some (0, buf) } })"

subsection \<open>Reading a line\<close>

text \<open>
  A file is its bytes and a position.  The loop has the bytes still to read and the line so
  far; the flag tells that it ended at the end of the file.
\<close>

definition line_keeps :: "bool \<Rightarrow> char \<Rightarrow> bool" where
  "line_keeps ignore_whitespace ch \<longleftrightarrow>
     ch \<noteq> CHR 0x0D \<and> ch \<noteq> CHR 0x0A \<and> ch \<noteq> CHR 0x5C \<and> (\<not> ignore_whitespace \<or> \<not> isspace ch)"

fun readline_loop :: "char list \<Rightarrow> nat \<Rightarrow> bool \<Rightarrow> cstr \<Rightarrow> bool \<times> cstr \<times> char list" where
  "readline_loop [] maxlen iw line = (True, line, [])"
| "readline_loop (ch # bs) maxlen iw line =
     (let line = (if length line < maxlen \<and> line_keeps iw ch then line @ [ch] else line) in
      if ch = CHR 0x0A then (False, line, bs) else readline_loop bs maxlen iw line)"

definition cstr_readline :: "char list \<Rightarrow> nat \<Rightarrow> nat \<Rightarrow> bool \<Rightarrow> cstr option \<times> nat" where
  "cstr_readline bytes pos maxlen iw =
     (let start = (if pos = 0 \<and> take 3 bytes = [CHR 0xEF, CHR 0xBB, CHR 0xBF] then 3 else pos) in
      case readline_loop (drop start bytes) maxlen iw [] of
        (eof, line, rest) \<Rightarrow>
          (if eof \<and> line = [] then None else Some line, length bytes - length rest))"

subsection \<open>Lemmas and properties\<close>

lemma size_of_int_nat: "n < 2 ^ 64 \<Longrightarrow> size_of_int (int n) = n"
  by (simp add: size_of_int_def)

lemma strncmp_eq_0: "strncmp s t n = 0 \<longleftrightarrow> take n s = take n t"
  by (simp add: strncmp_def strcmp_eq_0)

lemma cstr_notequal_iff: "pointers same s t \<Longrightarrow> cstr_notequal same s t \<longleftrightarrow> s \<noteq> t"
  by (cases s; cases t) (auto simp: cstr_notequal_def pointers_def strcmp_eq_0)

lemma strstr_iff: "(\<exists>i. strstr s t = Some i) \<longleftrightarrow> (\<exists>u v. s = u @ t @ v)"
proof
  assume "\<exists>i. strstr s t = Some i"
  then obtain i where "strstr s t = Some i" by blast
  then show "\<exists>u v. s = u @ t @ v"
  proof (induction s t arbitrary: i rule: strstr.induct)
    case (2 c s t)
    show ?case
    proof (cases "take (length t) (c # s) = t")
      case True
      then have "c # s = [] @ t @ drop (length t) (c # s)" by (metis append_Nil append_take_drop_id)
      then show ?thesis by blast
    next
      case False
      then obtain u v where "s = u @ t @ v" using 2 by auto
      then have "c # s = (c # u) @ t @ v" by simp
      then show ?thesis by blast
    qed
  qed (auto split: if_splits)
next
  assume "\<exists>u v. s = u @ t @ v"
  then obtain u v where s: "s = u @ t @ v" by blast
  then show "\<exists>i. strstr s t = Some i"
  proof (induction u arbitrary: s)
    case Nil
    then have "take (length t) s = t" by simp
    then show ?case by (cases s) auto
  qed auto
qed

lemma endwith_suffix:
  assumes "length s < 2 ^ 64"
  shows "cstr_endwith False (Some s) (length s) (Some t) (length t) = suffix t s"
  using assms
  by (auto simp: cstr_endwith_def cstr_notequal_len_def strncmp_eq_0 size_of_int_nat suffix_def)
     (metis append_take_drop_id)

text \<open>
  on whole strings \<open>cstr_startwith\<close> and \<open>cstr_endwith\<close> decide whether the second string is a
  prefix or a suffix of the first, and \<open>cstr_containwith\<close> returns a position exactly when it
  occurs in it.
\<close>

theorem cstr_with_correct:
  assumes "length s < 2 ^ 64"
  shows "cstr_startwith False (Some s) (length s) (Some t) (length t) = prefix t s \<and>
    cstr_endwith False (Some s) (length s) (Some t) (length t) = suffix t s \<and>
    (cstr_containwith False (Some s) (length s) (Some t) (length t) \<ge> 0) = sublist t s"
proof (intro conjI)
  show "cstr_startwith False (Some s) (length s) (Some t) (length t) = prefix t s"
    by (auto simp: cstr_startwith_def memcmp_eq_def prefix_def) (metis append_take_drop_id)
  show "cstr_endwith False (Some s) (length s) (Some t) (length t) = suffix t s"
    using assms by (rule endwith_suffix)
  have "sublist t s \<Longrightarrow> length t \<le> length s" by (rule sublist_length_le)
  then show "(cstr_containwith False (Some s) (length s) (Some t) (length t) \<ge> 0) = sublist t s"
    using strstr_iff [of s t] by (auto simp: cstr_containwith_def sublist_def split: option.split)
qed

theorem cstr_with_correct_witness:
  "cstr_startwith False (Some ''HelloWorld'') 10 (Some ''Hello'') 5 \<and>
   \<not> cstr_startwith False (Some ''HelloWorld'') 10 (Some ''hello'') 5 \<and>
   cstr_endwith False (Some ''aaaaBBBB'') 8 (Some ''aBBBB'') 5"
proof -
  have l: "length ''HelloWorld'' < 2 ^ 64" "length ''aaaaBBBB'' < 2 ^ 64" by simp_all
  from cstr_with_correct [OF l(1), of "''Hello''"] cstr_with_correct [OF l(1), of "''hello''"]
    cstr_with_correct [OF l(2), of "''aBBBB''"]
  show ?thesis by (simp add: eval_nat_numeral suffix_def)
qed

text \<open>
  Two negative lengths make \<open>cstr_compare_len\<close> compare as \<open>strcmp\<close>, where a shorter string can
  be the greater one, unlike what the note of the function says.
\<close>

theorem cstr_compare_len_shorter_greater:
  "cstr_compare_len False (Some ''b'') (- 1) (Some ''aa'') (- 1) False > 0"
  by (simp add: cstr_compare_len_def)

lemma cstr_compare_len_zero:
  assumes "pointers same A B" "\<And>s. A = Some s \<Longrightarrow> length s < 2 ^ 64" "\<And>s. B = Some s \<Longrightarrow> length s < 2 ^ 64"
  shows "cstr_compare_len same A (case A of None \<Rightarrow> 0 | Some s \<Rightarrow> int (length s))
    B (case B of None \<Rightarrow> 0 | Some s \<Rightarrow> int (length s)) False = 0 \<longleftrightarrow> A = B"
  using assms
  by (cases A; cases B) (auto simp: cstr_compare_len_def pointers_def strncmp_eq_0 size_of_int_nat Let_def split: if_splits)

text \<open>\<open>cstr_findstr_in\<close> returns the first candidate that is equal to the string.\<close>

lemma findstr_loop_eq:
  assumes "list_all (\<lambda>(d, same). pointers same d (Some s)) dests"
  shows "findstr_loop (Some s) (length s) dests False i =
    (if Some s \<in> set (map fst dests)
     then int (i + length (takeWhile (\<lambda>d. d \<noteq> Some s) (map fst dests))) else - 1)"
  using assms
proof (induction dests arbitrary: i)
  case (Cons e dests)
  obtain d same where e: "e = (d, same)" by fastforce
  have "(cstr_length (Some u) (Some (Suc (length s))) = length s \<and> strncmp s u (length s) = 0) = (u = s)" for u
    by (auto simp: cstr_length_def strncmp_eq_0 min_def split: if_splits)
  then show ?case
    using Cons e by (cases d) (auto simp: pointers_def)
qed simp

subsubsection \<open>Buffers\<close>

lemma store_at_Some:
  "off + length bs \<le> length buf \<Longrightarrow> \<exists>b. store_at buf off bs = Some b \<and> length b = length buf \<and>
     take off b = take off buf \<and> take (length bs) (drop off b) = bs \<and>
     drop (off + length bs) b = drop (off + length bs) buf"
  by (simp add: store_at_def)

text \<open>
  \<open>cstr_safecopy\<close> into a buffer of the size given never writes outside of it and leaves a
  terminated string.  It answers 1 exactly when the source fits behind the offset; then the
  bytes before the offset are kept and the source and a null follow.
\<close>

theorem cstr_safecopy_correct:
  assumes "length dst = n" "0 < n" "m \<le> length src" "off + m < 2 ^ 64"
  shows "\<exists>r b. cstr_safecopy dst n off src m = Some (r, b) \<and> length b = n \<and> CHR 0x00 \<in> set b \<and>
    (r = 1 \<longleftrightarrow> off + m < n) \<and>
    (off + m < n \<longrightarrow> take off b = take off dst \<and> take (Suc m) (drop off b) = take m src @ [CHR 0x00])"
proof (cases "off + m < n")
  case True
  obtain b where b: "store_at dst off (take m src) = Some b" "length b = n" "take off b = take off dst"
    "take m (drop off b) = take m src"
    using store_at_Some [of off "take m src" dst] assms True by auto
  obtain c where c: "store_at b (off + m) [CHR 0x00] = Some c" "length c = n"
    "take (off + m) c = take (off + m) b" "take 1 (drop (off + m) c) = [CHR 0x00]"
    using store_at_Some [of "off + m" "[CHR 0x00]" b] b(2) True by auto
  have n: "c ! (off + m) = CHR 0x00" using c(2,4) True by (simp add: take_Suc_conv_app_nth)
  have "take off c = take off b" using arg_cong [OF c(3), of "take off"] by (simp add: min_def)
  moreover have "take m (drop off c) = take m (drop off b)"
    using arg_cong [OF c(3), of "drop off"] by (simp add: drop_take)
  moreover have "take (Suc m) (drop off c) = take m (drop off c) @ [CHR 0x00]"
    using c(2) True n by (simp add: take_Suc_conv_app_nth)
  moreover have "CHR 0x00 \<in> set c" using n c(2) True by (metis nth_mem)
  ultimately show ?thesis
    using b c assms True by (simp add: cstr_safecopy_def)
next
  case False
  have dots: "\<exists>c. (if n > 3 then store_at b (n - 4) ''...'' else Some b) = Some c \<and> length c = n"
    if "length b = n" for b
    using that by (auto simp: store_at_def)
  have "\<exists>b. (if off < n then do { b \<leftarrow> store_at dst off (take (n - off) src);
      if n > 3 then store_at b (n - 4) ''...'' else Some b } else Some dst) = Some b \<and> length b = n"
  proof (cases "off < n")
    case True
    obtain b where "store_at dst off (take (n - off) src) = Some b" "length b = n"
      using store_at_Some [of off "take (n - off) src" dst] assms True False by auto
    then show ?thesis using dots [of b] True by simp
  qed (use assms in simp)
  then obtain b where b: "(if off < n then do { b \<leftarrow> store_at dst off (take (n - off) src);
      if n > 3 then store_at b (n - 4) ''...'' else Some b } else Some dst) = Some b" "length b = n"
    by blast
  obtain c where c: "store_at b (n - 1) [CHR 0x00] = Some c" "length c = n" "drop (n - 1) c = [CHR 0x00]"
    using store_at_Some [of "n - 1" "[CHR 0x00]" b] assms(2) b(2) by (auto simp: take_all_iff)
  have "CHR 0x00 \<in> set c" using in_set_dropD [of _ "n - 1" c] c(3) by simp
  then show ?thesis
    using b(1) c assms False by (simp add: cstr_safecopy_def)
qed

theorem cstr_safecopy_correct_witness:
  "\<exists>b. cstr_safecopy ''abcdefgh'' 8 2 ''xyz'' 3 = Some (1, b) \<and> take 2 b = ''ab''"
proof -
  have "length ''abcdefgh'' = 8" "(0 :: nat) < 8" "3 \<le> length ''xyz''" "2 + 3 < (2 ^ 64 :: nat)" by simp_all
  from cstr_safecopy_correct [OF this] show ?thesis by (auto simp: eval_nat_numeral)
qed

subsubsection \<open>Lines\<close>

lemma readline_loop_line:
  "CHR 0x0A \<notin> set l \<Longrightarrow> length acc \<le> m \<Longrightarrow>
   readline_loop (l @ CHR 0x0A # rest) m iw acc = (False, take m (acc @ filter (line_keeps iw) l), rest)"
proof (induction l arbitrary: acc)
  case Nil
  then show ?case by (simp add: line_keeps_def)
next
  case (Cons c l)
  then show ?case
  proof (cases "length acc < m \<and> line_keeps iw c")
    case True
    then show ?thesis using Cons.IH [of "acc @ [c]"] Cons.prems by (auto simp: Let_def)
  next
    case False
    then show ?thesis
      using Cons.IH [of acc] Cons.prems by (auto simp: not_less Let_def)
  qed
qed

text \<open>
  \<open>cstr_readline\<close> reads the next line: the bytes up to the line feed, without carriage
  returns, backslashes and, if asked for, white space, cut to the maximum; the position moves
  behind the line feed.  A byte order mark at the start of the file is skipped.
\<close>

theorem cstr_readline_correct:
  assumes "CHR 0x0A \<notin> set l" "pre \<noteq> []"
  shows "cstr_readline (pre @ l @ CHR 0x0A # rest) (length pre) m iw =
      (Some (take m (filter (line_keeps iw) l)), length pre + Suc (length l)) \<and>
    cstr_readline ([CHR 0xEF, CHR 0xBB, CHR 0xBF] @ l @ CHR 0x0A # rest) 0 m iw =
      (Some (take m (filter (line_keeps iw) l)), 3 + Suc (length l))"
  using readline_loop_line [OF assms(1), of "[]" m rest iw] assms(2)
  by (simp add: cstr_readline_def)

theorem cstr_readline_correct_witness:
  "cstr_readline (''#'' @ ''a b'' @ CHR 0x0A # ''rest'') 1 80 True = (Some ''ab'', 5)"
proof -
  have "CHR 0x0A \<notin> set ''a b''" "''#'' \<noteq> []" by simp_all
  from cstr_readline_correct [OF this, of "''rest''" 80 True] show ?thesis
    by (simp add: line_keeps_def isspace_def)
qed

end
