(* ===== verification/CStrNum.thy ===== *)
theory CStrNum
  imports CStrFun
begin

section \<open>Numbers in strings\<close>

text \<open>
  \<open>cstr_isnumeric\<close>, \<open>cstr_to_sb8\<close> and \<open>cstr_to_ub8\<close> of \<open>src/src/common/cstrbuf.h\<close>, over
  \<open>strtoll\<close> and \<open>strtoull\<close> of the C library in the C locale.
\<close>

subsection \<open>C library\<close>

definition digit_value :: "char \<Rightarrow> nat" where
  "digit_value c =
     (let n = of_char c in
      if 48 \<le> n \<and> n \<le> 57 then n - 48
      else if 97 \<le> n \<and> n \<le> 122 then n - 87
      else if 65 \<le> n \<and> n \<le> 90 then n - 55
      else 99)"

text \<open>
  The common part of \<open>strtoll\<close> and \<open>strtoull\<close> for a base that is 0 or from 2 to 36: the sign and
  the magnitude of the longest number at the front, or nothing when there is none, in which
  case the end pointer is the start.
\<close>

definition hex_prefix :: "cstr \<Rightarrow> bool" where
  "hex_prefix s \<longleftrightarrow>
     (case s of
        a # b # c # _ \<Rightarrow> a = CHR ''0'' \<and> (b = CHR ''x'' \<or> b = CHR ''X'') \<and> digit_value c < 16
      | _ \<Rightarrow> False)"

definition strto_digits :: "nat \<Rightarrow> cstr \<Rightarrow> nat option" where
  "strto_digits base s =
     (let (b, s) =
        (if (base = 0 \<or> base = 16) \<and> hex_prefix s then (16, drop 2 s)
         else if base = 0 then (if take 1 s = ''0'' then 8 else 10, s)
         else (base, s));
        ds = takeWhile (\<lambda>c. digit_value c < b) s in
      if ds = [] then None else Some (foldl (\<lambda>v c. v * b + digit_value c) 0 ds))"

definition strto_number :: "nat \<Rightarrow> cstr \<Rightarrow> (bool \<times> nat) option" where
  "strto_number base s =
     (let s = dropWhile isspace s;
          (neg, s) = (case s of
             c # cs \<Rightarrow> if c = CHR ''-'' then (True, cs) else if c = CHR ''+'' then (False, cs) else (False, s)
           | [] \<Rightarrow> (False, s)) in
      map_option (Pair neg) (strto_digits base s))"

text \<open>
  The value, whether \<open>errno\<close> is set, and whether a number was found.  A base that is not
  supported sets \<open>errno\<close>; so does a number out of range, which gives the bound it passed.
\<close>

definition valid_base :: "int \<Rightarrow> bool" where
  "valid_base base \<longleftrightarrow> base = 0 \<or> 2 \<le> base \<and> base \<le> 36"

definition strtoll :: "int \<Rightarrow> cstr \<Rightarrow> int \<times> bool \<times> bool" where
  "strtoll base s =
     (if \<not> valid_base base then (0, True, False)
      else case strto_number (nat base) s of
        None \<Rightarrow> (0, False, False)
      | Some (neg, v) \<Rightarrow>
          (let i = (if neg then - int v else int v) in
           if i < - (2 ^ 63) then (- (2 ^ 63), True, True)
           else if i \<ge> 2 ^ 63 then (2 ^ 63 - 1, True, True)
           else (i, False, True)))"

definition strtoull :: "int \<Rightarrow> cstr \<Rightarrow> 64 word \<times> bool \<times> bool" where
  "strtoull base s =
     (if \<not> valid_base base then (0, True, False)
      else case strto_number (nat base) s of
        None \<Rightarrow> (0, False, False)
      | Some (neg, v) \<Rightarrow>
          if v \<ge> 2 ^ 64 then (- 1, True, True)
          else (if neg then - of_nat v else of_nat v, False, True))"

subsection \<open>Conversions\<close>

text \<open>
  The result is the return code and the value stored.  A length of \<open>None\<close> is the -1 of the
  code; a length given is at most that of the string, whose first characters are converted.
\<close>

definition num_text :: "cstr \<Rightarrow> nat option \<Rightarrow> cstr" where
  "num_text s slen = (case slen of None \<Rightarrow> s | Some n \<Rightarrow> take n s)"

definition cstr_to_sb8 :: "int \<Rightarrow> cstr option \<Rightarrow> nat option \<Rightarrow> int \<times> int" where
  "cstr_to_sb8 base sp slen =
     (case sp of
        None \<Rightarrow> (0, 0)
      | Some s \<Rightarrow>
          if slen = Some 0 then (0, 0)
          else case strtoll base (num_text s slen) of
            (val, errno, found) \<Rightarrow>
              if val = 0 \<and> \<not> found then (- 1, val)
              else if errno then (- 1, val)
              else (1, val))"

definition cstr_to_ub8 :: "int \<Rightarrow> cstr option \<Rightarrow> nat option \<Rightarrow> int \<times> 64 word" where
  "cstr_to_ub8 base sp slen =
     (case sp of
        None \<Rightarrow> (0, 0)
      | Some s \<Rightarrow>
          if slen = Some 0 then (0, 0)
          else case strtoull base (num_text s slen) of
            (val, errno, found) \<Rightarrow>
              if val = 0 \<and> \<not> found then (- 1, val)
              else if errno then (- 1, val)
              else (1, val))"

text \<open>
  \<open>cstr_isnumeric\<close> trims its argument in place; the result is the answer and the string the
  argument holds afterwards.
\<close>

fun isnumeric_loop :: "cstr \<Rightarrow> nat \<Rightarrow> bool" where
  "isnumeric_loop [] dots = True"
| "isnumeric_loop (c # s) dots =
     (if \<not> isdigit c then
        (if c = CHR ''.'' then (if Suc dots > 1 then False else isnumeric_loop s (Suc dots)) else False)
      else isnumeric_loop s dots)"

definition cstr_isnumeric :: "cstr \<Rightarrow> nat option \<Rightarrow> bool \<times> cstr" where
  "cstr_isnumeric numeric n =
     (let s = cstr_LRtrim_whitespace numeric;
          k = cstr_length (Some s) n;
          t = take k s in
      (if k < 1 \<or> k > 40 then False
       else isnumeric_loop (if s ! 0 = CHR ''+'' \<or> s ! 0 = CHR ''-'' then drop 1 t else t) 0,
       takeWhile isspace numeric @ s))"

subsection \<open>Lemmas and properties\<close>

lemma isnumeric_loop_eq:
  "isnumeric_loop s dots \<longleftrightarrow>
     list_all (\<lambda>c. isdigit c \<or> c = CHR ''.'') s \<and> length (filter (\<lambda>c. c = CHR ''.'') s) + min dots 1 \<le> 1 \<or>
     list_all isdigit s"
  by (induction s arbitrary: dots) (auto simp: isdigit_def list_all_iff filter_empty_conv)

text \<open>A sign or a dot alone passes as a number, although there is no digit to convert.\<close>

theorem cstr_isnumeric_no_digit:
  "fst (cstr_isnumeric ''+'' None) \<and> fst (cstr_isnumeric ''.'' None) \<and>
   fst (cstr_to_sb8 10 (Some ''+'') None) = - 1"
  by (simp add: cstr_isnumeric_def cstr_LRtrim_whitespace_eq strip_def rstrip_def isspace_def
      cstr_length_def isdigit_def cstr_to_sb8_def strtoll_def strto_number_def strto_digits_def
      num_text_def valid_base_def)

lemma digit_value_digit: "isdigit c \<Longrightarrow> digit_value c < 10 \<and> int (digit_value c) = int (of_char c) - 48"
  by (auto simp: digit_value_def isdigit_def Let_def)

lemma digits_val_foldl:
  "list_all isdigit s \<Longrightarrow> int (foldl (\<lambda>v c. v * 10 + digit_value c) v s) = digits_val (int v) s"
  by (induction s arbitrary: v) (simp_all add: digit_value_digit)

lemma strto_digits_dec: "strto_digits 10 (dec_nat n) = Some n"
proof -
  have d: "list_all isdigit (dec_nat n)" "dec_nat n \<noteq> []" using dec_nat_digits [of n] by auto
  then have tw: "takeWhile (\<lambda>c. digit_value c < 10) (dec_nat n) = dec_nat n"
    by (auto simp: takeWhile_eq_all_conv list_all_iff digit_value_digit)
  have "int (foldl (\<lambda>v c. v * 10 + digit_value c) 0 (dec_nat n)) = int n"
    using digits_val_foldl [of "dec_nat n" 0] d(1) by (simp add: digits_val_dec_nat)
  then show ?thesis by (simp add: strto_digits_def tw d(2))
qed

lemma strto_number_dec: "strto_number 10 (dec i) = Some (i < 0, nat \<bar>i\<bar>)"
proof -
  obtain c cs where c: "dec_nat (nat \<bar>i\<bar>) = c # cs" "isdigit c"
    using dec_nat_digits [of "nat \<bar>i\<bar>"] by (cases "dec_nat (nat \<bar>i\<bar>)") auto
  then have sp: "\<not> isspace c" "\<not> isspace (CHR ''-'')" "c \<noteq> CHR ''-''" "c \<noteq> CHR ''+''"
    by (auto simp: isdigit_def isspace_def)
  have d: "dec i = (if i < 0 then CHR ''-'' # c # cs else c # cs)"
    using c(1) by (cases "i < 0") (simp_all add: dec_def)
  show ?thesis
    using sp strto_digits_dec [of "nat \<bar>i\<bar>"] unfolding d c(1) by (simp add: strto_number_def)
qed

text \<open>
  printing a number and converting it back: \<open>cstr_to_sb8\<close> gives every 64-bit integer back
  and refuses every other one with the nearest bound; \<open>cstr_to_ub8\<close> gives every unsigned 64-bit
  integer back.
\<close>

theorem cstr_to_sb8_dec:
  "cstr_to_sb8 10 (Some (dec i)) None =
     (if i < - (2 ^ 63) then (- 1, - (2 ^ 63)) else if i \<ge> 2 ^ 63 then (- 1, 2 ^ 63 - 1) else (1, i)) \<and>
   cstr_to_ub8 10 (Some (dec (uint w))) None = (1, w)"
proof
  show "cstr_to_sb8 10 (Some (dec i)) None =
     (if i < - (2 ^ 63) then (- 1, - (2 ^ 63)) else if i \<ge> 2 ^ 63 then (- 1, 2 ^ 63 - 1) else (1, i))"
    by (simp add: cstr_to_sb8_def strtoll_def valid_base_def num_text_def strto_number_dec Let_def)
  have "nat (uint w) < 2 ^ 64" using unsigned_less [of w] by simp
  moreover have "of_nat (nat (uint w)) = w" by simp
  ultimately show "cstr_to_ub8 10 (Some (dec (uint w))) None = (1, w)"
    by (simp add: cstr_to_ub8_def strtoull_def valid_base_def num_text_def strto_number_dec not_less)
qed

end
