(* ===== verification/CStrTime.thy ===== *)
theory CStrTime
  imports CStrCmp CStrNum
begin

section \<open>Dates and times in strings\<close>

text \<open>
  The date and time functions of \<open>src/src/common/cstrbuf.h\<close>.  The conversions between calendar
  time and seconds, \<open>mktime\<close> and \<open>localtime_r\<close>, depend on the time zone of the machine and are
  arguments.  The parser writes nulls into its argument to cut it; here the parts are taken
  from the string.  Pointers are indexes.
\<close>

subsection \<open>C library\<close>

definition strchr_at :: "cstr \<Rightarrow> char \<Rightarrow> nat option" where
  "strchr_at s c = (if c \<in> set s then Some (length (takeWhile (\<lambda>d. d \<noteq> c) s)) else None)"

definition strrchr_at :: "cstr \<Rightarrow> char \<Rightarrow> nat option" where
  "strrchr_at s c =
     (if c \<in> set s then Some (length s - Suc (length (takeWhile (\<lambda>d. d \<noteq> c) (rev s)))) else None)"

text \<open>Printing with \<open>%0<w>d\<close>.\<close>

definition dec_pad :: "nat \<Rightarrow> int \<Rightarrow> cstr" where
  "dec_pad w i =
     (let s = dec_nat (nat \<bar>i\<bar>); sign = (if i < 0 then ''-'' else []) in
      sign @ replicate (w - length sign - length s) (CHR ''0'') @ s)"

text \<open>
  \<open>snprintf_chkd_V1\<close> of \<open>src/src/common/unitypes.h\<close> behind a text already in the buffer: the new
  contents and the length returned.  Without room for the null it writes the null in front of
  the position and returns -1.
\<close>

definition snprintf_chkd_V1 :: "cstr \<Rightarrow> nat \<Rightarrow> cstr \<Rightarrow> cstr \<times> int" where
  "snprintf_chkd_V1 front bufsize out =
     (if bufsize = 0 then (butlast front, - 1)
      else (front @ take (bufsize - 1) out, int (min (bufsize - 1) (length out))))"

subsection \<open>Dates\<close>

record cstr_datetime =
  year :: int
  month :: int
  day :: int
  hour :: int
  minute :: int
  second :: int
  millisecond :: int
  timezone :: int

definition CSTR_DATETIME_SIZE_MAX :: nat where "CSTR_DATETIME_SIZE_MAX = 30"

definition TM_YEAR_IS_LEAP :: "int \<Rightarrow> bool" where
  "TM_YEAR_IS_LEAP y =
     (if y mod 4 \<noteq> 0 then False else if y mod 100 \<noteq> 0 then True else if y mod 400 \<noteq> 0 then False else True)"

definition time_is_valid :: "int \<Rightarrow> int \<Rightarrow> int \<Rightarrow> int \<Rightarrow> int \<Rightarrow> int \<Rightarrow> bool" where
  "time_is_valid y mon d h mi s =
     (if y < 1900 \<or> y > 9999 \<or> mon \<le> 0 \<or> mon > 12 \<or> d \<le> 0 \<or> d > 31 \<or> h < 0 \<or> h > 24 \<or>
         mi < 0 \<or> mi > 59 \<or> s < 0 \<or> s > 60 then False
      else if mon = 1 \<or> mon = 3 \<or> mon = 5 \<or> mon = 7 \<or> mon = 8 \<or> mon = 10 \<or> mon = 12 then True
      else if mon = 4 \<or> mon = 6 \<or> mon = 9 \<or> mon = 11 then d < 31
      else if d > 29 then False else if d < 29 then True else TM_YEAR_IS_LEAP y)"

text \<open>The parts of the output are appended in turn, in what is left of the buffer.\<close>

definition put_part :: "cstr \<Rightarrow> cstr \<Rightarrow> cstr" where
  "put_part acc out = fst (snprintf_chkd_V1 acc (CSTR_DATETIME_SIZE_MAX - length acc) out)"

definition cstr_datetime_print :: "cstr_datetime \<Rightarrow> cstr" where
  "cstr_datetime_print dt =
     (let acc = [];
          acc = (if year dt \<noteq> - 1 then
                   put_part acc (dec_pad 4 (year dt) @ ''-'' @ dec_pad 2 (month dt) @ ''-'' @ dec_pad 2 (day dt))
                 else acc);
          acc = (if hour dt \<noteq> - 1 then
                   put_part (if acc \<noteq> [] then acc @ '' '' else acc)
                     (dec_pad 2 (hour dt) @ '':'' @ dec_pad 2 (minute dt) @ '':'' @ dec_pad 2 (second dt))
                 else acc);
          acc = (if millisecond dt \<noteq> - 1 then put_part acc (''.'' @ dec_pad 3 (millisecond dt)) else acc)
      in if timezone dt \<noteq> - 1 then
           put_part acc
             ((if timezone dt < 0 then ''W'' else ''+'') @ dec_pad 2 (\<bar>timezone dt\<bar> div 100) @ '':'' @
              dec_pad 2 (\<bar>timezone dt\<bar> mod 100))
         else acc)"

definition cstr_parse_timezone :: "cstr \<Rightarrow> int" where
  "cstr_parse_timezone tz =
     (let c = char_at tz in
      let sign = (if c 0 = CHR ''+'' \<or> c 0 = CHR ''E'' then 1
                  else if c 0 = CHR ''-'' \<or> c 0 = CHR ''W'' then - 1 else 0 :: int) in
      if sign = 0 then - 1
      else if isdigit (c 1) \<and> isdigit (c 2) \<and> (c 3 = CHR '':'' \<or> c 3 = CHR ''.'') \<and>
              isdigit (c 4) \<and> isdigit (c 5) \<and> c 6 = CHR 0x00 then
        (let h = atoi [c 1, c 2]; m = atoi [c 4, c 5] in
         if h > 23 then - 1 else if m > 59 then - 1 else (h * 100 + m) * sign)
      else - 1)"

subsection \<open>Parsing\<close>

text \<open>The search for the start of the time zone.\<close>

definition find_timezone :: "cstr \<Rightarrow> nat option" where
  "find_timezone s =
     (case strchr_at s (CHR ''+'') of Some i \<Rightarrow> Some i | None \<Rightarrow>
     (case strchr_at s (CHR ''E'') of Some i \<Rightarrow> Some i | None \<Rightarrow>
     (case strchr_at s (CHR ''W'') of Some i \<Rightarrow> Some i | None \<Rightarrow>
     (case strrchr_at s (CHR ''-'') of None \<Rightarrow> None | Some i \<Rightarrow>
        if char_at s (i + 1) \<noteq> CHR 0x00 \<and> char_at s (i + 2) \<noteq> CHR 0x00 \<and>
           (char_at s (i + 3) = CHR '':'' \<or> char_at s (i + 3) = CHR ''.'') then Some i else None))))"

text \<open>The text between quotes, or the whole trimmed text, with the length the code takes of it.\<close>

definition unquote :: "cstr \<Rightarrow> cstr \<times> int" where
  "unquote s =
     (case (strchr_at s (CHR 39), strrchr_at s (CHR 39)) of
        (Some a, Some b) \<Rightarrow> (take (b - a - 1) (drop (a + 1) s), int b - int a - 1)
      | _ \<Rightarrow> (s, int (cstr_length (Some s) (Some 30))))"

text \<open>Two separators, at the places expected, and the three parts they make.\<close>

definition three_parts :: "char \<Rightarrow> nat \<Rightarrow> cstr \<Rightarrow> (cstr \<times> cstr \<times> cstr) option" where
  "three_parts c k s =
     (case (strchr_at s c, strrchr_at s c) of
        (Some a, Some b) \<Rightarrow>
          if a = k \<and> int b - int a = 3
          then Some (take k s, take 2 (take (b - a - 1) (drop (a + 1) s)), drop (b + 1) s)
          else None
      | _ \<Rightarrow> None)"

record parsed =
  Year :: cstr
  Mon :: cstr
  Day :: cstr
  hh :: cstr
  mm :: cstr
  ss :: cstr
  msec :: cstr
  HMS :: bool
  MMM :: bool

text \<open>The three layouts, told apart by the length.\<close>

definition parse_layout :: "cstr \<Rightarrow> int \<Rightarrow> parsed option" where
  "parse_layout s n =
     (if n = 10 then do {
        (y, m, d) \<leftarrow> three_parts (CHR ''-'') 4 s;
        Some \<lparr>Year = y, Mon = m, Day = take 2 d, hh = ''00'', mm = ''00'', ss = ''00'', msec = ''000'',
              HMS = False, MMM = False\<rparr> }
      else if n = 19 then do {
        a \<leftarrow> strchr_at s (CHR '' '');
        if a = 10 then do {
          (y, m, d) \<leftarrow> three_parts (CHR ''-'') 4 (take 10 s);
          (h, mi, sec) \<leftarrow> three_parts (CHR '':'') 2 (drop 11 s);
          Some \<lparr>Year = y, Mon = m, Day = take 2 d, hh = h, mm = mi, ss = take 2 sec, msec = ''000'',
                HMS = True, MMM = False\<rparr> }
        else None }
      else if n = 23 then do {
        a \<leftarrow> strchr_at s (CHR '' '');
        if a = 10 then do {
          (y, m, d) \<leftarrow> three_parts (CHR ''-'') 4 (take 10 s);
          (h, mi, sec) \<leftarrow> three_parts (CHR '':'') 2 (drop 11 s);
          dot \<leftarrow> strchr_at sec (CHR ''.'');
          if dot = 2 then
            Some \<lparr>Year = y, Mon = m, Day = take 2 d, hh = h, mm = mi, ss = take 2 sec,
                  msec = take 3 (take 3 (drop 3 sec) @ ''000''), HMS = True, MMM = True\<rparr>
          else None }
        else None }
      else None)"

text \<open>
  The result of \<open>cstr_parse_timestamp\<close>: the error \<open>(ub8)(-1)\<close>, or the stamp and what is stored
  in the output structure if there is one.  \<open>Undefined\<close> is an access through a null pointer.
\<close>

datatype parse_result = Undefined | Failed | Stamp "64 word" "cstr_datetime option"

definition fields_ok :: "parsed \<Rightarrow> bool" where
  "fields_ok p \<longleftrightarrow> cstr_isdigit (Year p) 4 \<and> cstr_isdigit (Mon p) 2 \<and> cstr_isdigit (Day p) 2 \<and>
     cstr_isdigit (hh p) 2 \<and> cstr_isdigit (mm p) 2 \<and> cstr_isdigit (ss p) 2 \<and> cstr_isdigit (msec p) 3"

definition out_datetime :: "parsed \<Rightarrow> int \<Rightarrow> cstr_datetime" where
  "out_datetime p tz =
     \<lparr>year = atoi (Year p), month = atoi (Mon p), day = atoi (Day p),
      hour = (if HMS p then atoi (hh p) else - 1),
      minute = (if HMS p then atoi (mm p) else 0),
      second = (if HMS p then atoi (ss p) else 0),
      millisecond = (if MMM p then atoi (msec p) else - 1),
      timezone = tz\<rparr>"

definition finish_parse :: "(int \<times> int \<times> int \<times> int \<times> int \<times> int \<Rightarrow> int) \<Rightarrow> bool \<Rightarrow> int \<Rightarrow> parsed \<Rightarrow> parse_result" where
  "finish_parse mktime has_out tz p =
     (if \<not> fields_ok p then Failed
      else if \<not> time_is_valid (atoi (Year p)) (atoi (Mon p)) (atoi (Day p)) (atoi (hh p)) (atoi (mm p)) (atoi (ss p))
      then Failed
      else
        (let tsec = of_int (mktime (atoi (Year p) - 1900, atoi (Mon p) - 1, atoi (Day p),
               atoi (hh p), atoi (mm p), atoi (ss p))) :: 64 word in
         if tsec = - 1 then Failed
         else if \<not> has_out \<and> (\<not> HMS p \<or> \<not> MMM p) then Undefined
         else Stamp (tsec * 1000 + of_int (atoi (msec p)))
                (if has_out then Some (out_datetime p tz) else None)))"

definition cstr_parse_timestamp ::
    "(int \<times> int \<times> int \<times> int \<times> int \<times> int \<Rightarrow> int) \<Rightarrow> cstr \<Rightarrow> bool \<Rightarrow> parse_result" where
  "cstr_parse_timestamp mktime timestr has_out =
     (let tz = find_timezone timestr;
          zone = (case tz of None \<Rightarrow> - 1 | Some i \<Rightarrow> cstr_parse_timezone (drop i timestr)) in
      if tz \<noteq> None \<and> zone = - 1 then Failed
      else
        (let t = (case tz of None \<Rightarrow> timestr | Some i \<Rightarrow> take i timestr);
             (s, n) = unquote (cstr_LRtrim_whitespace t) in
         case parse_layout s n of
           None \<Rightarrow> Failed
         | Some p \<Rightarrow> finish_parse mktime has_out zone p))"

text \<open>
  \<open>cstr_timestamp_to_datetime\<close>; the conversion of the stamp fails with -1 and gives 0 only for
  an empty string.
\<close>

definition cstr_timestamp_to_datetime ::
    "(int \<Rightarrow> (int \<times> int \<times> int \<times> int \<times> int \<times> int) option) \<Rightarrow> cstr option \<Rightarrow> int \<Rightarrow> cstr option" where
  "cstr_timestamp_to_datetime localtime stampms mslen =
     (let n = (if mslen = - 1 then cstr_length stampms (Some 20) else nat (mslen mod 2 ^ 64));
          (r, stamp) = cstr_to_ub8 10 stampms (Some n) in
      if r = 0 then None
      else
        (let tsec = sint (stamp div 1000); ms = int (unat (stamp mod 1000)) in
         case localtime tsec of
           None \<Rightarrow> None
         | Some (y, mon, d, h, mi, s) \<Rightarrow>
             if \<not> time_is_valid (y + 1900) (mon + 1) d h mi s then None
             else
               (let t = dec_pad 4 (y + 1900) @ ''-'' @ dec_pad 2 (mon + 1) @ ''-'' @ dec_pad 2 d @ '' '' @
                        dec_pad 2 h @ '':'' @ dec_pad 2 mi @ '':'' @ dec_pad 2 s in
                if ms \<noteq> 0 then Some (fst (snprintf_chkd_V1 [] 24 (t @ ''.'' @ dec_pad 3 ms)))
                else Some (fst (snprintf_chkd_V1 [] 20 t)))))"

subsection \<open>Fixed-width numbers\<close>

fun digits :: "nat \<Rightarrow> nat \<Rightarrow> cstr" where
  "digits 0 n = []"
| "digits (Suc w) n = digits w (n div 10) @ [char_of (48 + n mod 10)]"

lemma char_of_48: "char_of (48 :: nat) = CHR ''0''"
  by code_simp

lemma digits_zero: "digits w 0 = replicate w (CHR ''0'')"
  by (induction w) (simp_all add: replicate_append_same char_of_48)

lemma dec_nat_small: "n < 10 \<Longrightarrow> dec_nat n = [char_of (48 + n)]"
  by (subst dec_nat.simps) simp

lemma dec_nat_large: "10 \<le> n \<Longrightarrow> dec_nat n = dec_nat (n div 10) @ [char_of (48 + n mod 10)]"
  by (subst dec_nat.simps) simp

lemma digits_dec_nat:
  "0 < w \<Longrightarrow> n < 10 ^ w \<Longrightarrow> digits w n = replicate (w - length (dec_nat n)) (CHR ''0'') @ dec_nat n"
proof (induction w arbitrary: n)
  case (Suc w)
  show ?case
  proof (cases "n < 10")
    case True
    then show ?thesis by (simp add: dec_nat_small digits_zero)
  next
    case False
    then have "0 < w" "n div 10 < 10 ^ w" using Suc.prems by (cases w; simp add: less_mult_imp_div_less)+
    then show ?thesis using False Suc.IH [of "n div 10"] by (simp add: dec_nat_large)
  qed
qed simp

lemma dec_pad_digits: "0 < w \<Longrightarrow> 0 \<le> i \<Longrightarrow> i < 10 ^ w \<Longrightarrow> dec_pad w i = digits w (nat i)"
  by (simp add: dec_pad_def digits_dec_nat nat_less_iff Let_def)

lemma digits_props: "length (digits w n) = w" "list_all isdigit (digits w n)"
  by (induction w arbitrary: n) simp_all

lemma digits_val_digits: "n < 10 ^ w \<Longrightarrow> digits_val acc (digits w n) = acc * 10 ^ w + int n"
proof (induction w arbitrary: n acc)
  case (Suc w)
  then have "n div 10 < 10 ^ w" by (simp add: less_mult_imp_div_less)
  then have "digits_val acc (digits (Suc w) n) = (acc * 10 ^ w + int (n div 10)) * 10 + int (n mod 10)"
    using Suc.IH [of "n div 10" acc] digits_props(2) [of w "n div 10"] by (simp add: digits_val_append)
  also have "\<dots> = acc * 10 ^ Suc w + (int (n div 10) * 10 + int (n mod 10))"
    by (simp add: distrib_right)
  also have "int (n div 10) * 10 + int (n mod 10) = int n"
    by (simp add: of_nat_div of_nat_mod)
  finally show ?case .
qed simp

lemma atoi_digit_string:
  assumes "list_all isdigit s" "s \<noteq> []" "digits_val 0 s < 2 ^ 31" "0 \<le> digits_val 0 s"
  shows "atoi s = digits_val 0 s"
proof -
  obtain c cs where s: "s = c # cs" "isdigit c" using assms(1,2) by (cases s) auto
  then have "\<not> isspace c" "c \<noteq> CHR ''-''" "c \<noteq> CHR ''+''"
    by (auto simp: isdigit_def isspace_def)
  then have "strtol10 s = digits_val 0 s"
    using assms(3) s(1) by (simp add: strtol10_def del: digits_val.simps)
  then show ?thesis using assms(3,4) by (simp add: atoi_def int32_id)
qed

lemma atoi_digits:
  assumes "0 < w" "n < 10 ^ w" "int n < 2 ^ 31"
  shows "atoi (digits w n) = int n"
proof -
  have v: "digits_val 0 (digits w n) = int n" using digits_val_digits [OF assms(2), of 0] by simp
  have "length (digits w n) = w" by (rule digits_props(1))
  then have "digits w n \<noteq> []" using assms(1) by (cases "digits w n") simp_all
  then have "atoi (digits w n) = digits_val 0 (digits w n)"
    by (rule atoi_digit_string [OF digits_props(2)]) (simp_all only: v assms(3) of_nat_0_le_iff)
  then show ?thesis by (simp only: v)
qed

lemma cstr_isdigit_all: "n \<le> length s \<Longrightarrow> list_all isdigit s \<Longrightarrow> cstr_isdigit s n"
  by (induction n) (auto simp: list_all_length)

lemma digits2: "digits 2 n = [char_of (48 + n div 10 mod 10), char_of (48 + n mod 10)]"
  by (simp add: numeral_2_eq_2)

lemma digits3: "digits 3 n = [char_of (48 + n div 100 mod 10), char_of (48 + n div 10 mod 10), char_of (48 + n mod 10)]"
  using digits.simps(2) [of 2 n] by (simp add: digits2 flip: div_mult2_eq)

lemma digits4: "digits 4 n = [char_of (48 + n div 1000 mod 10), char_of (48 + n div 100 mod 10),
    char_of (48 + n div 10 mod 10), char_of (48 + n mod 10)]"
  using digits.simps(2) [of 3 n] by (simp add: digits3 flip: div_mult2_eq)

subsection \<open>Finding separators\<close>

lemma strchr_at_notin: "c \<notin> set s \<Longrightarrow> strchr_at s c = None" "c \<notin> set s \<Longrightarrow> strrchr_at s c = None"
  by (simp_all add: strchr_at_def strrchr_at_def)

lemma strchr_at_first: "c \<notin> set s \<Longrightarrow> strchr_at (s @ c # t) c = Some (length s)"
  by (auto simp: strchr_at_def takeWhile_append takeWhile_eq_all_conv)

lemma strrchr_at_last: "c \<notin> set t \<Longrightarrow> strrchr_at (s @ c # t) c = Some (length s)"
  by (auto simp: strrchr_at_def takeWhile_append takeWhile_eq_all_conv)

lemma digit_not_special:
  assumes "isdigit c"
  shows "c \<noteq> CHR ''-''" "c \<noteq> CHR '':''" "c \<noteq> CHR ''.''" "c \<noteq> CHR '' ''" "c \<noteq> CHR ''+''" "c \<noteq> CHR ''E''"
    "c \<noteq> CHR ''W''" "c \<noteq> CHR 39" "c \<noteq> CHR 0x00" "\<not> isspace c"
  using assms by (auto simp: isdigit_def isspace_def)

text \<open>Three numbers between separators.\<close>

lemma three_parts_join:
  assumes "c \<notin> set u" "c \<notin> set v" "c \<notin> set w" "length v = 2"
  shows "three_parts c (length u) (u @ c # v @ c # w) = Some (u, v, w)"
proof -
  have "strchr_at (u @ c # v @ c # w) c = Some (length u)"
    by (rule strchr_at_first [OF assms(1)])
  moreover have "strrchr_at (u @ c # v @ c # w) c = Some (length u + 3)"
    using strrchr_at_last [OF assms(3), of "u @ c # v"] assms(4) by simp
  ultimately show ?thesis
    using assms(4) by (simp add: three_parts_def)
qed

subsection \<open>The round trip\<close>

text \<open>The text of a date, of a time and of a time zone.\<close>

definition date_text :: "cstr_datetime \<Rightarrow> cstr" where
  "date_text dt = digits 4 (nat (year dt)) @ CHR ''-'' # digits 2 (nat (month dt)) @ CHR ''-'' #
     digits 2 (nat (day dt))"

definition time_text :: "cstr_datetime \<Rightarrow> cstr" where
  "time_text dt = digits 2 (nat (hour dt)) @ CHR '':'' # digits 2 (nat (minute dt)) @ CHR '':'' #
     digits 2 (nat (second dt))"

definition zone_text :: "int \<Rightarrow> cstr" where
  "zone_text z = (if z < 0 then CHR ''W'' else CHR ''+'') # digits 2 (nat (\<bar>z\<bar> div 100)) @ CHR '':'' #
     digits 2 (nat (\<bar>z\<bar> mod 100))"

definition main_text :: "cstr_datetime \<Rightarrow> cstr" where
  "main_text dt = date_text dt @
     (if hour dt = - 1 then []
      else CHR '' '' # time_text dt @ (if millisecond dt = - 1 then [] else CHR ''.'' # digits 3 (nat (millisecond dt))))"

text \<open>
  What a date has to be for the round trip: a date the program takes as valid, a time or none,
  milliseconds only with a time, and a time zone the parser takes or none.
\<close>

definition printable :: "cstr_datetime \<Rightarrow> bool" where
  "printable dt \<longleftrightarrow>
     time_is_valid (year dt) (month dt) (day dt) (if hour dt = - 1 then 0 else hour dt) (minute dt) (second dt) \<and>
     (hour dt = - 1 \<longrightarrow> minute dt = 0 \<and> second dt = 0 \<and> millisecond dt = - 1) \<and>
     - 1 \<le> millisecond dt \<and> millisecond dt \<le> 999 \<and>
     \<bar>timezone dt\<bar> div 100 \<le> 23 \<and> \<bar>timezone dt\<bar> mod 100 \<le> 59"

lemma printable_ranges:
  assumes "printable dt"
  shows "1900 \<le> year dt" "year dt \<le> 9999" "0 < month dt" "month dt \<le> 12" "0 < day dt" "day dt \<le> 31"
    "- 1 \<le> hour dt" "hour dt \<le> 24" "0 \<le> minute dt" "minute dt \<le> 59" "0 \<le> second dt" "second dt \<le> 60"
    "- 1 \<le> millisecond dt" "millisecond dt \<le> 999"
  using assms by (auto simp: printable_def time_is_valid_def split: if_splits)

lemma text_lengths:
  "length (date_text dt) = 10" "length (time_text dt) = 8" "length (zone_text z) = 6"
  by (simp_all add: date_text_def time_text_def zone_text_def digits_props)

lemma print_main:
  assumes "printable dt"
  shows "cstr_datetime_print dt = main_text dt @ (if timezone dt = - 1 then [] else zone_text (timezone dt))"
proof -
  note r = printable_ranges [OF assms]
  have z: "\<bar>timezone dt\<bar> div 100 \<le> 23" "\<bar>timezone dt\<bar> mod 100 \<le> 59"
    using assms by (auto simp: printable_def)
  have p: "put_part acc out = acc @ out" if "length acc + length out < 30" for acc out
    using that by (simp add: put_part_def snprintf_chkd_V1_def CSTR_DATETIME_SIZE_MAX_def)
  have d: "dec_pad 4 (year dt) @ ''-'' @ dec_pad 2 (month dt) @ ''-'' @ dec_pad 2 (day dt) = date_text dt"
    using r by (simp add: dec_pad_digits date_text_def)
  have t: "dec_pad 2 (hour dt) @ '':'' @ dec_pad 2 (minute dt) @ '':'' @ dec_pad 2 (second dt) = time_text dt"
    if "hour dt \<noteq> - 1" using r that by (simp add: dec_pad_digits time_text_def)
  have m: "dec_pad 3 (millisecond dt) = digits 3 (nat (millisecond dt))" if "millisecond dt \<noteq> - 1"
    using r that by (simp add: dec_pad_digits)
  have zt: "(if timezone dt < 0 then ''W'' else ''+'') @ dec_pad 2 (\<bar>timezone dt\<bar> div 100) @ '':'' @
      dec_pad 2 (\<bar>timezone dt\<bar> mod 100) = zone_text (timezone dt)"
    using z by (simp add: dec_pad_digits zone_text_def)
  have ms: "hour dt = - 1 \<Longrightarrow> millisecond dt = - 1" using assms by (simp add: printable_def)
  have ne: "date_text dt \<noteq> []" "year dt \<noteq> - 1" using text_lengths(1) [of dt] r(1) by auto
  show ?thesis
    unfolding cstr_datetime_print_def Let_def d zt main_text_def
    using t m ms ne by (auto simp: p text_lengths digits_props)
qed

lemma set_digits: "c \<in> set (digits w n) \<Longrightarrow> isdigit c"
  using digits_props(2) [of w n] by (auto simp: list_all_iff)

lemma digits_special [simp]:
  "CHR ''-'' \<notin> set (digits w n)" "CHR '':'' \<notin> set (digits w n)" "CHR ''.'' \<notin> set (digits w n)"
  "CHR '' '' \<notin> set (digits w n)" "CHR ''+'' \<notin> set (digits w n)" "CHR ''E'' \<notin> set (digits w n)"
  by (auto dest!: set_digits simp: isdigit_def)

lemma main_text_chars:
  "c \<in> set (main_text dt) \<Longrightarrow> isdigit c \<or> c \<in> {CHR ''-'', CHR '':'', CHR ''.'', CHR '' ''}"
  by (auto simp: main_text_def date_text_def time_text_def split: if_splits dest: set_digits)

lemma main_text_notin:
  "CHR ''+'' \<notin> set (main_text dt)" "CHR ''E'' \<notin> set (main_text dt)" "CHR ''W'' \<notin> set (main_text dt)"
  "CHR 39 \<notin> set (main_text dt)"
  using main_text_chars [of _ dt] by (auto dest: digit_not_special)

lemma find_timezone_main:
  "find_timezone (main_text dt @ zone_text z) = Some (length (main_text dt))"
proof -
  note f = strchr_at_first [OF main_text_notin(1), of dt] strchr_at_first [OF main_text_notin(3), of dt]
  show ?thesis
  proof (cases "z < 0")
    case True
    then have "CHR ''+'' \<notin> set (main_text dt @ zone_text z)" "CHR ''E'' \<notin> set (main_text dt @ zone_text z)"
      using main_text_notin [of dt] by (auto simp: zone_text_def)
    then show ?thesis using True f(2) by (simp add: find_timezone_def strchr_at_notin zone_text_def)
  next
    case False
    then show ?thesis using f(1) by (simp add: find_timezone_def zone_text_def)
  qed
qed

lemma find_timezone_none: "find_timezone (main_text dt) = None"
proof -
  let ?u = "digits 4 (nat (year dt)) @ CHR ''-'' # digits 2 (nat (month dt))"
  obtain v where v: "main_text dt = ?u @ CHR ''-'' # digits 2 (nat (day dt)) @ v"
    "CHR ''-'' \<notin> set v" "v = [] \<or> hd v = CHR '' ''"
    by (cases "hour dt = - 1") (auto simp: main_text_def date_text_def time_text_def)
  have "CHR ''-'' \<notin> set (digits 2 (nat (day dt)) @ v)"
    using v(2) by simp
  then have "strrchr_at (main_text dt) (CHR ''-'') = Some 7"
    using strrchr_at_last [of "CHR ''-''" "digits 2 (nat (day dt)) @ v" ?u] v(1) by (simp add: digits_props)
  moreover have "main_text dt = date_text dt @ v" using v(1) by (simp add: date_text_def)
  then have "char_at (main_text dt) 10 = (if v = [] then CHR 0x00 else CHR '' '')"
    using v(3) by (cases v) (simp_all add: char_at_def text_lengths nth_append)
  ultimately show ?thesis
    using main_text_notin [of dt] by (simp add: find_timezone_def strchr_at_notin)
qed

lemma parse_zone_text:
  assumes "\<bar>z\<bar> div 100 \<le> 23" "\<bar>z\<bar> mod 100 \<le> 59"
  shows "cstr_parse_timezone (zone_text z) = z"
proof -
  let ?h = "nat (\<bar>z\<bar> div 100)" and ?m = "nat (\<bar>z\<bar> mod 100)"
  obtain a b c d where ab: "digits 2 ?h = [a, b]" "digits 2 ?m = [c, d]" by (simp add: digits2)
  then have dg: "isdigit a" "isdigit b" "isdigit c" "isdigit d"
    using digits_props(2) [of 2 ?h] digits_props(2) [of 2 ?m] by auto
  have v: "atoi [a, b] = \<bar>z\<bar> div 100" "atoi [c, d] = \<bar>z\<bar> mod 100"
    using atoi_digits [of 2 ?h] atoi_digits [of 2 ?m] assms ab by auto
  have "\<bar>z\<bar> div 100 * 100 + \<bar>z\<bar> mod 100 = \<bar>z\<bar>" by simp
  then show ?thesis
    using dg v assms
    by (simp add: cstr_parse_timezone_def zone_text_def ab char_at_def Let_def) 
qed

lemma strip_id:
  assumes "s \<noteq> []" "\<not> P (hd s)" "\<not> P (last s)"
  shows "strip P s = s"
proof -
  have "dropWhile P s = s" using assms by (cases s) simp_all
  moreover have "rstrip P s = s"
    using rstrip_snoc [of P "butlast s" "last s"] assms(1,3) append_butlast_last_id [of s] by simp
  ultimately show ?thesis by (simp add: strip_def)
qed

lemma main_text_ends: "main_text dt \<noteq> []" "isdigit (hd (main_text dt))" "isdigit (last (main_text dt))"
  by (simp_all add: main_text_def date_text_def time_text_def digits2 digits3 digits4)

lemma unquote_main: "unquote (cstr_LRtrim_whitespace (main_text dt)) = (main_text dt, int (min 30 (length (main_text dt))))"
  using main_text_ends [of dt] main_text_notin(4) [of dt]
  by (simp add: cstr_LRtrim_whitespace_eq strip_id digit_not_special unquote_def strchr_at_notin cstr_length_def)

text \<open>The parts the parser finds in the text of a date.\<close>

definition main_parsed :: "cstr_datetime \<Rightarrow> parsed" where
  "main_parsed dt =
     \<lparr>Year = digits 4 (nat (year dt)), Mon = digits 2 (nat (month dt)), Day = digits 2 (nat (day dt)),
      hh = (if hour dt = - 1 then ''00'' else digits 2 (nat (hour dt))),
      mm = (if hour dt = - 1 then ''00'' else digits 2 (nat (minute dt))),
      ss = (if hour dt = - 1 then ''00'' else digits 2 (nat (second dt))),
      msec = (if hour dt = - 1 \<or> millisecond dt = - 1 then ''000'' else digits 3 (nat (millisecond dt))),
      HMS = (hour dt \<noteq> - 1), MMM = (hour dt \<noteq> - 1 \<and> millisecond dt \<noteq> - 1)\<rparr>"

lemma three_parts_digits:
  "c \<notin> set (digits k a) \<Longrightarrow> c \<notin> set (digits 2 b) \<Longrightarrow> c \<notin> set w \<Longrightarrow>
   three_parts c k (digits k a @ c # digits 2 b @ c # w) = Some (digits k a, digits 2 b, w)"
  using three_parts_join [of c "digits k a" "digits 2 b" w] by (simp add: digits_props)

lemma parse_layout_main:
  "parse_layout (main_text dt) (int (min 30 (length (main_text dt)))) = Some (main_parsed dt)"
proof (cases "hour dt = - 1")
  case True
  then show ?thesis
    by (simp add: main_text_def parse_layout_def text_lengths main_parsed_def date_text_def
        three_parts_digits digits_props)
next
  case False
  define m where "m = (if millisecond dt = - 1 then [] else CHR ''.'' # digits 3 (nat (millisecond dt)))"
  have t: "main_text dt = date_text dt @ CHR '' '' # time_text dt @ m"
    using False by (simp add: main_text_def m_def)
  have sp: "strchr_at (main_text dt) (CHR '' '') = Some 10"
    using strchr_at_first [of "CHR '' ''" "date_text dt"] by (simp add: t text_lengths date_text_def digits_props)
  have tk: "take 10 (main_text dt) = date_text dt" "drop 11 (main_text dt) = time_text dt @ m"
    by (simp_all add: t text_lengths)
  have d: "three_parts (CHR ''-'') 4 (date_text dt) =
      Some (digits 4 (nat (year dt)), digits 2 (nat (month dt)), digits 2 (nat (day dt)))"
    by (simp add: date_text_def three_parts_digits)
  have "three_parts (CHR '':'') 2 (digits 2 (nat (hour dt)) @ CHR '':'' # digits 2 (nat (minute dt)) @ CHR '':'' #
      (digits 2 (nat (second dt)) @ m)) =
      Some (digits 2 (nat (hour dt)), digits 2 (nat (minute dt)), digits 2 (nat (second dt)) @ m)"
    by (rule three_parts_digits) (simp_all add: m_def)
  then have h: "three_parts (CHR '':'') 2 (time_text dt @ m) =
      Some (digits 2 (nat (hour dt)), digits 2 (nat (minute dt)), digits 2 (nat (second dt)) @ m)"
    by (simp add: time_text_def)
  have dot: "strchr_at (digits 2 (nat (second dt)) @ m) (CHR ''.'') = Some 2" if "millisecond dt \<noteq> - 1"
    using that strchr_at_first [of "CHR ''.''" "digits 2 (nat (second dt))"] by (simp add: m_def digits_props)
  have len: "length (main_text dt) = (if millisecond dt = - 1 then 19 else 23)"
    by (simp add: t text_lengths m_def digits_props)
  show ?thesis
    using False dot
    by (simp add: parse_layout_def len sp tk d h main_parsed_def digits_props) (simp add: m_def digits_props)
qed

lemma out_main_parsed:
  assumes "printable dt"
  shows "fields_ok (main_parsed dt)" "out_datetime (main_parsed dt) (timezone dt) = dt"
    "time_is_valid (atoi (Year (main_parsed dt))) (atoi (Mon (main_parsed dt))) (atoi (Day (main_parsed dt)))
       (atoi (hh (main_parsed dt))) (atoi (mm (main_parsed dt))) (atoi (ss (main_parsed dt)))"
    "atoi (msec (main_parsed dt)) = (if millisecond dt = - 1 then 0 else millisecond dt)"
proof -
  note r = printable_ranges [OF assms]
  have h: "hour dt = - 1 \<longrightarrow> minute dt = 0 \<and> second dt = 0 \<and> millisecond dt = - 1"
    "time_is_valid (year dt) (month dt) (day dt) (if hour dt = - 1 then 0 else hour dt) (minute dt) (second dt)"
    using assms by (auto simp: printable_def)
  have z: "atoi ''00'' = 0" "atoi ''000'' = 0" "cstr_isdigit ''00'' 2" "cstr_isdigit ''000'' 3"
    by code_simp+
  have a: "atoi (digits 4 (nat (year dt))) = year dt" "atoi (digits 2 (nat (month dt))) = month dt"
    "atoi (digits 2 (nat (day dt))) = day dt" "hour dt \<noteq> - 1 \<Longrightarrow> atoi (digits 2 (nat (hour dt))) = hour dt"
    "atoi (digits 2 (nat (minute dt))) = minute dt" "atoi (digits 2 (nat (second dt))) = second dt"
    "millisecond dt \<noteq> - 1 \<Longrightarrow> atoi (digits 3 (nat (millisecond dt))) = millisecond dt"
    using r by (subst atoi_digits; simp)+
  have f: "cstr_isdigit (digits w n) w" for w n
    by (rule cstr_isdigit_all) (simp_all add: digits_props)
  show "fields_ok (main_parsed dt)" by (simp add: fields_ok_def main_parsed_def f z)
  show "out_datetime (main_parsed dt) (timezone dt) = dt"
    using h(1) by (cases "hour dt = - 1") (auto simp: out_datetime_def main_parsed_def a)
  show "time_is_valid (atoi (Year (main_parsed dt))) (atoi (Mon (main_parsed dt))) (atoi (Day (main_parsed dt)))
       (atoi (hh (main_parsed dt))) (atoi (mm (main_parsed dt))) (atoi (ss (main_parsed dt)))"
    using h by (cases "hour dt = - 1") (auto simp: main_parsed_def a z)
  show "atoi (msec (main_parsed dt)) = (if millisecond dt = - 1 then 0 else millisecond dt)"
    using h(1) by (auto simp: main_parsed_def a z)
qed

text \<open>The seconds \<open>mktime\<close> gives for the date and time of a structure.\<close>

definition seconds_of :: "(int \<times> int \<times> int \<times> int \<times> int \<times> int \<Rightarrow> int) \<Rightarrow> cstr_datetime \<Rightarrow> 64 word" where
  "seconds_of mktime dt =
     of_int (mktime (year dt - 1900, month dt - 1, day dt, if hour dt = - 1 then 0 else hour dt, minute dt, second dt))"

lemma seconds_main_parsed:
  assumes "printable dt"
  shows "of_int (mktime (atoi (Year (main_parsed dt)) - 1900, atoi (Mon (main_parsed dt)) - 1,
      atoi (Day (main_parsed dt)), atoi (hh (main_parsed dt)), atoi (mm (main_parsed dt)),
      atoi (ss (main_parsed dt)))) = seconds_of mktime dt"
proof -
  let ?p = "main_parsed dt"
  have o: "out_datetime ?p (timezone dt) = dt" by (rule out_main_parsed(2) [OF assms])
  have f: "year dt = atoi (Year ?p)" "month dt = atoi (Mon ?p)" "day dt = atoi (Day ?p)"
    "hour dt = (if HMS ?p then atoi (hh ?p) else - 1)" "minute dt = (if HMS ?p then atoi (mm ?p) else 0)"
    "second dt = (if HMS ?p then atoi (ss ?p) else 0)"
    by (subst o [symmetric], simp add: out_datetime_def)+
  have z: "atoi ''00'' = 0" by code_simp
  have h: "HMS ?p \<longleftrightarrow> hour dt \<noteq> - 1"
    "\<not> HMS ?p \<Longrightarrow> atoi (hh ?p) = 0 \<and> atoi (mm ?p) = 0 \<and> atoi (ss ?p) = 0"
    by (simp_all add: main_parsed_def z)
  show ?thesis
    unfolding seconds_of_def using f h by (cases "HMS ?p") simp_all
qed

text \<open>
  C39: printing a date with \<open>cstr_datetime_print\<close> and parsing the text with \<open>cstr_parse_timestamp\<close>
  gives the date back, for every valid date, with or without time, milliseconds and time zone,
  and the stamp is the seconds \<open>mktime\<close> gives, in milliseconds.
\<close>

theorem datetime_print_parse:
  assumes "printable dt" "seconds_of mktime dt \<noteq> - 1"
  shows "cstr_parse_timestamp mktime (cstr_datetime_print dt) True =
    Stamp (seconds_of mktime dt * 1000 + of_int (if millisecond dt = - 1 then 0 else millisecond dt)) (Some dt)"
proof -
  let ?s = "cstr_datetime_print dt" and ?z = "timezone dt"
  have zr: "cstr_parse_timezone (zone_text ?z) = ?z"
    using assms(1) by (intro parse_zone_text) (simp_all add: printable_def)
  have z: "(case find_timezone ?s of None \<Rightarrow> - 1 | Some i \<Rightarrow> cstr_parse_timezone (drop i ?s)) = ?z"
    "(case find_timezone ?s of None \<Rightarrow> ?s | Some i \<Rightarrow> take i ?s) = main_text dt"
    "find_timezone ?s = None \<or> ?z \<noteq> - 1"
    using zr by (simp_all add: print_main [OF assms(1)] find_timezone_main find_timezone_none)
  note o = out_main_parsed [OF assms(1)]
  have "finish_parse mktime True ?z (main_parsed dt) =
      Stamp (seconds_of mktime dt * 1000 + of_int (if millisecond dt = - 1 then 0 else millisecond dt)) (Some dt)"
    unfolding finish_parse_def seconds_main_parsed [OF assms(1)] Let_def
    using o assms(2) by simp
  then show ?thesis
    unfolding cstr_parse_timestamp_def Let_def z(1,2) unquote_main
    using z(3) by (simp add: parse_layout_main)
qed

theorem datetime_print_parse_witness:
  "cstr_parse_timestamp (\<lambda>_. 1577018219)
     (cstr_datetime_print \<lparr>year = 2019, month = 12, day = 22, hour = 12, minute = 36, second = 59,
        millisecond = 65, timezone = - 800\<rparr>) True =
   Stamp 1577018219065 (Some \<lparr>year = 2019, month = 12, day = 22, hour = 12, minute = 36, second = 59,
        millisecond = 65, timezone = - 800\<rparr>)"
proof -
  let ?dt = "\<lparr>year = 2019, month = 12, day = 22, hour = 12, minute = 36, second = 59, millisecond = 65,
    timezone = - 800\<rparr>"
  have "printable ?dt" by (simp add: printable_def time_is_valid_def)
  moreover have "seconds_of (\<lambda>_. 1577018219) ?dt \<noteq> - 1" by (simp add: seconds_of_def)
  ultimately show ?thesis
    using datetime_print_parse [of ?dt "\<lambda>_. 1577018219"] by (simp add: seconds_of_def)
qed

subsection \<open>Errors\<close>

text \<open>A date without a time and no output structure: the parser writes through a null pointer.\<close>

theorem parse_timestamp_null_out:
  "cstr_parse_timestamp (\<lambda>_. 0) ''2019-12-22'' False = Undefined"
  by code_simp

text \<open>The time zone one minute west is taken for an error.\<close>

theorem parse_timezone_one_minute_west:
  "cstr_parse_timezone ''W00:01'' = - 1 \<and> cstr_parse_timestamp (\<lambda>_. 0) ''2019-12-22W00:01'' True = Failed"
  by code_simp

text \<open>
  \<open>cstr_timestamp_to_datetime\<close> takes a stamp that is no number for the stamp 0: the conversion
  answers -1 and the code tests for 0.
\<close>

theorem timestamp_to_datetime_bad_stamp:
  "cstr_timestamp_to_datetime localtime (Some ''abc'') (- 1) =
   cstr_timestamp_to_datetime localtime (Some ''0'') (- 1)"
  by (simp add: cstr_timestamp_to_datetime_def cstr_to_ub8_def strtoull_def strto_number_def
      strto_digits_def num_text_def valid_base_def cstr_length_def isspace_def digit_value_def Let_def)

end
