(* ===== verification/KT_Producer.thy ===== *)
theory KT_Producer
  imports KT_Topics
begin

section \<open>The producer\<close>

text \<open>
  \<open>src/src/kafkatools_producer.c\<close>.  A producer is its structure; the operations take the
  environment, the structure and the trace so far and return the new ones.  \<open>None\<close> is a call
  that does not return: an exit, an access through a null pointer, or a loop that goes on for
  ever.  An array of names and values that ends with a null pointer is the list of its pairs.
  Handles of librdkafka other than topics are booleans: whether there is one.
\<close>

record 'h producer =
  rkProducer :: bool
  opaque :: ptr
  rktopic_tree :: "'h rbstate"
  errcode :: int
  errstr :: cstr

subsection \<open>Destroying\<close>

text \<open>
  The loop that waits for the queue; the count is an \<open>int\<close> that is decremented before each
  round, so that -1 waits without a bound.
\<close>

partial_function (option) flush_loop :: "'h env \<Rightarrow> int \<Rightarrow> 'h trace \<Rightarrow> 'h trace option" where
  [code]: "flush_loop env flush_wait_ms tr =
     (if flush_wait_ms = 0 then Some tr
      else if env_flush_timed_out env tr then flush_loop env (int32 (flush_wait_ms - 1)) (tr @ [Flush True])
      else Some (tr @ [Flush False]))"

definition kafkatools_producer_destroy :: "'h env \<Rightarrow> 'h producer option \<Rightarrow> int \<Rightarrow> 'h trace \<Rightarrow> 'h trace option" where
  "kafkatools_producer_destroy env producer flush_wait_ms tr =
     (case producer of
        None \<Rightarrow> Some tr
      | Some p \<Rightarrow> do {
          let tr = tr @ [MutexLock];
          tr \<leftarrow> (if rkProducer p then flush_loop env flush_wait_ms tr else Some tr);
          tr \<leftarrow> rbtree_traverse rktopic_object_release tr (rktopic_tree p);
          tree \<leftarrow> rbtree_clean (Some (rktopic_tree p));
          let tr = (if rkProducer p then tr @ [KafkaDestroy] else tr);
          Some (tr @ [MutexDestroy, Free]) })"

subsection \<open>Creating\<close>

fun conf_set_loop :: "'h env \<Rightarrow> nat \<Rightarrow> (cstr \<times> cstr) list \<Rightarrow> 'h trace \<Rightarrow> bool \<times> 'h trace" where
  "conf_set_loop env 0 props tr = (True, tr)"
| "conf_set_loop env (Suc n) [] tr = (True, tr)"
| "conf_set_loop env (Suc n) ((name, val) # props) tr =
     (let res = env_conf_set env tr name val; tr = tr @ [ConfSet name val res] in
      if res \<noteq> RD_KAFKA_CONF_OK then (False, tr) else conf_set_loop env n props tr)"

definition set_props :: "'h env \<Rightarrow> (cstr \<times> cstr) list option \<Rightarrow> 'h trace \<Rightarrow> bool \<times> 'h trace" where
  "set_props env props tr =
     (case props of None \<Rightarrow> (True, tr) | Some ps \<Rightarrow> conf_set_loop env KAFKATOOLS_CONF_PROPS_MAX ps tr)"

text \<open>The label \<open>on_error_result\<close>, with the producer and whether \<open>conf\<close> is set.\<close>

definition create_failed ::
    "'h env \<Rightarrow> int \<Rightarrow> 'h producer \<Rightarrow> bool \<Rightarrow> 'h trace \<Rightarrow> (int \<times> 'h producer option \<times> 'h trace) option" where
  "create_failed env result p conf tr = do {
     tr \<leftarrow> kafkatools_producer_destroy env (Some p) 0 tr;
     Some (result, None, if conf then tr @ [ConfDestroy] else tr) }"

text \<open>
  \<open>mem\<close> is the memory the nodes of the topic tree will live in.  The result is the return code,
  what is stored in \<open>*outproducer\<close>, and the trace.
\<close>

definition kafkatools_producer_create ::
    "'h env \<Rightarrow> (cstr \<times> cstr) list option \<Rightarrow> bool \<Rightarrow> ptr \<Rightarrow> 'h rbstate \<Rightarrow> 'h trace \<Rightarrow>
      (int \<times> 'h producer option \<times> 'h trace) option" where
  "kafkatools_producer_create env props cb_default msg_opaque mem tr =
     (if \<not> env_alloc env tr then None
      else
        (let tr = tr @ [Alloc True];
             p = \<lparr>rkProducer = False, opaque = NULL, rktopic_tree = rbtree_init (rktopic_name_cmp env) mem,
                  errcode = 0, errstr = []\<rparr>;
             conf = env_conf_new env tr;
             tr = tr @ [ConfNew conf] in
         if \<not> conf then create_failed env KAFKATOOLS_ENOMEM p False tr
         else
           (let (ok, tr) = set_props env props tr in
            if \<not> ok then create_failed env KAFKATOOLS_ECONF p True tr
            else
              (let tr = tr @ [ConfSetDrMsgCb cb_default, ConfSetOpaque];
                   rk = env_kafka_new env tr;
                   tr = tr @ [KafkaNew rk] in
               if \<not> rk then create_failed env KAFKATOOLS_ERROR p True tr
               else
                 (let p = p\<lparr>rkProducer := True\<rparr>;
                      mi = env_mutex_init env tr;
                      tr = tr @ [MutexInit mi] in
                  if mi \<noteq> 0 then create_failed env KAFKATOOLS_EFATAL p True tr
                  else Some (KAFKATOOLS_SUCCESS, Some (p\<lparr>opaque := msg_opaque\<rparr>), tr))))))"

subsection \<open>Access\<close>

definition kafkatools_producer_get_errstr :: "'h producer \<Rightarrow> cstr \<times> int" where
  "kafkatools_producer_get_errstr p = (take (KAFKATOOLS_ERRSTR_SIZE - 1) (errstr p), errcode p)"

definition kafkatools_producer_get_rdkafka :: "'h producer \<Rightarrow> bool" where
  "kafkatools_producer_get_rdkafka p = rkProducer p"

definition kafkatools_producer_get_opaque :: "'h producer \<Rightarrow> ptr" where
  "kafkatools_producer_get_opaque p = opaque p"

definition kafkatools_topic_name :: "'h env \<Rightarrow> 'h \<Rightarrow> cstr" where
  "kafkatools_topic_name env topic = env_topic_name env topic"

subsection \<open>Topics\<close>

definition kafkatools_producer_get_topic ::
    "'h env \<Rightarrow> 'h producer \<Rightarrow> cstr \<Rightarrow> 'h trace \<Rightarrow> ('h option \<times> 'h producer \<times> 'h trace) option" where
  "kafkatools_producer_get_topic env p topic_name tr =
     (if \<not> rkProducer p then None
      else case env_topic_new env tr topic_name of
        None \<Rightarrow>
          (let tr = tr @ [TopicNew topic_name None] in
           Some (None,
             p\<lparr>errstr := snprintf_into KAFKATOOLS_ERRSTR_SIZE
                (''rd_kafka_topic_new(topic='' @ topic_name @ '') fail: '' @
                 env_err2str env (env_last_error env tr))\<rparr>, tr))
      | Some rktopic \<Rightarrow> do {
          let tr = tr @ [TopicNew topic_name (Some rktopic)];
          node \<leftarrow> rbtree_find rktopic (rktopic_tree p);
          if node = NULL then do {
            (node, is_new_node, tree) \<leftarrow> rbtree_insert_unique rktopic (rktopic_tree p);
            if node = NULL \<or> \<not> is_new_node then None
            else Some (Some rktopic, p\<lparr>rktopic_tree := tree\<rparr>, tr) }
          else Some (Some rktopic, p, tr @ [TopicDestroy rktopic]) })"

subsection \<open>Producing\<close>

record 'h site =
  topic :: "'h option"
  partition :: int
  partitionid_min :: int
  partitionid_max :: int

partial_function (option) produce_loop ::
    "'h env \<Rightarrow> 'h \<Rightarrow> int \<Rightarrow> int \<Rightarrow> int \<Rightarrow> int \<Rightarrow> 'h trace \<Rightarrow> (int \<times> 'h trace) option" where
  [code]: "produce_loop env h part timout_ms retry_count ret tr =
     (if retry_count = 0 then Some (ret, tr)
      else
        (let ret = env_produce env tr h part;
             tr = tr @ [Produce h part ret] in
         if ret = - 1 \<and> env_last_error env tr = RD_KAFKA_RESP_ERR__QUEUE_FULL
         then produce_loop env h part timout_ms (int32 (retry_count - 1)) ret (tr @ [Poll timout_ms])
         else Some (ret, tr)))"

definition kafkatools_produce_timedwait ::
    "'h env \<Rightarrow> 'h producer \<Rightarrow> 'h site \<Rightarrow> int \<Rightarrow> int \<Rightarrow> 'h trace \<Rightarrow> (int \<times> 'h producer \<times> 'h trace) option" where
  "kafkatools_produce_timedwait env p ktsite timout_ms retry_count tr =
     (case topic ktsite of
        None \<Rightarrow> if retry_count = 0 then Some (KAFKATOOLS_SUCCESS, p, tr) else None
      | Some h \<Rightarrow> do {
          (ret, tr) \<leftarrow> produce_loop env h (partition ktsite) timout_ms retry_count 0 tr;
          if ret = - 1 then
            (let err = env_last_error env tr in
             Some (KAFKATOOLS_ERROR,
               p\<lparr>errcode := err,
                 errstr := snprintf_into KAFKATOOLS_ERRSTR_SIZE
                   (''rd_kafka_produce {'' @ kafkatools_topic_name env h @ '':'' @ dec (partition ktsite) @
                    ''} failed('' @ dec err @ ''): '' @ env_err2str env err)\<rparr>, tr))
          else Some (KAFKATOOLS_SUCCESS, p, tr) })"

subsection \<open>Waiting for the queue\<close>

lemma flush_loop_bounded:
  assumes "0 \<le> w" "w < 2 ^ 31"
  shows "\<exists>k \<le> nat w. flush_loop env w tr =
    Some (tr @ replicate k (Flush True) @ (if k = nat w then [] else [Flush False]))"
  using assms
proof (induction "nat w" arbitrary: w tr)
  case 0
  then show ?case by (simp add: flush_loop.simps)
next
  case (Suc n)
  show ?case
  proof (cases "env_flush_timed_out env tr")
    case True
    have w: "n = nat (w - 1)" "0 \<le> w - 1" "w - 1 < 2 ^ 31" using Suc.hyps(2) Suc.prems by auto
    then have i: "int32 (w - 1) = w - 1" by (simp add: int32_id)
    obtain k where k: "k \<le> n" "flush_loop env (w - 1) (tr @ [Flush True]) =
        Some ((tr @ [Flush True]) @ replicate k (Flush True) @ (if k = n then [] else [Flush False]))"
      using Suc.hyps(1) [OF w(1,2,3), of "tr @ [Flush True]"] w(1) by auto
    have "flush_loop env w tr = flush_loop env (w - 1) (tr @ [Flush True])"
      using True Suc.hyps(2) i by (subst flush_loop.simps) auto
    then show ?thesis
      using k Suc.hyps(2) by (intro exI [of _ "Suc k"]) simp
  next
    case False
    then have "flush_loop env w tr = Some (tr @ [Flush False])"
      using Suc.hyps(2) by (subst flush_loop.simps) auto
    then show ?thesis using Suc.hyps(2) by (intro exI [of _ 0]) simp
  qed
qed

lemma flush_loop_unbounded:
  assumes "w < 0" "- (2 ^ 31) + int n \<le> w"
    "\<And>i. i < n \<Longrightarrow> env_flush_timed_out env (tr @ replicate i (Flush True))"
    "\<not> env_flush_timed_out env (tr @ replicate n (Flush True))"
  shows "flush_loop env w tr = Some (tr @ replicate n (Flush True) @ [Flush False])"
  using assms
proof (induction n arbitrary: w tr)
  case 0
  then show ?case by (subst flush_loop.simps) simp
next
  case (Suc n)
  have i: "int32 (w - 1) = w - 1" using Suc.prems(1,2) by (simp add: int32_id)
  have "flush_loop env w tr = flush_loop env (w - 1) (tr @ [Flush True])"
    using Suc.prems(1) Suc.prems(3) [of 0] i by (subst flush_loop.simps) simp
  also have "\<dots> = Some ((tr @ [Flush True]) @ replicate n (Flush True) @ [Flush False])"
  proof (rule Suc.IH)
    show "env_flush_timed_out env ((tr @ [Flush True]) @ replicate i (Flush True))" if "i < n" for i
      using Suc.prems(3) [of "Suc i"] that by simp
  qed (use Suc.prems in simp_all)
  finally show ?case by simp
qed

lemma flush_loop_events:
  assumes "flush_loop env w tr = Some tr'"
  shows "\<exists>fl. tr' = tr @ fl \<and> set fl \<subseteq> range Flush"
proof (rule flush_loop.raw_induct [of "\<lambda>env w tr tr'. \<exists>fl. tr' = tr @ fl \<and> set fl \<subseteq> range Flush", OF _ assms], goal_cases)
  case (1 f env w tr tr')
  show ?case
  proof (cases "w \<noteq> 0 \<and> env_flush_timed_out env tr")
    case True
    then obtain fl where "tr' = (tr @ [Flush True]) @ fl" "set fl \<subseteq> range Flush"
      using 1(1) [of env "int32 (w - 1)" "tr @ [Flush True]" tr'] 1(2) by auto
    then show ?thesis by (intro exI [of _ "Flush True # fl"]) simp
  next
    case False
    then have "tr' = tr \<or> tr' = tr @ [Flush False]" using 1(2) by (auto split: if_splits)
    then show ?thesis by (intro exI [of _ "drop (length tr) tr'"]) auto
  qed
qed

subsection \<open>Destroying releases everything\<close>

lemma destroy_events:
  assumes "topic_rep env (rktopic_tree p) X"
    "rkProducer p \<Longrightarrow> flush_loop env w (tr @ [MutexLock]) = Some (tr @ MutexLock # fl)"
    "\<not> rkProducer p \<Longrightarrow> fl = []"
  shows "\<exists>xs. distinct xs \<and> set xs = X \<and> kafkatools_producer_destroy env (Some p) w tr =
    Some (tr @ MutexLock # fl @ map TopicDestroy xs @ (if rkProducer p then [KafkaDestroy] else []) @
      [MutexDestroy, Free])"
proof -
  obtain xs s' where xs: "rbtree_traverse rktopic_object_release (tr @ MutexLock # fl) (rktopic_tree p) =
      Some (fold rktopic_object_release xs (tr @ MutexLock # fl))" "distinct xs" "set xs = X"
    "rbtree_clean (Some (rktopic_tree p)) = Some (Some s')"
    using topic_tree.release_and_clean [OF assms(1), of rktopic_object_release "tr @ MutexLock # fl"] by blast
  have "(if rkProducer p then flush_loop env w (tr @ [MutexLock]) else Some (tr @ [MutexLock])) =
      Some (tr @ MutexLock # fl)"
    using assms(2,3) by simp
  then have "kafkatools_producer_destroy env (Some p) w tr =
      Some (tr @ MutexLock # fl @ map TopicDestroy xs @ (if rkProducer p then [KafkaDestroy] else []) @
        [MutexDestroy, Free])"
    using xs(1,4) by (simp add: kafkatools_producer_destroy_def release_fold)
  then show ?thesis using xs(2,3) by blast
qed

subsection \<open>The topic cache\<close>

definition cached :: "'h env \<Rightarrow> 'h producer \<Rightarrow> (cstr \<rightharpoonup> 'h) \<Rightarrow> 'h trace \<Rightarrow> bool" where
  "cached env p m tr \<longleftrightarrow> rkProducer p \<and> caches env (rktopic_tree p) m tr"

lemma get_topic_failed:
  assumes "cached env p m tr" "env_topic_new env tr n = None"
  shows "\<exists>p'. kafkatools_producer_get_topic env p n tr = Some (None, p', tr @ [TopicNew n None]) \<and>
    cached env p' m (tr @ [TopicNew n None])"
  using assms by (simp add: kafkatools_producer_get_topic_def cached_def Let_def caches_neutral)

lemma get_topic_missing_some:
  assumes "topic_new_documented env" "cached env p m tr" "env_topic_new env tr n = Some h" "m n = None"
    "kafkatools_producer_get_topic env p n tr = Some (r, p', tr')"
  shows "r = Some h \<and> tr' = tr @ [TopicNew n (Some h)] \<and> cached env p' (m(n \<mapsto> h)) tr'"
proof -
  have c: "rkProducer p" "caches env (rktopic_tree p) m tr" using assms(2) by (auto simp: cached_def)
  note f = caches_missing [OF assms(1) c(2) assms(3,4)]
  obtain q b s' where ins: "rbtree_insert_unique h (rktopic_tree p) = Some (q, b, s')"
    "p' = p\<lparr>rktopic_tree := s'\<rparr>" "r = Some h" "tr' = tr @ [TopicNew n (Some h)]"
    using assms(3,5) c(1) f(1)
    by (auto simp: kafkatools_producer_get_topic_def bind_eq_Some_conv split: if_splits)
  then show ?thesis using f(2) [OF ins(1)] c(1) by (simp add: cached_def)
qed

lemma get_topic_missing:
  assumes "topic_new_documented env" "cached env p m tr" "has_room (rktopic_tree p)"
    "env_topic_new env tr n = Some h" "m n = None"
  shows "\<exists>p'. kafkatools_producer_get_topic env p n tr = Some (Some h, p', tr @ [TopicNew n (Some h)]) \<and>
    cached env p' (m(n \<mapsto> h)) (tr @ [TopicNew n (Some h)])"
proof -
  have c: "rkProducer p" "caches env (rktopic_tree p) m tr" using assms(2) by (auto simp: cached_def)
  note f = caches_missing [OF assms(1) c(2) assms(4,5)]
  from f(3) [OF assms(3)] have "\<exists>x. kafkatools_producer_get_topic env p n tr = Some x"
    using assms(4) c(1) f(1) by (auto simp: kafkatools_producer_get_topic_def)
  then show ?thesis
    using get_topic_missing_some [OF assms(1,2,4,5)] by (metis prod_cases3)
qed

lemma get_topic_present:
  assumes "topic_new_documented env" "cached env p m tr" "env_topic_new env tr n = Some h" "m n \<noteq> None"
  shows "m n = Some h \<and>
    kafkatools_producer_get_topic env p n tr = Some (Some h, p, tr @ [TopicNew n (Some h), TopicDestroy h]) \<and>
    cached env p m (tr @ [TopicNew n (Some h), TopicDestroy h])"
proof -
  have c: "rkProducer p" "caches env (rktopic_tree p) m tr" using assms(2) by (auto simp: cached_def)
  note f = caches_present [OF assms(1) c(2) assms(3,4)]
  then obtain q where "rbtree_find h (rktopic_tree p) = Some q" "q \<noteq> NULL" by blast
  then show ?thesis
    using assms(3) c(1) f by (simp add: kafkatools_producer_get_topic_def cached_def)
qed

text \<open>
  C18: \<open>kafkatools_producer_get_topic\<close> implements a lookup in the map of names: a name that is
  cached gives its handle and the reference just taken is given back, a new name is added with
  the one reference taken, and a failure changes nothing.
\<close>

theorem get_topic_refines:
  assumes "topic_new_documented env" "cached env p m tr" "has_room (rktopic_tree p)"
  shows "case env_topic_new env tr n of
      None \<Rightarrow> (\<exists>p'. kafkatools_producer_get_topic env p n tr = Some (None, p', tr @ [TopicNew n None]) \<and>
        cached env p' m (tr @ [TopicNew n None]))
    | Some h \<Rightarrow>
        if m n = None then
          (\<exists>p'. kafkatools_producer_get_topic env p n tr = Some (Some h, p', tr @ [TopicNew n (Some h)]) \<and>
             cached env p' (m(n \<mapsto> h)) (tr @ [TopicNew n (Some h)]))
        else m n = Some h \<and>
          kafkatools_producer_get_topic env p n tr = Some (Some h, p, tr @ [TopicNew n (Some h), TopicDestroy h]) \<and>
          cached env p m (tr @ [TopicNew n (Some h), TopicDestroy h])"
  using get_topic_failed [OF assms(2), of n] get_topic_missing [OF assms, of n]
    get_topic_present [OF assms(1,2), of n]
  by (simp split: option.split)

subsection \<open>Creating\<close>

lemma conf_set_loop_events:
  "conf_set_loop env n props tr = (ok, tr') \<Longrightarrow>
   \<exists>ev. tr' = tr @ ev \<and> (\<forall>r. owned ev r = 0) \<and> (\<forall>h. refs ev h = 0)"
proof (induction env n props tr arbitrary: tr' rule: conf_set_loop.induct)
  case (3 env n name val props tr)
  let ?e = "ConfSet name val (env_conf_set env tr name val)"
  show ?case
  proof (cases "env_conf_set env tr name val = RD_KAFKA_CONF_OK")
    case True
    then have "conf_set_loop env n props (tr @ [?e]) = (ok, tr')" using 3(2) by (simp add: Let_def)
    then obtain ev where "tr' = (tr @ [?e]) @ ev" "\<forall>r. owned ev r = 0" "\<forall>h. refs ev h = 0"
      using 3(1) True by blast
    then show ?thesis by (intro exI [of _ "?e # ev"]) simp
  next
    case False
    then have "tr' = tr @ [?e]" using 3(2) by (simp add: Let_def)
    then show ?thesis by (intro exI [of _ "[?e]"]) simp
  qed
qed auto

lemma create_failed_events:
  assumes "topic_rep env (rktopic_tree p) {}"
  shows "create_failed env code p conf tr =
    Some (code, None, tr @ [MutexLock] @ (if rkProducer p then [KafkaDestroy] else []) @ [MutexDestroy, Free] @
      (if conf then [ConfDestroy] else []))"
proof -
  have "flush_loop env 0 t = Some t" for t by (simp add: flush_loop.simps)
  then obtain xs where "xs = []" "kafkatools_producer_destroy env (Some p) 0 tr =
      Some (tr @ MutexLock # [] @ map TopicDestroy xs @ (if rkProducer p then [KafkaDestroy] else []) @ [MutexDestroy, Free])"
    using destroy_events [OF assms, of 0 tr "[]"] by auto
  then show ?thesis by (simp add: create_failed_def)
qed

definition fresh_memory :: "'h rbstate \<Rightarrow> bool" where
  "fresh_memory mem \<longleftrightarrow> cells mem = Map.empty \<and> heap_ok mem"

text \<open>What a call of \<open>kafkatools_producer_create\<close> does, path by path.\<close>

definition create_outcome :: "'h env \<Rightarrow> int \<times> 'h producer option \<times> 'h trace \<Rightarrow> 'h trace \<Rightarrow> bool \<Rightarrow> bool" where
  "create_outcome env res tr mutex_ok =
     (case res of (code, out, tr') \<Rightarrow>
        (\<exists>ev. tr' = tr @ ev \<and> (\<forall>h. refs ev h = 0) \<and>
          (\<forall>r. owned ev r =
             (if out \<noteq> None then (if r = Memory \<or> r = Kafka then 1 else 0)
              else if \<not> mutex_ok \<and> r = Conf then - 1 else 0))) \<and>
        (code = KAFKATOOLS_SUCCESS \<longleftrightarrow> out \<noteq> None) \<and> (\<not> mutex_ok \<longrightarrow> out = None) \<and>
        (\<forall>p. out = Some p \<longrightarrow> rkProducer p \<and> topic_rep env (rktopic_tree p) {}))"

lemma create_outcomeI:
  assumes "\<forall>h. refs ev h = 0"
    "\<forall>r. owned ev r = (if out \<noteq> None then (if r = Memory \<or> r = Kafka then 1 else 0)
       else if \<not> mutex_ok \<and> r = Conf then - 1 else 0)"
    "code = KAFKATOOLS_SUCCESS \<longleftrightarrow> out \<noteq> None" "\<not> mutex_ok \<longrightarrow> out = None"
    "\<forall>p. out = Some p \<longrightarrow> rkProducer p \<and> topic_rep env (rktopic_tree p) {}"
  shows "create_outcome env (code, out, tr @ ev) tr mutex_ok"
  using assms unfolding create_outcome_def by blast

lemma set_props_events:
  "set_props env props tr = (ok, tr') \<Longrightarrow> \<exists>ev. tr' = tr @ ev \<and> (\<forall>r. owned ev r = 0) \<and> (\<forall>h. refs ev h = 0)"
  by (cases props) (auto simp: set_props_def dest: conf_set_loop_events intro: exI [of _ "[]"])

lemma create_paths:
  assumes "env_alloc env tr" "fresh_memory mem"
  shows "\<exists>res. kafkatools_producer_create env props cb op mem tr = Some res \<and>
    (create_outcome env res tr True \<or>
     create_outcome env res tr False \<and> fst res = KAFKATOOLS_EFATAL \<and> (\<exists>t. env_mutex_init env t \<noteq> 0))"
proof -
  let ?t1 = "tr @ [Alloc True]"
  obtain ok t where cs: "set_props env props (tr @ [Alloc True, ConfNew True]) = (ok, t)" by fastforce
  then obtain ev where ev: "t = tr @ Alloc True # ConfNew True # ev" "\<forall>r. owned ev r = 0" "\<forall>h. refs ev h = 0"
    by (auto dest: set_props_events)
  have rep: "topic_rep env (rbtree_init (rktopic_name_cmp env) mem) {}"
    using assms(2) by (intro topic_rep_init) (simp_all add: fresh_memory_def)
  let ?t2 = "tr @ Alloc True # ConfNew True # ev @ [ConfSetDrMsgCb cb, ConfSetOpaque]"
  let ?f = "[MutexLock, MutexDestroy, Free, ConfDestroy]"
  note eqs = kafkatools_producer_create_def Let_def create_failed_events rep ev(1) cs assms(1)
  note outs = ev(2,3) kt_codes rep
  consider (conf) "\<not> env_conf_new env ?t1" | (props) "env_conf_new env ?t1" "\<not> ok"
    | (kafka) "env_conf_new env ?t1" ok "\<not> env_kafka_new env ?t2"
    | (mutex) "env_conf_new env ?t1" ok "env_kafka_new env ?t2" by blast
  then show ?thesis
  proof cases
    case conf
    then have "kafkatools_producer_create env props cb op mem tr =
        Some (KAFKATOOLS_ENOMEM, None, tr @ [Alloc True, ConfNew False, MutexLock, MutexDestroy, Free])"
      by (simp add: eqs)
    then show ?thesis by (intro exI conjI disjI1, assumption) (rule create_outcomeI; simp add: outs)
  next
    case props
    then have "kafkatools_producer_create env props cb op mem tr =
        Some (KAFKATOOLS_ECONF, None, tr @ Alloc True # ConfNew True # ev @ ?f)"
      by (simp add: eqs)
    then show ?thesis by (intro exI conjI disjI1, assumption) (rule create_outcomeI; simp add: outs)
  next
    case kafka
    then have "kafkatools_producer_create env props cb op mem tr =
        Some (KAFKATOOLS_ERROR, None, tr @ Alloc True # ConfNew True # ev @
          [ConfSetDrMsgCb cb, ConfSetOpaque, KafkaNew False] @ ?f)"
      by (simp add: eqs)
    then show ?thesis by (intro exI conjI disjI1, assumption) (rule create_outcomeI; simp add: outs)
  next
    case mutex
    let ?mi = "env_mutex_init env (?t2 @ [KafkaNew True])"
    let ?new = "Alloc True # ConfNew True # ev @ [ConfSetDrMsgCb cb, ConfSetOpaque, KafkaNew True, MutexInit ?mi]"
    show ?thesis
    proof (cases "?mi = 0")
      case True
      with mutex obtain p where p: "kafkatools_producer_create env props cb op mem tr =
          Some (KAFKATOOLS_SUCCESS, Some p, tr @ ?new)" "rkProducer p" "topic_rep env (rktopic_tree p) {}"
        by (simp add: eqs)
      have "create_outcome env (KAFKATOOLS_SUCCESS, Some p, tr @ ?new) tr True"
        by (rule create_outcomeI; simp add: outs p(2,3))
      then show ?thesis using p(1) by blast
    next
      case False
      with mutex have "kafkatools_producer_create env props cb op mem tr =
          Some (KAFKATOOLS_EFATAL, None, tr @ ?new @ [MutexLock, KafkaDestroy, MutexDestroy, Free, ConfDestroy])"
        by (simp add: eqs)
      moreover have "create_outcome env (KAFKATOOLS_EFATAL, None,
          tr @ ?new @ [MutexLock, KafkaDestroy, MutexDestroy, Free, ConfDestroy]) tr False"
        by (rule create_outcomeI; simp add: outs)
      ultimately show ?thesis using False by auto
    qed
  qed
qed

text \<open>
  C32: \<open>kafkatools_producer_create\<close> returns on every path and, as long as the mutex can be
  initialised, owns afterwards exactly what it hands out: the memory of the structure and one
  client handle on success, nothing on failure, with every configuration object given away or
  destroyed.
\<close>

theorem producer_create_balanced:
  assumes "env_alloc env tr" "fresh_memory mem" "\<And>t. env_mutex_init env t = 0"
  shows "\<exists>code out ev. kafkatools_producer_create env props cb op mem tr = Some (code, out, tr @ ev) \<and>
    (code = KAFKATOOLS_SUCCESS \<longleftrightarrow> out \<noteq> None) \<and>
    (\<forall>r. owned ev r = (if out \<noteq> None \<and> (r = Memory \<or> r = Kafka) then 1 else 0))"
proof -
  obtain code out tr' where r: "kafkatools_producer_create env props cb op mem tr = Some (code, out, tr')"
    "create_outcome env (code, out, tr') tr True"
    using create_paths [OF assms(1,2), of props cb op] assms(3) by (metis prod_cases3)
  then obtain ev where "tr' = tr @ ev"
    "\<forall>r. owned ev r = (if out \<noteq> None then (if r = Memory \<or> r = Kafka then 1 else 0) else 0)"
    by (auto simp: create_outcome_def)
  then show ?thesis using r by (auto simp: create_outcome_def)
qed

text \<open>
  When the mutex cannot be initialised, the error path destroys the configuration although
  \<open>rd_kafka_new\<close> has taken it over: one more is released than is owned.
\<close>

theorem producer_create_double_free:
  assumes "env_alloc env tr" "fresh_memory mem" "env_conf_new env (tr @ [Alloc True])"
    "\<And>t. env_kafka_new env t" "\<And>t. env_mutex_init env t \<noteq> 0"
  shows "\<exists>ev. kafkatools_producer_create env None cb op mem tr = Some (KAFKATOOLS_EFATAL, None, tr @ ev) \<and>
    owned ev Conf = - 1"
proof -
  have rep: "topic_rep env (rbtree_init (rktopic_name_cmp env) mem) {}"
    using assms(2) by (intro topic_rep_init) (simp_all add: fresh_memory_def)
  show ?thesis
    by (simp add: kafkatools_producer_create_def Let_def create_failed_events rep set_props_def assms)
qed

subsection \<open>Producing\<close>

text \<open>The attempts in a trace, and those librdkafka took the message in.\<close>

definition attempts :: "'h trace \<Rightarrow> nat" where
  "attempts tr = length (filter (\<lambda>e. \<exists>h i r. e = Produce h i r) tr)"

definition accepted :: "'h trace \<Rightarrow> nat" where
  "accepted tr = length (filter (\<lambda>e. \<exists>h i r. e = Produce h i r \<and> r \<noteq> - 1) tr)"

lemma attempts_simps [simp]:
  "attempts [] = 0" "attempts (tr @ tr') = attempts tr + attempts tr'"
  "attempts (Produce h i r # tr) = Suc (attempts tr)" "attempts (Poll t # tr) = attempts tr"
  "accepted [] = 0" "accepted (tr @ tr') = accepted tr + accepted tr'"
  "accepted (Produce h i r # tr) = (if r = - 1 then accepted tr else Suc (accepted tr))"
  "accepted (Poll t # tr) = accepted tr"
  by (simp_all add: attempts_def accepted_def)

text \<open>The events a call adds, and the result of the last attempt.\<close>

definition produce_events :: "int \<Rightarrow> 'h trace \<Rightarrow> bool" where
  "produce_events ret ev \<longleftrightarrow> (\<forall>e \<in> set ev. (\<exists>h i r. e = Produce h i r) \<or> (\<exists>t. e = Poll t)) \<and>
     accepted ev = (if ret = - 1 then 0 else 1)"

lemma produce_loop_bounded:
  assumes "0 < n" "n < 2 ^ 31"
  shows "\<exists>ret' ev. produce_loop env h i t n ret tr = Some (ret', tr @ ev) \<and> produce_events ret' ev \<and>
    0 < attempts ev \<and> attempts ev \<le> nat n"
  using assms
proof (induction "nat n" arbitrary: n ret tr)
  case (Suc k)
  let ?r = "env_produce env tr h i" and ?tr = "tr @ [Produce h i (env_produce env tr h i)]"
  have i: "int32 (n - 1) = n - 1" using Suc.prems by (simp add: int32_id)
  show ?case
  proof (cases "?r = - 1 \<and> env_last_error env ?tr = RD_KAFKA_RESP_ERR__QUEUE_FULL")
    case True
    then have step: "produce_loop env h i t n ret tr = produce_loop env h i t (n - 1) ?r (?tr @ [Poll t])"
      using Suc.prems(1) i by (subst produce_loop.simps) (auto simp: Let_def)
    show ?thesis
    proof (cases "n = 1")
      case True
      then have "produce_loop env h i t n ret tr = Some (?r, tr @ [Produce h i ?r, Poll t])"
        unfolding step by (subst produce_loop.simps) simp
      then show ?thesis using \<open>?r = - 1 \<and> _\<close> True
        by (intro exI [of _ ?r] exI [of _ "[Produce h i ?r, Poll t]"]) (simp add: produce_events_def)
    next
      case False
      then have n: "k = nat (n - 1)" "0 < n - 1" "n - 1 < 2 ^ 31" using Suc.hyps(2) Suc.prems by auto
      obtain ret' ev where e: "produce_loop env h i t (n - 1) ?r (?tr @ [Poll t]) = Some (ret', (?tr @ [Poll t]) @ ev)"
        "produce_events ret' ev" "0 < attempts ev" "attempts ev \<le> nat (n - 1)"
        using Suc.hyps(1) [OF n, of ?r "?tr @ [Poll t]"] by blast
      then show ?thesis using \<open>?r = - 1 \<and> _\<close> n step
        by (intro exI [of _ ret'] exI [of _ "Produce h i ?r # Poll t # ev"]) (simp add: produce_events_def)
    qed
  next
    case False
    then have "produce_loop env h i t n ret tr = Some (?r, ?tr)"
      using Suc.prems(1) by (subst produce_loop.simps) (auto simp: Let_def)
    then show ?thesis using Suc.prems
      by (intro exI [of _ ?r] exI [of _ "[Produce h i ?r]"]) (simp add: produce_events_def)
  qed
qed simp

text \<open>
  C21: \<open>kafkatools_produce_timedwait\<close> with a positive number of retries returns after at most
  that many attempts.  It reports success exactly when librdkafka took the message, and then
  took it once.
\<close>

theorem produce_timedwait_once:
  assumes "0 < n" "n < 2 ^ 31" "topic site = Some h"
  shows "\<exists>code p' ev. kafkatools_produce_timedwait env p site t n tr = Some (code, p', tr @ ev) \<and>
    attempts ev \<le> nat n \<and> accepted ev = (if code = KAFKATOOLS_SUCCESS then 1 else 0) \<and>
    (code = KAFKATOOLS_SUCCESS \<or> code = KAFKATOOLS_ERROR) \<and> rktopic_tree p' = rktopic_tree p"
proof -
  obtain ret ev where e: "produce_loop env h (partition site) t n 0 tr = Some (ret, tr @ ev)"
    "produce_events ret ev" "attempts ev \<le> nat n"
    using produce_loop_bounded [OF assms(1,2), of env h "partition site" t 0 tr] by blast
  then show ?thesis
    using assms(3)
    by (cases "ret = - 1") (simp_all add: kafkatools_produce_timedwait_def Let_def produce_events_def kt_codes)
qed

text \<open>With no retries allowed the message is not sent, and success is reported.\<close>

theorem produce_timedwait_zero_retries:
  "kafkatools_produce_timedwait env p site t 0 tr = Some (KAFKATOOLS_SUCCESS, p, tr)"
  by (cases "topic site") (simp_all add: kafkatools_produce_timedwait_def produce_loop.simps)

lemma produce_loop_events:
  assumes "produce_loop env h i t n ret tr = Some (ret', tr')"
  shows "\<exists>ev. tr' = tr @ ev \<and> (\<forall>r. owned ev r = 0) \<and> (\<forall>h. refs ev h = 0)"
proof -
  let ?P = "\<lambda>env h i t n ret tr res. \<exists>ev. snd res = tr @ ev \<and> (\<forall>r. owned ev r = 0) \<and> (\<forall>h. refs ev h = 0)"
  have "?P env h i t n ret tr (ret', tr')"
  proof (rule produce_loop.raw_induct [of ?P, OF _ assms], goal_cases)
    case (1 f env h i t n ret tr res)
    let ?e = "Produce h i (env_produce env tr h i)"
    show ?case
    proof (cases "n \<noteq> 0 \<and> env_produce env tr h i = - 1 \<and> env_last_error env (tr @ [?e]) = RD_KAFKA_RESP_ERR__QUEUE_FULL")
      case True
      then have "f env h i t (int32 (n - 1)) (- 1) (tr @ [?e] @ [Poll t]) = Some res"
        using 1(2) by (auto simp: Let_def)
      then obtain ev where "snd res = (tr @ [?e] @ [Poll t]) @ ev" "\<forall>r. owned ev r = 0" "\<forall>h. refs ev h = 0"
        using 1(1) by blast
      then show ?thesis by (intro exI [of _ "?e # Poll t # ev"]) simp
    next
      case False
      then have "snd res = tr \<or> snd res = tr @ [?e]" using 1(2) by (auto simp: Let_def split: if_splits)
      then show ?thesis by (intro exI [of _ "drop (length tr) (snd res)"]) auto
    qed
  qed
  then show ?thesis by simp
qed

lemma timedwait_keeps:
  assumes "kafkatools_produce_timedwait env p site t n tr = Some (code, p', tr')"
  shows "rkProducer p' = rkProducer p \<and> rktopic_tree p' = rktopic_tree p \<and>
    (\<exists>ev. tr' = tr @ ev \<and> (\<forall>r. owned ev r = 0) \<and> (\<forall>h. refs ev h = 0))"
proof (cases "topic site")
  case None
  then show ?thesis using assms by (auto simp: kafkatools_produce_timedwait_def split: if_splits intro: exI [of _ "[]"])
next
  case (Some h)
  then obtain ret tr1 where l: "produce_loop env h (partition site) t n 0 tr = Some (ret, tr1)"
    using assms by (auto simp: kafkatools_produce_timedwait_def bind_eq_Some_conv)
  then have "tr' = tr1" "rkProducer p' = rkProducer p" "rktopic_tree p' = rktopic_tree p"
    using assms Some by (auto simp: kafkatools_produce_timedwait_def Let_def split: if_splits)
  then show ?thesis using produce_loop_events [OF l] by simp
qed

subsection \<open>The life of a producer\<close>

text \<open>A producer and its trace, after its creation and any sequence of calls.\<close>

inductive running :: "'h env \<Rightarrow> 'h producer \<Rightarrow> 'h trace \<Rightarrow> bool" for env where
  created: "fresh_memory mem \<Longrightarrow>
     kafkatools_producer_create env props cb op mem [] = Some (code, Some p, tr) \<Longrightarrow> running env p tr"
| looked_up: "running env p tr \<Longrightarrow>
     kafkatools_producer_get_topic env p n tr = Some (r, p', tr') \<Longrightarrow> running env p' tr'"
| produced: "running env p tr \<Longrightarrow>
     kafkatools_produce_timedwait env p site t k tr = Some (code, p', tr') \<Longrightarrow> running env p' tr'"

lemma created_cached:
  assumes "fresh_memory mem" "kafkatools_producer_create env props cb op mem [] = Some (code, Some p, tr)"
  shows "cached env p Map.empty tr \<and> (\<forall>r. owned tr r = (if r = Memory \<or> r = Kafka then 1 else 0))"
proof -
  have "env_alloc env []" using assms(2) by (auto simp: kafkatools_producer_create_def split: if_splits)
  then obtain ok where o: "create_outcome env (code, Some p, tr) [] ok"
    using create_paths [OF _ assms(1), of env "[]" props cb op] assms(2) by auto
  then have ok by (simp add: create_outcome_def)
  then show ?thesis using o by (auto simp: create_outcome_def cached_def caches_def)
qed

lemma get_topic_cached:
  assumes "topic_new_documented env" "cached env p m tr" "kafkatools_producer_get_topic env p n tr = Some (r, p', tr')"
  shows "\<exists>m'. cached env p' m' tr' \<and> (\<forall>s. owned tr' s = owned tr s)"
proof (cases "env_topic_new env tr n")
  case None
  then show ?thesis using get_topic_failed [OF assms(2) None] assms(3) by auto
next
  case (Some h)
  show ?thesis
  proof (cases "m n = None")
    case True
    then show ?thesis using get_topic_missing_some [OF assms(1,2) Some True assms(3)] by auto
  next
    case False
    then show ?thesis using get_topic_present [OF assms(1,2) Some False] assms(3) by auto
  qed
qed

lemma running_invariant:
  assumes "topic_new_documented env" "running env p tr"
  shows "\<exists>m. cached env p m tr \<and> (\<forall>r. owned tr r = (if r = Memory \<or> r = Kafka then 1 else 0))"
  using assms(2)
proof (induction rule: running.induct)
  case (created mem props cb op code p tr)
  then show ?case using created_cached by blast
next
  case (looked_up p tr n r p' tr')
  then obtain m where m: "cached env p m tr" "\<forall>r. owned tr r = (if r = Memory \<or> r = Kafka then 1 else 0)" by blast
  then show ?case using get_topic_cached [OF assms(1) m(1) looked_up.hyps(2)] by auto
next
  case (produced p tr site t k code p' tr')
  then obtain m where m: "cached env p m tr" "\<forall>r. owned tr r = (if r = Memory \<or> r = Kafka then 1 else 0)" by blast
  obtain ev where "tr' = tr @ ev" "\<forall>r. owned ev r = 0" "\<forall>h. refs ev h = 0"
    "rkProducer p' = rkProducer p" "rktopic_tree p' = rktopic_tree p"
    using timedwait_keeps [OF produced.hyps(2)] by blast
  then show ?case using m by (intro exI [of _ m]) (simp add: cached_def caches_neutral)
qed

text \<open>
  C19: in every reachable state of a producer the tree is a red-black tree of the cached handles,
  filed under their own names, and the program holds one reference to each cached handle and
  none to any other, one client handle and the memory of the structure.
\<close>

theorem producer_running_invariant:
  assumes "topic_new_documented env" "running env p tr"
  shows "\<exists>m. topic_rep env (rktopic_tree p) (ran m) \<and>
    (\<forall>n h. m n = Some h \<longrightarrow> env_topic_name env h = n) \<and>
    (\<forall>h. refs tr h = (if h \<in> ran m then 1 else 0)) \<and>
    (\<forall>r. owned tr r = (if r = Memory \<or> r = Kafka then 1 else 0))"
  using running_invariant [OF assms] by (auto simp: cached_def caches_def)

lemma destroy_balanced:
  assumes "topic_new_documented env" "running env p tr" "flush_loop env w (tr @ [MutexLock]) = Some tr1"
  shows "\<exists>fl xs. kafkatools_producer_destroy env (Some p) w tr =
      Some (tr @ MutexLock # fl @ map TopicDestroy xs @ [KafkaDestroy, MutexDestroy, Free]) \<and>
    set fl \<subseteq> range Flush \<and> distinct xs \<and> (\<forall>h. refs tr h = (if h \<in> set xs then 1 else 0)) \<and>
    (\<forall>r. owned tr r = (if r = Memory \<or> r = Kafka then 1 else 0))"
proof -
  obtain m where m: "cached env p m tr" "\<forall>r. owned tr r = (if r = Memory \<or> r = Kafka then 1 else 0)"
    using running_invariant [OF assms(1,2)] by blast
  obtain fl where fl: "tr1 = (tr @ [MutexLock]) @ fl" "set fl \<subseteq> range Flush"
    using flush_loop_events [OF assms(3)] by blast
  have c: "rkProducer p" "topic_rep env (rktopic_tree p) (ran m)" "\<forall>h. refs tr h = (if h \<in> ran m then 1 else 0)"
    using m(1) by (auto simp: cached_def caches_def)
  obtain xs where "distinct xs" "set xs = ran m" "kafkatools_producer_destroy env (Some p) w tr =
      Some (tr @ MutexLock # fl @ map TopicDestroy xs @ [KafkaDestroy, MutexDestroy, Free])"
    using destroy_events [OF c(2), of w tr fl] c(1) assms(3) fl(1) by auto
  then show ?thesis using fl(2) c(3) m(2) by metis
qed

lemma flush_neutral: "set fl \<subseteq> range Flush \<Longrightarrow> refs fl h = 0 \<and> owned fl r = 0"
  by (induction fl) auto

text \<open>
  C20: destroying a producer that is running, with a bounded wait, returns after at most the
  given number of flushes, releases every topic handle once and before the client handle, and
  leaves the program without any reference, handle or memory of this producer.
\<close>

theorem producer_destroy_releases:
  assumes "topic_new_documented env" "running env p tr" "0 \<le> w" "w < 2 ^ 31"
  shows "\<exists>fl xs ev. kafkatools_producer_destroy env (Some p) w tr = Some (tr @ ev) \<and>
    ev = MutexLock # fl @ map TopicDestroy xs @ [KafkaDestroy, MutexDestroy, Free] \<and>
    set fl \<subseteq> range Flush \<and> distinct xs \<and>
    (\<forall>h. refs (tr @ ev) h = 0) \<and> (\<forall>r. owned (tr @ ev) r = 0)"
proof -
  obtain tr1 where "flush_loop env w (tr @ [MutexLock]) = Some tr1"
    using flush_loop_bounded [OF assms(3,4), of env "tr @ [MutexLock]"] by blast
  from destroy_balanced [OF assms(1,2) this] obtain fl xs where d: "kafkatools_producer_destroy env (Some p) w tr =
      Some (tr @ MutexLock # fl @ map TopicDestroy xs @ [KafkaDestroy, MutexDestroy, Free])"
    "set fl \<subseteq> range Flush" "distinct xs" "\<forall>h. refs tr h = (if h \<in> set xs then 1 else 0)"
    "\<forall>r. owned tr r = (if r = Memory \<or> r = Kafka then 1 else 0)" by blast
  let ?ev = "MutexLock # fl @ map TopicDestroy xs @ [KafkaDestroy, MutexDestroy, Free]"
  have "refs (tr @ ?ev) h = 0" "owned (tr @ ?ev) r = 0" for h r
    using d(3-5) flush_neutral [OF d(2)] by (simp_all add: refs_map_destroy)
  then show ?thesis using d(1-3) by blast
qed

text \<open>
  C22: destroying a producer with an unbounded wait returns as soon as a flush completes, after
  however many flushes that timed out, and then releases everything.
\<close>

theorem producer_destroy_infinite_wait:
  assumes "topic_new_documented env" "running env p tr" "n < 2 ^ 31 - 1"
    "\<And>i. i < n \<Longrightarrow> env_flush_timed_out env (tr @ MutexLock # replicate i (Flush True))"
    "\<not> env_flush_timed_out env (tr @ MutexLock # replicate n (Flush True))"
  shows "\<exists>xs. kafkatools_producer_destroy env (Some p) (- 1) tr =
    Some (tr @ MutexLock # replicate n (Flush True) @ Flush False # map TopicDestroy xs @
      [KafkaDestroy, MutexDestroy, Free])"
proof -
  have f: "flush_loop env (- 1) (tr @ [MutexLock]) =
      Some (tr @ MutexLock # replicate n (Flush True) @ [Flush False])"
    using flush_loop_unbounded [of "- 1" n env "tr @ [MutexLock]"] assms(3-5) by simp
  obtain m where m: "cached env p m tr" using running_invariant [OF assms(1,2)] by blast
  then have c: "rkProducer p" "topic_rep env (rktopic_tree p) (ran m)" by (auto simp: cached_def caches_def)
  show ?thesis
    using destroy_events [OF c(2), of "- 1" tr "replicate n (Flush True) @ [Flush False]"] c(1) f by auto
qed

subsection \<open>A running producer\<close>

lemma ex_mem_fresh: "fresh_memory ex_mem"
  by (simp add: fresh_memory_def ex_mem_ok)

lemma ex_created:
  "\<exists>p tr. running ex_env p tr \<and> cached ex_env p Map.empty tr \<and> has_room (rktopic_tree p)"
proof -
  obtain p tr where c: "kafkatools_producer_create ex_env None True 0 ex_mem [] = Some (KAFKATOOLS_SUCCESS, Some p, tr)"
    "rktopic_tree p = rbtree_init (rktopic_name_cmp ex_env) ex_mem"
    by (simp add: kafkatools_producer_create_def ex_env_def set_props_def Let_def)
  have "has_room (rktopic_tree p)" by (simp add: c(2) has_room_def rbtree_init_def ex_mem_def)
  then show ?thesis
    using running.created [OF ex_mem_fresh c(1)] created_cached [OF ex_mem_fresh c(1)] by blast
qed

lemma ex_running: "\<exists>p tr. running ex_env p tr \<and> refs tr ''test'' = 1"
proof -
  obtain p tr where c: "running ex_env p tr" "cached ex_env p Map.empty tr" "has_room (rktopic_tree p)"
    using ex_created by blast
  have new: "env_topic_new ex_env tr ''test'' = Some ''test''" by (simp add: ex_env_def)
  obtain p' where p': "kafkatools_producer_get_topic ex_env p ''test'' tr =
      Some (Some ''test'', p', tr @ [TopicNew ''test'' (Some ''test'')])"
    "cached ex_env p' [''test'' \<mapsto> ''test''] (tr @ [TopicNew ''test'' (Some ''test'')])"
    using get_topic_missing [OF ex_env_documented c(2,3) new] by auto
  have "caches ex_env (rktopic_tree p') [''test'' \<mapsto> ''test''] (tr @ [TopicNew ''test'' (Some ''test'')])"
    using p'(2) by (simp add: cached_def)
  from caches_refs [OF this, of "''test''"] have "refs (tr @ [TopicNew ''test'' (Some ''test'')]) ''test'' = 1"
    by simp
  then show ?thesis using running.looked_up [OF c(1) p'(1)] by blast
qed

theorem get_topic_refines_witness:
  "\<exists>p tr p'. kafkatools_producer_get_topic ex_env p ''test'' tr =
       Some (Some ''test'', p', tr @ [TopicNew ''test'' (Some ''test'')]) \<and>
     cached ex_env p' [''test'' \<mapsto> ''test''] (tr @ [TopicNew ''test'' (Some ''test'')])"
proof -
  obtain p tr where c: "cached ex_env p Map.empty tr" "has_room (rktopic_tree p)" using ex_created by blast
  have "env_topic_new ex_env tr ''test'' = Some ''test''" by (simp add: ex_env_def)
  then show ?thesis using get_topic_refines [OF ex_env_documented c, of "''test''"] by auto
qed

theorem producer_create_balanced_witness:
  "\<exists>code out ev. kafkatools_producer_create ex_env None True 0 ex_mem [] = Some (code, out, [] @ ev) \<and>
     (code = KAFKATOOLS_SUCCESS \<longleftrightarrow> out \<noteq> None)"
proof -
  have "env_alloc ex_env []" "\<And>t. env_mutex_init ex_env t = 0" by (simp_all add: ex_env_def)
  from producer_create_balanced [OF this(1) ex_mem_fresh this(2)] show ?thesis by blast
qed

theorem produce_timedwait_once_witness:
  "\<exists>code p' ev. kafkatools_produce_timedwait ex_env
     \<lparr>rkProducer = True, opaque = 0, rktopic_tree = ex_mem, errcode = 0, errstr = []\<rparr>
     \<lparr>topic = Some ''test'', partition = 3, partitionid_min = 0, partitionid_max = 7\<rparr> 1000 10 [] =
     Some (code, p', [] @ ev) \<and> attempts ev \<le> 10"
proof -
  have "(0 :: int) < 10" "(10 :: int) < 2 ^ 31"
    "topic \<lparr>topic = Some ''test'', partition = 3, partitionid_min = 0, partitionid_max = 7\<rparr> = Some ''test''" by simp_all
  from produce_timedwait_once [OF this, of ex_env _ 1000 "[]"] show ?thesis by (simp, blast)
qed

theorem producer_running_invariant_witness:
  "\<exists>p tr. running ex_env p tr \<and> (\<forall>r. owned tr r = (if r = Memory \<or> r = Kafka then 1 else 0))"
  using producer_running_invariant [OF ex_env_documented] ex_running by blast

theorem producer_destroy_releases_witness:
  "\<exists>p tr ev. running ex_env p tr \<and> refs tr ''test'' = 1 \<and>
     kafkatools_producer_destroy ex_env (Some p) 5 tr = Some (tr @ ev) \<and> refs (tr @ ev) ''test'' = 0"
proof -
  obtain p tr where r: "running ex_env p tr" "refs tr ''test'' = 1" using ex_running by blast
  have "(0 :: int) \<le> 5" "(5 :: int) < 2 ^ 31" by simp_all
  from producer_destroy_releases [OF ex_env_documented r(1) this] r show ?thesis by blast
qed

theorem producer_destroy_infinite_wait_witness:
  "\<exists>p tr tr'. running ex_env p tr \<and> kafkatools_producer_destroy ex_env (Some p) (- 1) tr = Some tr'"
proof -
  obtain p tr where r: "running ex_env p tr" using ex_running by blast
  have "(1 :: nat) < 2 ^ 31 - 1" by simp
  moreover have "env_flush_timed_out ex_env (tr @ MutexLock # replicate i (Flush True))" if "i < 1" for i
    using that by (simp add: ex_env_def)
  moreover have "\<not> env_flush_timed_out ex_env (tr @ MutexLock # replicate 1 (Flush True))"
    by (simp add: ex_env_def)
  ultimately show ?thesis
    using producer_destroy_infinite_wait [OF ex_env_documented r, of 1] r by blast
qed

end
