(* ===== verification/KT_Misc.thy ===== *)
theory KT_Misc
  imports CStrTime
begin

section \<open>Clock, calendar, files and paths\<close>

text \<open>
  The functions of \<open>src/src/common/misc.h\<close>, in their Linux variant.  System calls are arguments:
  the clock, the conversions \<open>gmtime_r\<close> and \<open>mktime\<close>, the path of the program, the environment
  and the file system.  The string buffers the code makes are strings here.
\<close>

subsection \<open>Arithmetic of C\<close>

text \<open>Division and remainder round towards zero; the divisors are positive.\<close>

definition c_div :: "int \<Rightarrow> int \<Rightarrow> int" where
  "c_div a b = (if a < 0 then - ((- a) div b) else a div b)"

definition c_rem :: "int \<Rightarrow> int \<Rightarrow> int" where
  "c_rem a b = (if a < 0 then - ((- a) mod b) else a mod b)"

subsection \<open>Time\<close>

record timespec =
  tv_sec :: int
  tv_nsec :: int

text \<open>The argument of \<open>nanosleep\<close>, if it is called.\<close>

definition sleep_msec :: "int \<Rightarrow> timespec option" where
  "sleep_msec milliseconds =
     (if milliseconds > 0
      then Some \<lparr>tv_sec = c_div milliseconds 1000, tv_nsec = c_rem milliseconds 1000 * 1000000\<rparr>
      else None)"

definition sleep_usec :: "int \<Rightarrow> timespec option" where
  "sleep_usec us =
     (if us > 0 then Some \<lparr>tv_sec = c_div us 1000000, tv_nsec = c_rem us 1000000 * 1000\<rparr> else None)"

text \<open>\<open>timezone_format\<close>: the zone in seconds west of Greenwich.\<close>

definition timezone_format :: "int \<Rightarrow> cstr" where
  "timezone_format tz =
     take 5
       (if tz < 0 then
          fst (snprintf_chkd_V1 [] 6 (''+'' @ dec_pad 2 (- c_div tz 3600) @ dec_pad 2 (- c_div (c_rem tz 3600) 60)))
        else if tz > 0 then
          fst (snprintf_chkd_V1 [] 6 (''-'' @ dec_pad 2 (c_div tz 3600) @ dec_pad 2 (c_div (c_rem tz 3600) 60)))
        else ''+0000'')"

definition timezone_compute :: "(int \<Rightarrow> 't option) \<Rightarrow> ('t \<Rightarrow> int) \<Rightarrow> int \<Rightarrow> int \<times> cstr option" where
  "timezone_compute gmtime mktime ts =
     (case gmtime ts of
        None \<Rightarrow> (- 1, None)
      | Some t \<Rightarrow> (mktime t - ts, Some (timezone_format (mktime t - ts))))"

record tm =
  tm_sec :: int
  tm_min :: int
  tm_hour :: int
  tm_mday :: int
  tm_mon :: int
  tm_year :: int
  tm_wday :: int
  tm_yday :: int
  tm_isdst :: int

definition YEAR_IS_LEAPYEAR :: "int \<Rightarrow> int" where
  "YEAR_IS_LEAPYEAR y =
     (if c_rem y 4 \<noteq> 0 then 0
      else if c_rem y 100 \<noteq> 0 then 1
      else if c_rem y 400 \<noteq> 0 then 0
      else 1)"

definition mean_mdays :: "int list" where
  "mean_mdays = [31, 28, 31, 30, 31, 30, 31, 31, 30, 31, 30, 31]"

definition leap_mdays :: "int list" where
  "leap_mdays = [31, 29, 31, 30, 31, 30, 31, 31, 30, 31, 30, 31]"

lemma YEAR_IS_LEAPYEAR_bounds: "0 \<le> YEAR_IS_LEAPYEAR y" "YEAR_IS_LEAPYEAR y \<le> 1"
  by (simp_all add: YEAR_IS_LEAPYEAR_def)

lemma year_step: "\<not> days < 365 + YEAR_IS_LEAPYEAR y \<Longrightarrow> 0 < days \<and> - 365 < YEAR_IS_LEAPYEAR y"
  using YEAR_IS_LEAPYEAR_bounds [of y] by simp

text \<open>The loops over the years and over the months; beyond the table of months is \<open>None\<close>.\<close>

function year_loop :: "int \<Rightarrow> int \<Rightarrow> int \<times> int" where
  "year_loop days y =
     (if 365 + YEAR_IS_LEAPYEAR y > days then (days, y)
      else year_loop (days - (365 + YEAR_IS_LEAPYEAR y)) (y + 1))"
  by pat_completeness auto
termination
  by (relation "measure (\<lambda>(days, _). nat days)") (simp_all add: year_step)

declare year_loop.simps [simp del]

fun month_loop :: "int list \<Rightarrow> int \<Rightarrow> int \<Rightarrow> (int \<times> int) option" where
  "month_loop [] days mon = None"
| "month_loop (m # ms) days mon =
     (if days \<ge> m then month_loop ms (days - m) (mon + 1) else Some (days, mon))"

text \<open>
  The product with \<open>dst\<close> is an \<open>int\<close>, the sums are of 64 bits; an overflow is undefined.  The year
  of an instant that is accepted but lies more than two to the 55 seconds ahead may exceed an \<open>int\<close>.
\<close>

definition fits :: "nat \<Rightarrow> int \<Rightarrow> bool" where
  "fits n i \<longleftrightarrow> - (2 ^ (n - 1)) \<le> i \<and> i < 2 ^ (n - 1)"

definition getlocaltime_safe :: "int \<Rightarrow> int \<Rightarrow> int \<Rightarrow> tm option" where
  "getlocaltime_safe t tz dst =
     (if \<not> fits 64 (t - tz) \<or> \<not> fits 32 (3600 * dst) \<or> \<not> fits 64 (t - tz + 3600 * dst) then None
      else let t = t - tz + 3600 * dst;
          days = c_div t 86400;
          seconds = c_rem t 86400;
          (yday, y) = year_loop days 1970 in do {
        (days', mon) \<leftarrow> month_loop (if YEAR_IS_LEAPYEAR y \<noteq> 0 then leap_mdays else mean_mdays) yday 0;
        Some \<lparr>tm_sec = c_rem (c_rem seconds 3600) 60, tm_min = c_div (c_rem seconds 3600) 60,
              tm_hour = c_div seconds 3600, tm_mday = days' + 1, tm_mon = mon, tm_year = y - 1900,
              tm_wday = c_rem (days + 4) 7, tm_yday = yday, tm_isdst = dst\<rparr> })"

text \<open>
  \<open>difftime_msec\<close>: the operands with the suffix \<open>UL\<close> make the arithmetic unsigned, so that also
  the division is that of unsigned numbers; only the tests are signed.
\<close>

definition difftime_msec :: "timespec \<Rightarrow> timespec option \<Rightarrow> timespec option \<Rightarrow> 64 word" where
  "difftime_msec now oldtms newtms =
     (let (sec, nsec) =
        (case (oldtms, newtms) of
           (None, None) \<Rightarrow> (of_int (tv_sec now), of_int (tv_nsec now))
         | (Some ol, Some nw) \<Rightarrow> (of_int (tv_sec nw - tv_sec ol), of_int (tv_nsec nw - tv_nsec ol))
         | (None, Some nw) \<Rightarrow> (of_int (tv_sec nw), of_int (tv_nsec nw))
         | (Some ol, None) \<Rightarrow> (of_int (tv_sec ol), of_int (tv_nsec ol))) in
      if sint sec > 0 then
        if sint nsec \<ge> 0 then sec * 1000 + nsec div 1000000
        else (sec - 1) * 1000 + (nsec + 1000000000) div 1000000
      else if sint sec < 0 then
        if sint nsec \<le> 0 then sec * 1000 + nsec div 1000000
        else (sec + 1) * 1000 + (nsec - 1000000000) div 1000000
      else nsec div 1000000)"

definition format_nowtimeofday :: "timespec \<Rightarrow> cstr option" where
  "format_nowtimeofday now =
     map_option
       (\<lambda>loc. take 23 (fst (snprintf_chkd_V1 [] 24
          (dec_pad 4 (tm_year loc + 1900) @ ''-'' @ dec_pad 2 (tm_mon loc + 1) @ ''-'' @ dec_pad 2 (tm_mday loc) @
           '' '' @ dec_pad 2 (tm_hour loc) @ '':'' @ dec_pad 2 (tm_min loc) @ '':'' @ dec_pad 2 (tm_sec loc) @
           '' UTC''))))
       (getlocaltime_safe (tv_sec now) 0 0)"

subsection \<open>Files\<close>

text \<open>
  The loops around \<open>read\<close> and \<open>write\<close>.  A call takes the number of bytes asked for and the state
  of the file; \<open>None\<close> is its result -1.
\<close>

partial_function (option) read_loop ::
    "(nat \<Rightarrow> 'f \<Rightarrow> cstr option \<times> 'f) \<Rightarrow> nat \<Rightarrow> cstr \<Rightarrow> 'f \<Rightarrow> (int \<times> cstr \<times> 'f) option" where
  [code]: "read_loop rd sizebuf buf f =
     (if length buf = sizebuf then Some (int (length buf), buf, f)
      else
        (case rd (sizebuf - length buf) f of
           (None, f) \<Rightarrow> Some (- 1, buf, f)
         | (Some bs, f) \<Rightarrow>
             if bs = [] then Some (int (length buf), buf, f) else read_loop rd sizebuf (buf @ bs) f))"

definition file_readbytes :: "(nat \<Rightarrow> 'f \<Rightarrow> cstr option \<times> 'f) \<Rightarrow> nat \<Rightarrow> 'f \<Rightarrow> (int \<times> cstr \<times> 'f) option" where
  "file_readbytes rd sizebuf f = read_loop rd sizebuf [] f"

partial_function (option) write_loop ::
    "(cstr \<Rightarrow> 'f \<Rightarrow> nat option \<times> 'f) \<Rightarrow> cstr \<Rightarrow> 'f \<Rightarrow> (int \<times> 'f) option" where
  [code]: "write_loop wr rest f =
     (if rest = [] then Some (0, f)
      else
        (case wr rest f of
           (None, f) \<Rightarrow> Some (- 1, f)
         | (Some n, f) \<Rightarrow> write_loop wr (drop n rest) f))"

definition file_writebytes :: "(cstr \<Rightarrow> 'f \<Rightarrow> nat option \<times> 'f) \<Rightarrow> cstr \<Rightarrow> 'f \<Rightarrow> (int \<times> 'f) option" where
  "file_writebytes wr bytesbuf f = write_loop wr bytesbuf f"

text \<open>\<open>file_close\<close>: the result, what the handle becomes and the handle that is closed.\<close>

definition file_close :: "(int \<Rightarrow> int) \<Rightarrow> int option \<Rightarrow> int \<times> int option \<times> int option" where
  "file_close close phf =
     (case phf of
        None \<Rightarrow> (- 1, None, None)
      | Some hf \<Rightarrow> if hf \<noteq> - 1 then (close hf, Some (- 1), Some hf) else (- 1, Some hf, None))"

subsection \<open>Paths\<close>

definition PATH_SEPARATOR_CHAR :: char where "PATH_SEPARATOR_CHAR = CHR ''/''"

definition pathfile_exists :: "(cstr \<Rightarrow> int) \<Rightarrow> cstr option \<Rightarrow> bool" where
  "pathfile_exists access pathname = (case pathname of None \<Rightarrow> False | Some s \<Rightarrow> access s \<noteq> - 1)"

text \<open>
  \<open>readlink\<close> on the link to the program: the number of bytes it puts into a buffer.  The code
  enlarges the buffer until there is a byte left for the null, and exits on failure.
\<close>

definition readlink :: "cstr option \<Rightarrow> nat \<Rightarrow> int" where
  "readlink link n = (case link of None \<Rightarrow> - 1 | Some s \<Rightarrow> int (min (length s) n))"

function pathfile_loop :: "cstr option \<Rightarrow> nat \<Rightarrow> int" where
  "pathfile_loop link bufsize =
     (let r = readlink link bufsize in
      if r \<ge> int bufsize then pathfile_loop link (bufsize + 128) else r)"
  by pat_completeness auto
termination
  by (relation "measure (\<lambda>(link, n). Suc (length (the link)) - n)") (auto simp: readlink_def split: option.splits)

declare pathfile_loop.simps [simp del]

definition get_proc_pathfile :: "cstr option \<Rightarrow> cstr option" where
  "get_proc_pathfile link =
     (let r = pathfile_loop link 128 in if r \<le> 0 then None else Some (take (nat r) (the link)))"

text \<open>\<open>get_proc_abspath\<close>: the path of the program without its last part.\<close>

definition cut_last :: "cstr \<Rightarrow> cstr" where
  "cut_last pathfile =
     (case (strrchr_at pathfile (CHR 0x5C), strrchr_at pathfile (CHR ''/'')) of
        (Some p, Some q) \<Rightarrow> take (if p > q then p else q) pathfile
      | (Some p, None) \<Rightarrow> take p pathfile
      | (None, Some q) \<Rightarrow> take q pathfile
      | (None, None) \<Rightarrow> pathfile)"

definition get_proc_abspath :: "cstr option \<Rightarrow> cstr option" where
  "get_proc_abspath link = map_option cut_last (get_proc_pathfile link)"

text \<open>
  A directory or a path that already ends with the file, completed to the path of the file.  The
  last character of an empty string is read in front of it.
\<close>

definition complete_path :: "cstr \<Rightarrow> cstr \<Rightarrow> cstr option" where
  "complete_path path cfgname =
     (let pname = PATH_SEPARATOR_CHAR # cfgname; tname = CHR ''/'' # cfgname in
      if cstr_endwith False (Some path) (length path) (Some pname) (length pname) \<or>
         cstr_endwith False (Some path) (length path) (Some tname) (length tname) then Some path
      else if path = [] then None
      else if last path = PATH_SEPARATOR_CHAR \<or> last path = CHR ''/'' then Some (path @ cfgname)
      else Some (path @ PATH_SEPARATOR_CHAR # cfgname))"

definition find_config_pathfile ::
    "(cstr \<Rightarrow> int) \<Rightarrow> (cstr \<Rightarrow> cstr option) \<Rightarrow> cstr option \<Rightarrow> cstr option \<Rightarrow> cstr \<Rightarrow> cstr option \<Rightarrow>
      cstr option \<Rightarrow> cstr option option" where
  "find_config_pathfile access getenv link cfgpath cfgname envvarname etcconfpath =
     (let pname = PATH_SEPARATOR_CHAR # cfgname in
      case cfgpath of
        Some path \<Rightarrow> map_option Some (complete_path path cfgname)
      | None \<Rightarrow> do {
          dname \<leftarrow> get_proc_abspath link;
          let config1 = dname @ pname;
          let config2 = dname @ [PATH_SEPARATOR_CHAR] @ ''conf'' @ pname;
          let config3 = map_option (\<lambda>p. take p dname @ [PATH_SEPARATOR_CHAR] @ ''conf'' @ pname)
                (strrchr_at dname PATH_SEPARATOR_CHAR);
          if pathfile_exists access (Some config1) then Some (Some config1)
          else if pathfile_exists access (Some config2) then Some (Some config2)
          else if pathfile_exists access config3 then Some config3
          else
            (case Option.bind envvarname getenv of
               Some p \<Rightarrow> map_option Some (complete_path p cfgname)
             | None \<Rightarrow> Some (map_option (\<lambda>etc. etc @ pname) etcconfpath)) })"

subsection \<open>The calendar\<close>

text \<open>
  The day of a date, counted from the first of January 1970, in the Gregorian calendar.  With years
  that begin in March the leap day is the last of the year, and the lengths of the months repeat 31, 30, 31, 30,
  31: no table of months and no rule for leap years is needed.
\<close>

definition civil_day :: "int \<Rightarrow> int \<Rightarrow> int \<Rightarrow> int" where
  "civil_day y m d =
     (let y' = (if m \<le> 2 then y - 1 else y); m' = (m + 9) mod 12 in
      365 * y' + y' div 4 - y' div 100 + y' div 400 + (153 * m' + 2) div 5 + d - 1 - 719468)"

lemma civil_day_examples:
  "civil_day 1970 1 1 = 0" "civil_day 2000 3 1 = civil_day 2000 2 29 + 1" "civil_day 1900 3 1 = civil_day 1900 2 28 + 1"
  "civil_day 2024 3 1 = civil_day 2024 2 29 + 1" "civil_day 2023 3 1 = civil_day 2023 2 28 + 1"
  "civil_day 2024 4 1 = civil_day 2024 3 31 + 1" "civil_day 2024 5 1 = civil_day 2024 4 30 + 1"
  by (simp_all add: civil_day_def)

























theorem getlocaltime_before_epoch:
  "map_option (\<lambda>l. (tm_year l, tm_mon l, tm_mday l, tm_hour l, tm_min l, tm_sec l)) (getlocaltime_safe (- 1) 0 0) =
     Some (70, 0, 1, 0, 0, - 1)"
  by code_simp

subsection \<open>Time differences\<close>

lemma sint_of_int:
  assumes "- (2 ^ 63) \<le> i" "i < 2 ^ 63"
  shows "sint (of_int i :: 64 word) = i"
proof -
  have "sint (word_of_int i :: 64 word) = signed_take_bit 63 i" by transfer simp
  also have "\<dots> = i" using assms by (rule signed_take_bit_int_eq_self)
  finally show ?thesis by simp
qed

lemma zdiv_le_dividend0: "0 \<le> i \<Longrightarrow> i div 1000000 \<le> (i :: int)"
  using zdiv_mono2 [of i 1 1000000] by simp

lemma of_int_div_million:
  assumes "0 \<le> i" "i < 2 ^ 64"
  shows "(of_int i :: 64 word) div 1000000 = of_int (i div 1000000)"
proof -
  have "i div 1000000 \<le> i" using assms(1) by (simp add: zdiv_le_dividend0)
  moreover have "0 \<le> i div 1000000" using assms(1) by (simp add: pos_imp_zdiv_nonneg_iff)
  ultimately show ?thesis
    using assms by (simp add: word_uint_eq_iff uint_div uint_word_of_int_eq take_bit_int_eq_self)
qed

lemma msec_terms: "(a * 1000000000 + b) div 1000000 = a * 1000 + b div (1000000 :: int)"
proof -
  have "a * 1000000000 + b = b + (a * 1000) * 1000000" by simp
  then show ?thesis by (simp only: div_mult_self1)
qed

text \<open>
  for two points in time in order, less than two to the 53 seconds apart, \<open>difftime_msec\<close>
  returns the time between them in milliseconds, rounded down.
\<close>

theorem difftime_msec_correct:
  assumes sec_def: "sec = tv_sec nw - tv_sec ol" and nsec_def: "nsec = tv_nsec nw - tv_nsec ol"
    and "0 \<le> tv_nsec ol" "tv_nsec ol < 1000000000" "0 \<le> tv_nsec nw" "tv_nsec nw < 1000000000"
    "0 \<le> sec * 1000000000 + nsec" "sec < 2 ^ 53"
  shows "sint (difftime_msec now (Some ol) (Some nw)) = (sec * 1000000000 + nsec) div 1000000"
proof -
  have n: "- 1000000000 < nsec" "nsec < 1000000000" using assms by simp_all
  then have s: "0 \<le> sec" using assms(7) by simp
  have q: "- 1000 \<le> nsec div 1000000" "nsec div 1000000 < 1000"
    using n zdiv_mono1 [of "- 1000000000" nsec 1000000] zdiv_mono1 [of nsec 999999999 1000000] by simp_all
  have w: "sint (of_int sec :: 64 word) = sec" "sint (of_int nsec :: 64 word) = nsec"
    using s n assms(8) by (auto intro!: sint_of_int)
  show ?thesis
  proof (cases "0 \<le> nsec")
    case True
    have "difftime_msec now (Some ol) (Some nw) = of_int (sec * 1000 + nsec div 1000000)"
      using True n s w of_int_div_million [of nsec]
      by (simp add: difftime_msec_def sec_def [symmetric] nsec_def [symmetric] flip: of_int_diff)
    then show ?thesis using q s assms(8) by (simp only: msec_terms) (subst sint_of_int; simp)
  next
    case False
    then have "0 < sec" using assms(7) s by simp
    moreover have "(nsec + 1000000000) div 1000000 = nsec div 1000000 + 1000" by simp
    ultimately have "difftime_msec now (Some ol) (Some nw) = of_int (sec * 1000 + nsec div 1000000)"
      using False n s w of_int_div_million [of "nsec + 1000000000"]
      by (simp add: difftime_msec_def sec_def [symmetric] nsec_def [symmetric] algebra_simps flip: of_int_diff)
    then show ?thesis using q s assms(8) by (simp only: msec_terms) (subst sint_of_int; simp)
  qed
qed

theorem difftime_msec_correct_witness:
  "sint (difftime_msec \<lparr>tv_sec = 0, tv_nsec = 0\<rparr>
    (Some \<lparr>tv_sec = 1000, tv_nsec = 999000000\<rparr>) (Some \<lparr>tv_sec = 1001, tv_nsec = 500000\<rparr>)) = 1"
  using difftime_msec_correct [of 1 "\<lparr>tv_sec = 1001, tv_nsec = 500000\<rparr>" "\<lparr>tv_sec = 1000, tv_nsec = 999000000\<rparr>" "- 998500000"] by simp

text \<open>In the other order half a second comes out as more than five hundred years.\<close>

theorem difftime_msec_reversed:
  "sint (difftime_msec \<lparr>tv_sec = 0, tv_nsec = 0\<rparr>
    (Some \<lparr>tv_sec = 7, tv_nsec = 500000000\<rparr>) (Some \<lparr>tv_sec = 7, tv_nsec = 0\<rparr>)) = 18446744073209"
  by (simp add: difftime_msec_def)

subsection \<open>Reading, writing and finding files\<close>

text \<open>
  The contract of \<open>read\<close> on a file with these bytes left, and that of \<open>write\<close> on a file with
  these bytes in it: a call may move fewer bytes than asked for, but some.
\<close>

definition reads :: "(nat \<Rightarrow> cstr \<Rightarrow> cstr option \<times> cstr) \<Rightarrow> bool" where
  "reads rd \<longleftrightarrow>
     (\<forall>n f. \<exists>k. rd n f = (Some (take k f), drop k f) \<and> k \<le> n \<and> k \<le> length f \<and> (k = 0 \<longrightarrow> n = 0 \<or> f = []))"

definition writes :: "(cstr \<Rightarrow> cstr \<Rightarrow> nat option \<times> cstr) \<Rightarrow> bool" where
  "writes wr \<longleftrightarrow>
     (\<forall>s f. \<exists>k. wr s f = (Some k, f @ take k s) \<and> k \<le> length s \<and> (k = 0 \<longrightarrow> s = []))"

lemma read_loop_all:
  assumes "reads rd"
  shows "length buf \<le> n \<Longrightarrow> length buf + length f < 2 ^ 31 \<Longrightarrow>
    read_loop rd n buf f =
      Some (int (min n (length buf + length f)), buf @ take (n - length buf) f, drop (n - length buf) f)"
proof (induction f arbitrary: buf rule: length_induct)
  case (1 f)
  obtain k where k: "rd (n - length buf) f = (Some (take k f), drop k f)" "k \<le> n - length buf" "k \<le> length f"
      "k = 0 \<longrightarrow> n - length buf = 0 \<or> f = []"
    using assms unfolding reads_def by blast
  show ?case
  proof (cases "length buf = n \<or> f = []")
    case True
    then show ?thesis using 1 k by (auto simp: read_loop.simps [of rd n buf f])
  next
    case False
    then have k0: "0 < k" "f \<noteq> []" "length buf \<noteq> n" using k(4) "1.prems"(1) by auto
    then have "length (drop k f) < length f" by simp
    then have "read_loop rd n (buf @ take k f) (drop k f) =
        Some (int (min n (length buf + length f)), (buf @ take k f) @ take (n - length (buf @ take k f)) (drop k f),
          drop (n - length (buf @ take k f)) (drop k f))"
      using "1.IH" [rule_format, of "drop k f" "buf @ take k f"] "1.prems" k(2,3) by simp
    moreover have "take k f @ take (n - length buf - k) (drop k f) = take (n - length buf) f"
      using k(2) take_add [of k "n - length buf - k" f] by (simp only: le_add_diff_inverse)
    ultimately show ?thesis using k k0 by (simp add: read_loop.simps [of rd n buf f])
  qed
qed

lemma file_readbytes_all:
  "reads rd \<Longrightarrow> length f < 2 ^ 31 \<Longrightarrow>
    file_readbytes rd n f = Some (int (min n (length f)), take n f, drop n f)"
  using read_loop_all [of rd "[]" n f] by (simp add: file_readbytes_def)

lemma file_writebytes_all:
  assumes "writes wr"
  shows "file_writebytes wr s f = Some (0, f @ s)"
  unfolding file_writebytes_def
proof (induction s arbitrary: f rule: length_induct)
  case (1 s)
  obtain k where k: "wr s f = (Some k, f @ take k s)" "k \<le> length s" "k = 0 \<longrightarrow> s = []"
    using assms unfolding writes_def by blast
  show ?case
  proof (cases "s = []")
    case True
    then show ?thesis by (simp add: write_loop.simps)
  next
    case False
    then have "length (drop k s) < length s" using k by auto
    then have "write_loop wr (drop k s) (f @ take k s) = Some (0, f @ s)" using 1 by simp
    then show ?thesis using False k(1) by (simp add: write_loop.simps [of wr s f])
  qed
qed

text \<open>The path of the program comes out whole, however long it is.\<close>

lemma get_proc_pathfile_whole: "s \<noteq> [] \<Longrightarrow> get_proc_pathfile (Some s) = Some s"
proof -
  have "0 < n \<Longrightarrow> pathfile_loop (Some s) n = int (length s)" for n
  proof (induction "Some s" n rule: pathfile_loop.induct)
    case (1 n)
    then show ?case by (subst pathfile_loop.simps) (auto simp: readlink_def min_def)
  qed
  then show "s \<noteq> [] \<Longrightarrow> get_proc_pathfile (Some s) = Some s" by (simp add: get_proc_pathfile_def)
qed

lemma conf_suffixes [simp]: "suffix x (y @ x)" "suffix x (y @ a # b # c # d # e # x)"
  by (auto simp: suffix_def)

lemma complete_path_suffix:
  assumes "complete_path path cfgname = Some c" "length path < 2 ^ 64"
  shows "suffix (CHR ''/'' # cfgname) c"
proof -
  note e = endwith_suffix [OF assms(2), of "CHR ''/'' # cfgname", simplified]
  show ?thesis
  proof (cases "path \<noteq> [] \<and> last path = CHR ''/''")
    case True
    then have "path @ cfgname = butlast path @ CHR ''/'' # cfgname"
      by (metis append_assoc append_butlast_last_id append_Cons append_Nil)
    then have "suffix (CHR ''/'' # cfgname) (path @ cfgname)" by (simp only: conf_suffixes)
    with True assms show ?thesis
      by (auto simp: complete_path_def PATH_SEPARATOR_CHAR_def e Let_def split: if_splits)
  next
    case False
    with assms show ?thesis
      by (auto simp: complete_path_def PATH_SEPARATOR_CHAR_def e Let_def split: if_splits)
  qed
qed

text \<open>Wherever it is found, the path of the configuration file ends with its name behind a slash.\<close>

lemma find_config_pathfile_suffix:
  assumes "find_config_pathfile access getenv link cfgpath cfgname envvarname etcconfpath = Some (Some c)"
    "\<forall>p. cfgpath = Some p \<longrightarrow> length p < 2 ^ 64" "\<forall>v p. getenv v = Some p \<longrightarrow> length p < 2 ^ 64"
  shows "suffix (CHR ''/'' # cfgname) c"
proof (cases cfgpath)
  case None
  with assms(1) obtain dname where "get_proc_abspath link = Some dname"
    by (auto simp: find_config_pathfile_def Let_def bind_eq_Some_conv)
  with None assms(1,3) show ?thesis
    unfolding find_config_pathfile_def Let_def PATH_SEPARATOR_CHAR_def
    by (simp split: if_splits option.splits) (auto simp: bind_eq_Some_conv pathfile_exists_def intro: complete_path_suffix)
next
  case (Some p)
  with assms show ?thesis by (auto simp: find_config_pathfile_def Let_def intro: complete_path_suffix)
qed

end
