(* ===== verification/KT_State.thy ===== *)
theory KT_State
  imports KT_Producer KT_Props CStrSplit KT_Misc
begin

section \<open>The producer state and the sample producer\<close>

text \<open>
  The high-level interface of \<open>src/src/kafkatools_producer.c\<close>, which makes a producer from a
  properties file, and the program \<open>src/src/produce.c\<close> that uses it.  The file system is two
  functions: whether a path exists and what can be read from it.  The directory of the
  program, which \<open>get_proc_abspath\<close> finds, is an argument.  The string buffers the code makes
  are strings here.
\<close>

subsection \<open>The path of the properties file\<close>

definition KAFKA_PRODUCER_PROPERTIES_FILE :: cstr where
  "KAFKA_PRODUCER_PROPERTIES_FILE = ''kafka-producer.properties''"

definition is_separator :: "char \<Rightarrow> bool" where
  "is_separator c \<longleftrightarrow> c = PATH_SEPARATOR_CHAR \<or> c = CHR ''/''"

definition kt_get_producer_properties_pathfile :: "cstr \<Rightarrow> cstr option \<Rightarrow> cstr" where
  "kt_get_producer_properties_pathfile bindir propspathfile =
     (let pathfile = (case propspathfile of None \<Rightarrow> [] | Some s \<Rightarrow> take KAFKATOOLS_PROPSFILE_LEN_MAX s);
          pathlen = length pathfile in
      if pathlen < 2 then bindir @ [PATH_SEPARATOR_CHAR] @ KAFKA_PRODUCER_PROPERTIES_FILE
      else
        (let pathfile =
           (if is_separator (pathfile ! (pathlen - 1))
            then pathfile[pathlen - 1 := PATH_SEPARATOR_CHAR] @ KAFKA_PRODUCER_PROPERTIES_FILE
            else pathfile) in
         if char_at pathfile 0 = CHR ''.'' \<and> is_separator (char_at pathfile 1) then
           bindir @ [PATH_SEPARATOR_CHAR] @ drop 2 pathfile
         else if char_at pathfile 0 = CHR ''.'' \<and> char_at pathfile 1 = CHR ''.'' \<and>
                 is_separator (char_at pathfile 2) then
           bindir @ [PATH_SEPARATOR_CHAR] @ pathfile
         else pathfile))"

subsection \<open>State\<close>

record 'h ktstate =
  producer :: "'h producer option"
  site :: "'h site"
  statearg :: ptr

text \<open>
  The topic and the scope of the partitions from the parts of \<open>topicpartitions\<close>; the topic is
  the handle found for the name.
\<close>

definition parse_scope :: "cstr list \<Rightarrow> 'h option \<Rightarrow> 'h site \<Rightarrow> 'h site" where
  "parse_scope split h st =
     (case split of
        [_, pt] \<Rightarrow>
          (case strchr pt (CHR ''-'') of
             Some maxpartid \<Rightarrow>
               st\<lparr>topic := h, partitionid_min := atoi (cut_at pt (CHR ''-'')),
                  partitionid_max := atoi (tl maxpartid)\<rparr>
           | None \<Rightarrow>
               st\<lparr>topic := h, partition := atoi pt, partitionid_min := atoi pt, partitionid_max := atoi pt\<rparr>)
      | _ \<Rightarrow> st\<lparr>topic := h, partition := 0, partitionid_min := 0, partitionid_max := 0\<rparr>)"

definition scope_invalid :: "'h site \<Rightarrow> bool" where
  "scope_invalid st \<longleftrightarrow>
     topic st = None \<or> partitionid_max st < partitionid_min st \<or> partitionid_min st < 0 \<or>
     partitionid_max st > KAFKATOOLS_PARTITIONID_MAX"

definition kafkatools_propsbuf_free :: "'b option \<Rightarrow> 'h trace \<Rightarrow> 'h trace" where
  "kafkatools_propsbuf_free propsbuf tr = (if propsbuf = None then tr else tr @ [Free])"

text \<open>
  \<open>cstrbufNew\<close> never gives a null pointer, and \<open>cstr_split_substr\<close> always gives a first piece, so
  the first two checks of the code never fail.
\<close>

definition kafkatools_producer_state_init ::
    "'h env \<Rightarrow> (cstr \<Rightarrow> bool) \<Rightarrow> (cstr \<Rightarrow> cstr option) \<Rightarrow> cstr \<Rightarrow> 'h rbstate \<Rightarrow> cstr option \<Rightarrow> cstr option \<Rightarrow>
      bool \<Rightarrow> ptr \<Rightarrow> ptr \<Rightarrow> 'h ktstate \<Rightarrow> 'h trace \<Rightarrow> (int \<times> 'h ktstate \<times> 'h trace) option" where
  "kafkatools_producer_state_init env exists0 fopen bindir mem propertiesfile topicpartitions cb_default argp
     statep st tr = do {
     let propsfile = kt_get_producer_properties_pathfile bindir propertiesfile;
     let topicpt = (case topicpartitions of None \<Rightarrow> [] | Some s \<Rightarrow> s);
     topicptsplit \<leftarrow> cstr_split_substr topicpt '':'' 1 2;
     if topicptsplit = [] then Some (KAFKATOOLS_EFATAL, st, tr)
     else if \<not> exists0 propsfile then Some (KAFKATOOLS_EFILE, st, tr)
     else do {
       (ret, propsbuf) \<leftarrow> kafkatools_props_readconf (fopen propsfile) (Some (hd topicptsplit)) (env_alloc env tr);
       let tr = (if propsbuf = None then tr else tr @ [Alloc True]);
       (rc, propnames, propvalues) \<leftarrow> kafkatools_props_retrieve (map_option fst propsbuf)
         (case propsbuf of None \<Rightarrow> 0 | Some (_, sz) \<Rightarrow> sz) ret;
       if rc \<noteq> KAFKATOOLS_SUCCESS then
         Some (KAFKATOOLS_EPROPS, st, kafkatools_propsbuf_free propsbuf tr)
       else do {
         let st = st\<lparr>statearg := argp\<rparr>;
         (ret, out, tr) \<leftarrow> kafkatools_producer_create env (Some (zip propnames propvalues)) cb_default statep mem tr;
         if ret \<noteq> KAFKATOOLS_SUCCESS then
           Some (KAFKATOOLS_ERROR, st, kafkatools_propsbuf_free propsbuf tr)
         else do {
           p \<leftarrow> out;
           let tr = kafkatools_propsbuf_free propsbuf tr;
           (h, p, tr) \<leftarrow> kafkatools_producer_get_topic env p (hd topicptsplit) tr;
           let st = st\<lparr>producer := Some p, site := parse_scope topicptsplit h (site st)\<rparr>;
           if scope_invalid (site st) then Some (KAFKATOOLS_EARG, st, tr)
           else Some (KAFKATOOLS_SUCCESS, st, tr) } } } }"

definition kafkatools_producer_state_uninit :: "'h env \<Rightarrow> 'h ktstate \<Rightarrow> int \<Rightarrow> 'h trace \<Rightarrow> 'h trace option" where
  "kafkatools_producer_state_uninit env st wait_ms tr = kafkatools_producer_destroy env (producer st) wait_ms tr"

subsection \<open>The sample program\<close>

text \<open>The macro \<open>GET_PARTITIONID\<close> on \<open>int\<close>.\<close>

definition GET_PARTITIONID :: "int \<Rightarrow> int \<Rightarrow> int \<Rightarrow> int" where
  "GET_PARTITIONID i minid maxid = c_rem i (maxid - minid + 1) + minid"

definition MESSAGE_SIZE :: nat where "MESSAGE_SIZE = 1024"

text \<open>The payload loop, and the loop that sends the messages.\<close>

definition payload :: cstr where
  "payload = map (\<lambda>i. char_of (nat (GET_PARTITIONID (int i) 0x20 0x7E))) [0..<MESSAGE_SIZE - 1]"

fun send_loop :: "'h env \<Rightarrow> 'h ktstate \<Rightarrow> int \<Rightarrow> nat \<Rightarrow> 'h trace \<Rightarrow> ('h ktstate \<times> 'h trace) option" where
  "send_loop env st i 0 tr = Some (st, tr)"
| "send_loop env st i (Suc n) tr = do {
     let s = (site st)\<lparr>partition := GET_PARTITIONID i (partitionid_min (site st)) (partitionid_max (site st))\<rparr>;
     p \<leftarrow> producer st;
     (err, p, tr) \<leftarrow> kafkatools_produce_timedwait env p s 1000 10 tr;
     send_loop env (st\<lparr>producer := Some p, site := s\<rparr>) (i + 1) n tr }"

text \<open>
  \<open>main\<close> with the arguments after the program name; \<open>Inl\<close> is the exit status of an exit, \<open>Inr\<close> that
  of a return.  The state is initialised twice.
\<close>

definition produce_main ::
    "'h env \<Rightarrow> (cstr \<Rightarrow> bool) \<Rightarrow> (cstr \<Rightarrow> cstr option) \<Rightarrow> cstr \<Rightarrow> 'h rbstate \<Rightarrow> ptr \<Rightarrow> cstr list \<Rightarrow>
      ((int + int) \<times> 'h trace) option" where
  "produce_main env exists0 fopen bindir mem statep args = do {
     let init = (\<lambda>file tp st tr.
       kafkatools_producer_state_init env exists0 fopen bindir mem file (Some tp) False 0 statep st tr);
     let st = \<lparr>producer = None,
       site = \<lparr>topic = None, partition = 0, partitionid_min = 0, partitionid_max = 0\<rparr>, statearg = 0\<rparr>;
     if length args = 0 \<or> length args > 3 then Some (Inl 0, [])
     else do {
       let messages = (if length args = 3 then atoi (args ! 2) else 10000);
       (ret, st, tr) \<leftarrow> init (if length args = 1 then None else Some (args ! 1)) (args ! 0) st [];
       (ret, st, tr) \<leftarrow> init (if length args = 2 then Some (args ! 1) else None) (args ! 0) st tr;
       if ret \<noteq> KAFKATOOLS_SUCCESS then Some (Inl 1, tr)
       else do {
         (st, tr) \<leftarrow> send_loop env st 0 (nat messages) tr;
         tr \<leftarrow> kafkatools_producer_state_uninit env st (- 1) tr;
         Some (Inr 0, tr) } } }"

subsection \<open>Properties\<close>

text \<open>
  C23: when \<open>kafkatools_producer_state_init\<close> reports success there is a producer and a topic, and
  the scope of the partitions is a range within the limits.
\<close>

theorem state_init_success:
  assumes "kafkatools_producer_state_init env exists0 fopen bindir mem file tp cb argp statep st tr =
    Some (KAFKATOOLS_SUCCESS, st', tr')"
  shows "producer st' \<noteq> None \<and> topic (site st') \<noteq> None \<and> 0 \<le> partitionid_min (site st') \<and>
    partitionid_min (site st') \<le> partitionid_max (site st') \<and>
    partitionid_max (site st') \<le> KAFKATOOLS_PARTITIONID_MAX"
proof -
  have "producer st' \<noteq> None \<and> \<not> scope_invalid (site st')"
    using assms unfolding kafkatools_producer_state_init_def
    by (auto simp: Let_def bind_eq_Some_conv kt_codes split: if_splits prod.splits)
  then show ?thesis by (auto simp: scope_invalid_def)
qed

lemma cut_at_append: "c \<notin> set s \<Longrightarrow> cut_at (s @ c # t) c = s"
  by (auto simp: cut_at_def takeWhile_append takeWhile_eq_all_conv)

lemma strchr_append: "c \<notin> set s \<Longrightarrow> strchr (s @ c # t) c = Some (c # t)"
  by (auto simp: strchr_def dropWhile_append)

lemma dec_notin: "0 \<le> i \<Longrightarrow> \<not> isdigit c \<Longrightarrow> c \<notin> set (dec i)"
  using dec_nat_digits [of "nat i"] by (auto simp: dec_def list_all_iff)

lemma strstr_single: "c \<notin> set s \<Longrightarrow> strstr s [c] = None" "c \<notin> set s \<Longrightarrow> strstr (s @ c # t) [c] = Some (length s)"
  by (induction s) auto

text \<open>
  C24: a topic and a scope of partitions written as \<open>topic:min-max\<close> are split and read back as
  that topic and that scope.
\<close>

theorem topic_scope_roundtrip:
  assumes "CHR '':'' \<notin> set name" "0 \<le> a" "a < 2 ^ 31" "0 \<le> b" "b < 2 ^ 31"
  shows "\<exists>split. cstr_split_substr (name @ '':'' @ dec a @ ''-'' @ dec b) '':'' 1 2 = Some split \<and>
    hd split = name \<and>
    parse_scope split h s = s\<lparr>topic := h, partitionid_min := a, partitionid_max := b\<rparr>"
proof -
  let ?r = "dec a @ CHR ''-'' # dec b"
  have d: "CHR '':'' \<notin> set ?r" "CHR ''-'' \<notin> set (dec a)"
    using dec_notin [OF assms(2)] dec_notin [OF assms(4)] by (auto simp: isdigit_def)
  have "cstr_split_substr (name @ CHR '':'' # ?r) [CHR '':''] (Suc 0) (Suc (Suc 0)) = Some [name, ?r]"
    using strstr_single(2) [OF assms(1), of ?r] strstr_single(1) [OF d(1)] by simp
  moreover have "atoi (dec a) = a" "atoi (dec b) = b" using assms by (simp_all add: atoi_dec)
  ultimately show ?thesis
    using strchr_append [OF d(2), of "dec b"] cut_at_append [OF d(2), of "dec b"]
    by (simp add: parse_scope_def numeral_2_eq_2)
qed

theorem topic_scope_roundtrip_witness:
  "\<exists>split. cstr_split_substr (''test'' @ '':'' @ dec 0 @ ''-'' @ dec 63) '':'' 1 2 = Some split \<and> hd split = ''test''"
proof -
  have "CHR '':'' \<notin> set ''test''" "(0 :: int) \<le> 0" "(0 :: int) < 2 ^ 31" "(0 :: int) \<le> 63" "(63 :: int) < 2 ^ 31"
    by simp_all
  from topic_scope_roundtrip [OF this] show ?thesis by blast
qed

lemma partitionid_in_scope:
  "0 \<le> i \<Longrightarrow> lo \<le> hi \<Longrightarrow> lo \<le> GET_PARTITIONID i lo hi \<and> GET_PARTITIONID i lo hi \<le> hi"
  using pos_mod_bound [of "hi - lo + 1" i] pos_mod_sign [of "hi - lo + 1" i]
  by (simp add: GET_PARTITIONID_def c_rem_def)

text \<open>Every attempt in a trace is for a partition in the scope.\<close>

definition in_scope :: "int \<Rightarrow> int \<Rightarrow> 'h trace \<Rightarrow> bool" where
  "in_scope lo hi tr \<longleftrightarrow> (\<forall>h i r. Produce h i r \<in> set tr \<longrightarrow> lo \<le> i \<and> i \<le> hi)"

lemma produce_loop_partition:
  assumes "produce_loop env h i t n ret tr = Some (ret', tr')"
  shows "\<exists>ev. tr' = tr @ ev \<and> (\<forall>h' j r. Produce h' j r \<in> set ev \<longrightarrow> j = i)"
proof -
  let ?Q = "\<lambda>i ev. \<forall>h' j r. Produce h' j r \<in> set ev \<longrightarrow> j = i"
  let ?P = "\<lambda>env h i t n ret tr res. \<exists>ev. snd res = tr @ ev \<and> ?Q i ev"
  have "?P env h i t n ret tr (ret', tr')"
  proof (rule produce_loop.raw_induct [of ?P, OF _ assms], goal_cases)
    case (1 f env h i t n ret tr res)
    let ?e = "Produce h i (env_produce env tr h i)"
    show ?case
    proof (cases "n \<noteq> 0 \<and> env_produce env tr h i = - 1 \<and> env_last_error env (tr @ [?e]) = RD_KAFKA_RESP_ERR__QUEUE_FULL")
      case True
      then have "f env h i t (int32 (n - 1)) (- 1) (tr @ [?e] @ [Poll t]) = Some res"
        using 1(2) by (auto simp: Let_def)
      then obtain ev where "snd res = (tr @ [?e] @ [Poll t]) @ ev" "?Q i ev" using 1(1) by blast
      then show ?thesis by (intro exI [of _ "?e # Poll t # ev"]) auto
    next
      case False
      then have "snd res = tr \<or> snd res = tr @ [?e]" using 1(2) by (auto simp: Let_def split: if_splits)
      then show ?thesis by (intro exI [of _ "drop (length tr) (snd res)"]) auto
    qed
  qed
  then show ?thesis by simp
qed

lemma timedwait_attempts:
  assumes "topic s = Some h" "0 < n" "n < 2 ^ 31"
  shows "\<exists>code p' ev. kafkatools_produce_timedwait env p s t n tr = Some (code, p', tr @ ev) \<and>
    attempts ev \<le> nat n \<and> accepted ev \<le> 1 \<and> in_scope (partition s) (partition s) ev"
proof -
  obtain ret ev where e: "produce_loop env h (partition s) t n 0 tr = Some (ret, tr @ ev)"
    "produce_events ret ev" "attempts ev \<le> nat n"
    using produce_loop_bounded [OF assms(2,3), of env h "partition s" t 0 tr] by blast
  moreover have "in_scope (partition s) (partition s) ev"
    using produce_loop_partition [OF e(1)] by (auto simp: in_scope_def)
  ultimately show ?thesis
    using assms(1) by (auto simp: kafkatools_produce_timedwait_def Let_def produce_events_def)
qed

lemma in_scope_simps:
  "in_scope lo hi (ev @ ev') \<longleftrightarrow> in_scope lo hi ev \<and> in_scope lo hi ev'"
  "in_scope i i ev \<Longrightarrow> lo \<le> i \<Longrightarrow> i \<le> hi \<Longrightarrow> in_scope lo hi ev"
  by (auto simp: in_scope_def) force+

text \<open>
  C36: the loop of \<open>produce.c\<close> that sends \<open>n\<close> messages returns; every attempt goes to a partition
  of the scope, there are at most ten attempts for each message and no message is taken twice.
\<close>

theorem send_loop_in_scope:
  assumes "producer st = Some p" "topic (site st) = Some h" "0 \<le> i"
    "partitionid_min (site st) \<le> partitionid_max (site st)"
  shows "\<exists>st' ev. send_loop env st i n tr = Some (st', tr @ ev) \<and>
    in_scope (partitionid_min (site st)) (partitionid_max (site st)) ev \<and>
    attempts ev \<le> 10 * n \<and> accepted ev \<le> n"
  using assms
proof (induction n arbitrary: st p i tr)
  case 0
  then show ?case by (simp add: in_scope_def)
next
  case (Suc n)
  let ?lo = "partitionid_min (site st)" and ?hi = "partitionid_max (site st)"
  define s where "s = (site st)\<lparr>partition := GET_PARTITIONID i ?lo ?hi\<rparr>"
  have s: "topic s = Some h" "partition s = GET_PARTITIONID i ?lo ?hi" "partitionid_min s = ?lo" "partitionid_max s = ?hi"
    using Suc.prems(2) by (simp_all add: s_def)
  obtain code p' ev where w: "kafkatools_produce_timedwait env p s 1000 10 tr = Some (code, p', tr @ ev)"
    "attempts ev \<le> 10" "accepted ev \<le> 1" "in_scope (partition s) (partition s) ev"
    using timedwait_attempts [OF s(1), of 10 env p 1000 tr] by auto
  let ?st = "st\<lparr>producer := Some p', site := s\<rparr>"
  obtain st' ev' where r: "send_loop env ?st (i + 1) n (tr @ ev) = Some (st', (tr @ ev) @ ev')"
    "in_scope ?lo ?hi ev'" "attempts ev' \<le> 10 * n" "accepted ev' \<le> n"
    using Suc.IH [of ?st p' "i + 1" "tr @ ev"] s Suc.prems by auto
  have "in_scope ?lo ?hi (ev @ ev')"
    using w(4) r(2) s(2) partitionid_in_scope [OF Suc.prems(3,4)] in_scope_simps by metis
  moreover have "send_loop env st i (Suc n) tr = Some (st', tr @ (ev @ ev'))"
    using w(1) r(1) Suc.prems(1) by (simp add: s_def)
  ultimately show ?case
    using w(2,3) r(3,4) by (intro exI [of _ st'] exI [of _ "ev @ ev'"]) simp
qed

theorem send_loop_in_scope_witness:
  "\<exists>st' ev. send_loop ex_env
     \<lparr>producer = Some \<lparr>rkProducer = True, opaque = 0, rktopic_tree = ex_mem, errcode = 0, errstr = []\<rparr>,
      site = \<lparr>topic = Some ''test'', partition = 0, partitionid_min = 2, partitionid_max = 7\<rparr>, statearg = 0\<rparr>
     0 100 [] = Some (st', [] @ ev) \<and> in_scope 2 7 ev"
proof -
  let ?st = "\<lparr>producer = Some \<lparr>rkProducer = True, opaque = 0, rktopic_tree = ex_mem, errcode = 0, errstr = []\<rparr>,
      site = \<lparr>topic = Some ''test'', partition = 0, partitionid_min = 2, partitionid_max = 7\<rparr>, statearg = 0\<rparr>"
  have "producer ?st = Some \<lparr>rkProducer = True, opaque = 0, rktopic_tree = ex_mem, errcode = 0, errstr = []\<rparr>"
    "topic (site ?st) = Some ''test''" "(0 :: int) \<le> 0" "partitionid_min (site ?st) \<le> partitionid_max (site ?st)"
    by simp_all
  from send_loop_in_scope [OF this, of ex_env 100 "[]"] show ?thesis by (simp, blast)
qed

theorem state_init_success_witness:
  "\<exists>st' tr'. kafkatools_producer_state_init ex_env (\<lambda>_. True) (\<lambda>_. Some []) ''/opt'' ex_mem None (Some ''test:2-7'')
     True 0 16 \<lparr>producer = None, site = \<lparr>topic = None, partition = 0, partitionid_min = 0, partitionid_max = 0\<rparr>,
       statearg = 0\<rparr> [] = Some (KAFKATOOLS_SUCCESS, st', tr') \<and> partitionid_max (site st') \<le> KAFKATOOLS_PARTITIONID_MAX"
proof -
  let ?r = "kafkatools_producer_state_init ex_env (\<lambda>_. True) (\<lambda>_. Some []) ''/opt'' ex_mem None (Some ''test:2-7'')
     True 0 16 \<lparr>producer = None, site = \<lparr>topic = None, partition = 0, partitionid_min = 0, partitionid_max = 0\<rparr>,
       statearg = 0\<rparr> []"
  have "map_option fst ?r = Some KAFKATOOLS_SUCCESS" by code_simp
  then obtain st' tr' where r: "?r = Some (KAFKATOOLS_SUCCESS, st', tr')" by (cases ?r) auto
  from state_init_success [OF r] show ?thesis using r by blast
qed

text \<open>
  A properties file that exists but cannot be opened is not reported: the negative result of
  \<open>kafkatools_props_readconf\<close> is passed on as the number of properties, and the producer is
  created as if the file were empty.
\<close>

theorem state_init_unreadable_file:
  "kafkatools_producer_state_init env exists0 (\<lambda>_. None) bindir mem file tp cb argp statep st tr =
   kafkatools_producer_state_init env exists0 (\<lambda>_. Some []) bindir mem file tp cb argp statep st tr"
proof -
  have e: "kafkatools_props_readconf (Some []) sct alloc = Some (0, None)" for sct alloc
    by (simp add: kafkatools_props_readconf_def ConfOpenFile_def ConfGetFirstPair_def ConfGetNextPair.simps
        readln_def READCONF_MAX_LINESIZE_def)
  have n: "kafkatools_props_readconf None sct alloc = Some (KAFKATOOLS_EFILE, None)" for sct alloc
    by (simp add: kafkatools_props_readconf_def ConfOpenFile_def)
  have r: "kafkatools_props_retrieve None 0 k = Some (KAFKATOOLS_SUCCESS, [], [])" if "k \<le> 0" for k
    using that by (simp add: kafkatools_props_retrieve_def)
  have k: "KAFKATOOLS_EFILE \<le> 0" by (simp add: KAFKATOOLS_EFILE_def)
  show ?thesis unfolding kafkatools_producer_state_init_def by (simp add: e n r [OF k] r cong: if_cong)
qed

text \<open>
  The sample program initialises its state twice and destroys it once: a run that ends well
  leaves a client handle and a structure behind.
\<close>

theorem produce_main_leaks:
  "map_option (\<lambda>(r, tr). (r, owned tr Kafka, owned tr Memory))
     (produce_main ex_env (\<lambda>_. True) (\<lambda>_. Some []) ''/opt'' ex_mem 16 [''test:0-7'', ''/etc/p.conf'', ''2'']) =
   Some (Inr 0, 1, 1)"
  by code_simp

end
