(* ===== verification/KT_Consumer.thy ===== *)
theory KT_Consumer
  imports KT_Topics CStrFun
begin

section \<open>The consumer\<close>

text \<open>
  \<open>src/src/kafkatools_consumer.c\<close>, with the conventions of the producer: the environment, the
  structure and the trace are passed on, \<open>None\<close> is a call that does not return.  The handle, the
  topic and partition list and the configurations are booleans: whether there is one.  The
  error texts librdkafka writes are not followed.
\<close>

record 'h consumer =
  rkConsumer :: bool
  opaque :: ptr
  rktopic_tree :: "'h rbstate"
  errcode :: int
  errstr :: cstr
  tp_list :: bool

subsection \<open>Destroying\<close>

definition kafkatools_consumer_destroy :: "'h env \<Rightarrow> 'h consumer option \<Rightarrow> 'h trace \<Rightarrow> 'h trace option" where
  "kafkatools_consumer_destroy env consumer tr =
     (case consumer of
        None \<Rightarrow> Some tr
      | Some c \<Rightarrow> do {
          let tr = tr @ [MutexLock];
          let tr = (if tp_list c then tr @ [TplistDestroy] else tr);
          tr \<leftarrow> rbtree_traverse rktopic_object_release tr (rktopic_tree c);
          tree \<leftarrow> rbtree_clean (Some (rktopic_tree c));
          let tr = (if rkConsumer c then tr @ [KafkaDestroy] else tr);
          Some (tr @ [MutexDestroy, Free]) })"

subsection \<open>Topics and partitions\<close>

text \<open>
  One entry of \<open>topics\<close>: the call on the list, or the error code.  \<open>id\<close> is the text from the
  colon on, \<open>q\<close> that from the first dash behind it.
\<close>

definition topic_entry :: "cstr \<Rightarrow> int + 'h event" where
  "topic_entry tp =
     (case strchr tp (CHR '':'') of
        None \<Rightarrow> Inr (TplistAdd tp (- 1))
      | Some id0 \<Rightarrow>
          (let n = length tp - length id0 in
           if n > KAFKATOOLS_TOPIC_NAMELEN then Inl KAFKATOOLS_EARG
           else
             (let topic = take n tp in
              case strchr id0 (CHR ''-'') of
                None \<Rightarrow> Inr (TplistAdd topic (atoi id0))
              | Some q \<Rightarrow>
                  if length id0 - length q \<ge> 11 then Inl KAFKATOOLS_EARG
                  else
                    (let startid = atoi (take (length id0 - length q) id0);
                         stopid = atoi (tl q) in
                     if startid < stopid then Inr (TplistAddRange topic startid stopid)
                     else Inr (TplistAddRange topic stopid startid)))))"

text \<open>The loop over the topics, which ends at a null pointer or at the limit.\<close>

fun topics_loop :: "nat \<Rightarrow> cstr list \<Rightarrow> 'h trace \<Rightarrow> int option \<times> 'h trace" where
  "topics_loop 0 topics tr = (None, tr)"
| "topics_loop (Suc n) [] tr = (None, tr)"
| "topics_loop (Suc n) (tp # topics) tr =
     (case topic_entry tp of
        Inl e \<Rightarrow> (Some e, tr)
      | Inr ev \<Rightarrow> topics_loop n topics (tr @ [ev]))"

definition set_topics :: "cstr list option \<Rightarrow> 'h trace \<Rightarrow> int option \<times> 'h trace" where
  "set_topics topics tr =
     (case topics of None \<Rightarrow> (None, tr) | Some tps \<Rightarrow> topics_loop KAFKATOOLS_TOPICS_MAX tps tr)"

text \<open>The loop over the properties: those of a topic first, then the global ones.\<close>

definition set_property :: "'h env \<Rightarrow> cstr \<Rightarrow> cstr \<Rightarrow> 'h trace \<Rightarrow> int \<times> 'h trace" where
  "set_property env name val tr =
     (let (res, tr) =
        (if strncmp name ''topic.'' 6 = 0 then
           (let res = env_topic_conf_set env tr (drop 6 name) val in
            (res, tr @ [TopicConfSet (drop 6 name) val res]))
         else (RD_KAFKA_CONF_UNKNOWN, tr)) in
      if res = RD_KAFKA_CONF_UNKNOWN then
        (let res = env_conf_set env tr name val in (res, tr @ [ConfSet name val res]))
      else (res, tr))"

fun properties_loop :: "'h env \<Rightarrow> nat \<Rightarrow> (cstr \<times> cstr) list \<Rightarrow> 'h trace \<Rightarrow> bool \<times> 'h trace" where
  "properties_loop env 0 props tr = (True, tr)"
| "properties_loop env (Suc n) [] tr = (True, tr)"
| "properties_loop env (Suc n) ((name, val) # props) tr =
     (case set_property env name val tr of
        (res, tr) \<Rightarrow>
          if res \<noteq> RD_KAFKA_CONF_OK then (False, tr) else properties_loop env n props tr)"

definition set_properties :: "'h env \<Rightarrow> (cstr \<times> cstr) list option \<Rightarrow> 'h trace \<Rightarrow> bool \<times> 'h trace" where
  "set_properties env props tr =
     (case props of None \<Rightarrow> (True, tr) | Some ps \<Rightarrow> properties_loop env KAFKATOOLS_CONF_PROPS_MAX ps tr)"

definition set_group :: "'h env \<Rightarrow> cstr option \<Rightarrow> 'h trace \<Rightarrow> bool \<times> 'h trace" where
  "set_group env groupid tr =
     (case groupid of
        None \<Rightarrow> (True, tr)
      | Some g \<Rightarrow>
          (let res = env_conf_set env tr ''group.id'' g in
           (res = RD_KAFKA_CONF_OK, tr @ [ConfSet ''group.id'' g res])))"

definition add_brokers :: "'h env \<Rightarrow> cstr option \<Rightarrow> 'h trace \<Rightarrow> bool \<times> 'h trace" where
  "add_brokers env brokers tr =
     (case brokers of
        None \<Rightarrow> (True, tr)
      | Some b \<Rightarrow> (let k = env_brokers_add env tr b in (k \<noteq> 0, tr @ [BrokersAdd b k])))"

subsection \<open>Creating\<close>

text \<open>
  What the error path looks at: the structure, the local list, configurations and handle, all of
  them cleared when they are handed over.
\<close>

record locals =
  l_tp_list :: bool
  l_topic_conf :: bool
  l_conf :: bool
  l_rkConsumer :: bool

definition on_error_result ::
    "'h env \<Rightarrow> int \<Rightarrow> 'h consumer \<Rightarrow> locals \<Rightarrow> 'h trace \<Rightarrow> (int \<times> 'h consumer option \<times> 'h trace) option" where
  "on_error_result env result c l tr = do {
     tr \<leftarrow> kafkatools_consumer_destroy env (Some c) tr;
     Some (result, None,
       tr @ (if l_tp_list l then [TplistDestroy] else []) @ (if l_topic_conf l then [TopicConfDestroy] else []) @
         (if l_conf l then [ConfDestroy] else []) @ (if l_rkConsumer l then [KafkaDestroy] else [])) }"

text \<open>The second half, from the client handle on.\<close>

definition create_client ::
    "'h env \<Rightarrow> cstr option \<Rightarrow> ptr \<Rightarrow> 'h consumer \<Rightarrow> locals \<Rightarrow> 'h trace \<Rightarrow> (int \<times> 'h consumer option \<times> 'h trace) option" where
  "create_client env brokers opaque0 c l tr =
     (let l = l\<lparr>l_topic_conf := False\<rparr>;
          tr = tr @ [ConfSetDefaultTopicConf];
          rk = env_kafka_new env tr;
          tr = tr @ [KafkaNew rk] in
      if \<not> rk then on_error_result env KAFKATOOLS_ENOMEM c l tr
      else
        (let l = l\<lparr>l_rkConsumer := True, l_conf := False\<rparr>;
             (added, tr) = add_brokers env brokers tr in
         if \<not> added then on_error_result env KAFKATOOLS_ERROR c l tr
         else
           (let res = env_poll_set_consumer env tr;
                tr = tr @ [PollSetConsumer res] in
            if res \<noteq> RD_KAFKA_CONF_OK then on_error_result env KAFKATOOLS_ERROR c l tr
            else
              (let c = c\<lparr>rkConsumer := True, tp_list := True\<rparr>;
                   l = l\<lparr>l_rkConsumer := False, l_tp_list := False\<rparr>;
                   mi = env_mutex_init env tr;
                   tr = tr @ [MutexInit mi] in
               if mi \<noteq> 0 then on_error_result env KAFKATOOLS_EFATAL c l tr
               else Some (KAFKATOOLS_SUCCESS, Some (c\<lparr>opaque := opaque0\<rparr>), tr)))))"

text \<open>The configurations: the defaults, the properties and the group.\<close>

definition create_conf ::
    "'h env \<Rightarrow> cstr option \<Rightarrow> cstr option \<Rightarrow> (cstr \<times> cstr) list option \<Rightarrow> ptr \<Rightarrow> 'h consumer \<Rightarrow> locals \<Rightarrow> 'h trace \<Rightarrow>
      (int \<times> 'h consumer option \<times> 'h trace) option" where
  "create_conf env groupid brokers props opaque0 c l tr =
     (let conf = env_conf_new env tr;
          tr = tr @ [ConfNew conf] in
      if \<not> conf then on_error_result env KAFKATOOLS_ENOMEM c l tr
      else
        (let l = l\<lparr>l_conf := True\<rparr>;
             tc = env_topic_conf_new env tr;
             tr = tr @ [TopicConfNew tc] in
         if \<not> tc then on_error_result env KAFKATOOLS_ENOMEM c l tr
         else
           (let l = l\<lparr>l_topic_conf := True\<rparr>;
                tr = tr @ [TopicConfSetOpaque];
                tr = tr @ [ConfSet ''enable.partition.eof'' ''true'' (env_conf_set env tr ''enable.partition.eof'' ''true'')];
                (ok, tr) = set_properties env props tr in
            if \<not> ok then on_error_result env KAFKATOOLS_ECONF c l tr
            else
              (let (ok, tr) = set_group env groupid tr in
               if \<not> ok then on_error_result env KAFKATOOLS_ECONF c l tr
               else create_client env brokers opaque0 c l tr))))"

definition kafkatools_consumer_create ::
    "'h env \<Rightarrow> cstr option \<Rightarrow> cstr option \<Rightarrow> (cstr \<times> cstr) list option \<Rightarrow> cstr list option \<Rightarrow> ptr \<Rightarrow> 'h rbstate \<Rightarrow>
      'h trace \<Rightarrow> (int \<times> 'h consumer option \<times> 'h trace) option" where
  "kafkatools_consumer_create env groupid brokers props topics opaque0 mem tr =
     (if \<not> env_alloc env tr then None
      else
        (let tr = tr @ [Alloc True];
             c = \<lparr>rkConsumer = False, opaque = NULL, rktopic_tree = rbtree_init (rktopic_name_cmp env) mem,
                  errcode = 0, errstr = [], tp_list = False\<rparr>;
             l = \<lparr>l_tp_list = False, l_topic_conf = False, l_conf = False, l_rkConsumer = False\<rparr>;
             tpl = env_tplist_new env tr;
             tr = tr @ [TplistNew tpl] in
         if \<not> tpl then on_error_result env KAFKATOOLS_ENOMEM c l tr
         else
           (let l = l\<lparr>l_tp_list := True\<rparr>;
                (err, tr) = set_topics topics tr in
            case err of
              Some e \<Rightarrow> on_error_result env e c l tr
            | None \<Rightarrow> create_conf env groupid brokers props opaque0 c l tr)))"

subsection \<open>Using a consumer\<close>

definition kafkatools_consumer_get_errstr :: "'h consumer \<Rightarrow> cstr \<times> int" where
  "kafkatools_consumer_get_errstr c = (errstr c, errcode c)"

definition kafkatools_consumer_get_topics :: "'h consumer \<Rightarrow> bool" where
  "kafkatools_consumer_get_topics c = tp_list c"

definition kafkatools_consumer_get_rdkafka :: "'h consumer \<Rightarrow> bool" where
  "kafkatools_consumer_get_rdkafka c = rkConsumer c"

definition kafkatools_consumer_get_opaque :: "'h consumer \<Rightarrow> ptr" where
  "kafkatools_consumer_get_opaque c = opaque c"

fun topic_conf_loop :: "'h env \<Rightarrow> nat \<Rightarrow> (cstr \<times> cstr) list \<Rightarrow> 'h trace \<Rightarrow> bool \<times> 'h trace" where
  "topic_conf_loop env 0 props tr = (True, tr)"
| "topic_conf_loop env (Suc n) [] tr = (True, tr)"
| "topic_conf_loop env (Suc n) ((name, val) # props) tr =
     (let res = env_topic_conf_set env tr name val; tr = tr @ [TopicConfSet name val res] in
      if res \<noteq> RD_KAFKA_CONF_OK then (False, tr) else topic_conf_loop env n props tr)"

text \<open>Whether there is a configuration in the end, the consumer and the trace.\<close>

definition kafkatools_consumer_new_topic_conf ::
    "'h env \<Rightarrow> 'h consumer \<Rightarrow> (cstr \<times> cstr) list option \<Rightarrow> 'h trace \<Rightarrow> bool \<times> 'h consumer \<times> 'h trace" where
  "kafkatools_consumer_new_topic_conf env c props tr =
     (let tc = env_topic_conf_new env tr; tr = tr @ [TopicConfNew tc] in
      if \<not> tc then
        (False, c\<lparr>errcode := KAFKATOOLS_ENOMEM,
           errstr := snprintf_into KAFKATOOLS_ERRSTR_SIZE
             (''rd_kafka_topic_conf_new error('' @ dec KAFKATOOLS_ENOMEM @ ''): Out memory'')\<rparr>, tr)
      else
        (case (case props of
             None \<Rightarrow> (True, tr)
           | Some ps \<Rightarrow> topic_conf_loop env KAFKATOOLS_CONF_PROPS_MAX ps tr) of
           (ok, tr) \<Rightarrow>
             if \<not> ok then (False, c\<lparr>errcode := KAFKATOOLS_ECONF\<rparr>, tr @ [TopicConfDestroy])
             else (True, c\<lparr>errcode := KAFKATOOLS_SUCCESS, errstr := []\<rparr>, tr)))"

definition kafkatools_consumer_get_topic ::
    "'h env \<Rightarrow> 'h consumer \<Rightarrow> cstr \<Rightarrow> bool \<Rightarrow> 'h trace \<Rightarrow> ('h option \<times> 'h consumer \<times> 'h trace) option" where
  "kafkatools_consumer_get_topic env c topic_name topic_conf tr =
     (if \<not> rkConsumer c then None
      else let tr = (if topic_conf then tr @ [TopicConfGiven] else tr) in
      case env_topic_new env tr topic_name of
        None \<Rightarrow>
          Some (None,
            c\<lparr>errcode := KAFKATOOLS_ENOMEM,
              errstr := snprintf_into KAFKATOOLS_ERRSTR_SIZE
                (''rd_kafka_topic_new error('' @ dec KAFKATOOLS_ENOMEM @ ''): Out memory'')\<rparr>,
            tr @ [TopicNew topic_name None])
      | Some rktopic \<Rightarrow> do {
          let tr = tr @ [TopicNew topic_name (Some rktopic)];
          node \<leftarrow> rbtree_find rktopic (rktopic_tree c);
          if node = NULL then do {
            (node, is_new_node, tree) \<leftarrow> rbtree_insert_unique rktopic (rktopic_tree c);
            if node = NULL \<or> \<not> is_new_node then
              Some (None,
                c\<lparr>rktopic_tree := tree, errcode := KAFKATOOLS_ERROR,
                  errstr := snprintf_into KAFKATOOLS_ERRSTR_SIZE
                    (''rbtree_insert_unique error('' @ dec KAFKATOOLS_ERROR @ ''): Unexpect'')\<rparr>,
                tr @ [TopicDestroy rktopic])
            else Some (Some rktopic, c\<lparr>rktopic_tree := tree\<rparr>, tr) }
          else Some (Some rktopic, c, tr @ [TopicDestroy rktopic]) })"

text \<open>
  \<open>rd_kafka_err2str\<close> never gives a null pointer.  No call is made on librdkafka: the function
  looks at the code of the last error only.
\<close>

definition kafkatools_consumer_start_subscribe :: "'h env \<Rightarrow> 'h consumer \<Rightarrow> int \<times> 'h consumer" where
  "kafkatools_consumer_start_subscribe env c =
     (if errcode c = 0 then (KAFKATOOLS_SUCCESS, c)
      else (KAFKATOOLS_ERROR, c\<lparr>errstr := snprintf_into KAFKATOOLS_ERRSTR_SIZE (env_err2str env (errcode c))\<rparr>))"

text \<open>The callback answers whether to go on, and changes a state of its own.\<close>

fun kafkatools_list_topic_partitions :: "('e \<Rightarrow> 's \<Rightarrow> bool \<times> 's) \<Rightarrow> 'e list \<Rightarrow> 's \<Rightarrow> 's" where
  "kafkatools_list_topic_partitions tpcb [] s = s"
| "kafkatools_list_topic_partitions tpcb (tp # tps) s =
     (case tpcb tp s of (go, s) \<Rightarrow> if \<not> go then s else kafkatools_list_topic_partitions tpcb tps s)"

subsection \<open>Creating owns what it hands out\<close>

text \<open>What is held while the consumer is built: by the structure and by the locals.\<close>

definition holding :: "'h consumer \<Rightarrow> locals \<Rightarrow> resource \<Rightarrow> int" where
  "holding c l r =
     (case r of
        Memory \<Rightarrow> 1
      | Tplist \<Rightarrow> of_bool (l_tp_list l) + of_bool (tp_list c)
      | TopicConf \<Rightarrow> of_bool (l_topic_conf l)
      | Conf \<Rightarrow> of_bool (l_conf l)
      | Kafka \<Rightarrow> of_bool (l_rkConsumer l) + of_bool (rkConsumer c))"

text \<open>
  A call that starts with some resources held returns, ends with what it hands out and with
  nothing else, and hands out a consumer with an empty tree exactly on success.
\<close>

definition settles :: "'h env \<Rightarrow> 'h trace \<Rightarrow> (resource \<Rightarrow> int) \<Rightarrow> (int \<times> 'h consumer option \<times> 'h trace) option \<Rightarrow> bool" where
  "settles env tr held res \<longleftrightarrow>
     (\<exists>code out ev. res = Some (code, out, tr @ ev) \<and> (code = KAFKATOOLS_SUCCESS \<longleftrightarrow> out \<noteq> None) \<and>
        (\<forall>h. refs ev h = 0) \<and>
        (\<forall>r. held r + owned ev r = (if out \<noteq> None \<and> r \<in> {Memory, Kafka, Tplist} then 1 else 0)) \<and>
        (\<forall>c. out = Some c \<longrightarrow> rkConsumer c \<and> tp_list c \<and> topic_rep env (rktopic_tree c) {}))"

lemma settles_step:
  assumes "settles env (tr @ ev) held' res" "\<forall>h. refs ev h = 0" "\<forall>r. held' r = held r + owned ev r"
  shows "settles env tr held res"
proof -
  obtain code out ev' where "res = Some (code, out, (tr @ ev) @ ev')" "code = KAFKATOOLS_SUCCESS \<longleftrightarrow> out \<noteq> None"
    "\<forall>h. refs ev' h = 0"
    "\<forall>r. held' r + owned ev' r = (if out \<noteq> None \<and> r \<in> {Memory, Kafka, Tplist} then 1 else 0)"
    "\<forall>c. out = Some c \<longrightarrow> rkConsumer c \<and> tp_list c \<and> topic_rep env (rktopic_tree c) {}"
    using assms(1) unfolding settles_def by blast
  then show ?thesis
    unfolding settles_def using assms(2,3)
    by (intro exI [of _ code] exI [of _ out] exI [of _ "ev @ ev'"]) (simp add: add.assoc)
qed

lemma settles_success:
  assumes "settles env tr held (Some (code, Some c, tr'))"
  shows "\<exists>ev. tr' = tr @ ev \<and> (\<forall>h. refs ev h = 0) \<and>
    (\<forall>r. held r + owned ev r = (if r \<in> {Memory, Kafka, Tplist} then 1 else 0)) \<and>
    rkConsumer c \<and> tp_list c \<and> topic_rep env (rktopic_tree c) {}"
proof -
  obtain code' out ev where e: "Some (code, Some c, tr') = Some (code', out, tr @ ev)" "\<forall>h. refs ev h = 0"
    "\<forall>r. held r + owned ev r = (if out \<noteq> None \<and> r \<in> {Memory, Kafka, Tplist} then 1 else 0)"
    "\<forall>c. out = Some c \<longrightarrow> rkConsumer c \<and> tp_list c \<and> topic_rep env (rktopic_tree c) {}"
    using assms unfolding settles_def by blast
  then have "out = Some c" "tr' = tr @ ev" by simp_all
  then show ?thesis using e(2-4) by (intro exI [of _ ev]) simp
qed

lemma destroy_empty:
  assumes "topic_rep env (rktopic_tree c) {}"
  shows "kafkatools_consumer_destroy env (Some c) tr =
    Some (tr @ MutexLock # (if tp_list c then [TplistDestroy] else []) @
      (if rkConsumer c then [KafkaDestroy] else []) @ [MutexDestroy, Free])"
  using topic_tree.release_and_clean [OF assms, of rktopic_object_release "tr @ [MutexLock]"]
    topic_tree.release_and_clean [OF assms, of rktopic_object_release "tr @ [MutexLock, TplistDestroy]"]
  by (auto simp: kafkatools_consumer_destroy_def)

lemma on_error_settles:
  assumes "topic_rep env (rktopic_tree c) {}" "code \<noteq> KAFKATOOLS_SUCCESS"
  shows "settles env tr (holding c l) (on_error_result env code c l tr)"
proof -
  define ev :: "'a trace" where "ev = MutexLock # (if tp_list c then [TplistDestroy] else []) @
      (if rkConsumer c then [KafkaDestroy] else []) @ [MutexDestroy, Free] @
      (if l_tp_list l then [TplistDestroy] else []) @ (if l_topic_conf l then [TopicConfDestroy] else []) @
      (if l_conf l then [ConfDestroy] else []) @ (if l_rkConsumer l then [KafkaDestroy] else [])"
  have "on_error_result env code c l tr = Some (code, None, tr @ ev)"
    by (simp add: on_error_result_def destroy_empty [OF assms(1)] ev_def)
  moreover have "refs ev h = 0" "holding c l r + owned ev r = 0" for h r
    by (cases r; simp add: holding_def ev_def)+
  ultimately show ?thesis
    unfolding settles_def using assms(2) by (intro exI [of _ code] exI [of _ None] exI [of _ ev]) simp
qed

text \<open>The events of the loops hold nothing.\<close>

definition neutral :: "'h trace \<Rightarrow> bool" where
  "neutral ev \<longleftrightarrow> (\<forall>h. refs ev h = 0) \<and> (\<forall>r. owned ev r = 0)"

lemma topic_entry_neutral: "topic_entry tp = Inr ev \<Longrightarrow> neutral [ev]"
  by (auto simp: topic_entry_def neutral_def Let_def split: option.splits if_splits)

lemma topic_entry_error: "topic_entry tp = Inl e \<Longrightarrow> e = KAFKATOOLS_EARG"
  by (auto simp: topic_entry_def Let_def split: option.splits if_splits)

lemma neutral_append: "neutral ev \<Longrightarrow> neutral ev' \<Longrightarrow> neutral (ev @ ev')"
  by (simp add: neutral_def)

lemma topics_loop_neutral:
  "topics_loop n tps tr = (err, tr') \<Longrightarrow>
   (\<exists>ev. tr' = tr @ ev \<and> neutral ev) \<and> (err = None \<or> err = Some KAFKATOOLS_EARG)"
proof (induction n tps tr rule: topics_loop.induct)
  case (3 n tp topics tr)
  show ?case
  proof (cases "topic_entry tp :: int + 'a event")
    case (Inl e)
    then show ?thesis using 3(2) topic_entry_error [OF Inl] by (auto simp: neutral_def intro: exI [of _ "[]"])
  next
    case (Inr e)
    then have "topics_loop n topics (tr @ [e]) = (err, tr')" using 3(2) by simp
    from 3(1) [OF Inr this] obtain ev where "tr' = (tr @ [e]) @ ev" "neutral ev" "err = None \<or> err = Some KAFKATOOLS_EARG"
      by blast
    then show ?thesis
      using neutral_append [OF topic_entry_neutral [OF Inr], of ev] by (intro conjI exI [of _ "e # ev"]) simp_all
  qed
qed (auto simp: neutral_def intro: exI [of _ "[]"])

lemma set_property_neutral: "set_property env name val tr = (res, tr') \<Longrightarrow> \<exists>ev. tr' = tr @ ev \<and> neutral ev"
  by (auto simp: set_property_def neutral_def Let_def split: if_splits)

lemma properties_loop_neutral: "properties_loop env n ps tr = (ok, tr') \<Longrightarrow> \<exists>ev. tr' = tr @ ev \<and> neutral ev"
proof (induction env n ps tr rule: properties_loop.induct)
  case (3 env n name val props tr)
  obtain res tr1 where s: "set_property env name val tr = (res, tr1)" by fastforce
  then obtain e where e: "tr1 = tr @ e" "neutral e" using set_property_neutral by blast
  show ?case
  proof (cases "res = RD_KAFKA_CONF_OK")
    case True
    then have "properties_loop env n props tr1 = (ok, tr')" using 3(2) s by simp
    from 3(1) [OF s [symmetric] _ this] True obtain ev where "tr' = tr1 @ ev" "neutral ev" by auto
    then show ?thesis using e neutral_append [of e ev] by (intro exI [of _ "e @ ev"]) simp
  next
    case False
    then show ?thesis using 3(2) s e by auto
  qed
qed (auto simp: neutral_def intro: exI [of _ "[]"])

lemma stages_neutral:
  "set_topics topics tr = (err, tr') \<Longrightarrow>
     (\<exists>ev. tr' = tr @ ev \<and> neutral ev) \<and> (err = None \<or> err = Some KAFKATOOLS_EARG)"
  "set_properties env props tr = (ok, tr') \<Longrightarrow> \<exists>ev. tr' = tr @ ev \<and> neutral ev"
  "set_group env groupid tr = (ok, tr') \<Longrightarrow> \<exists>ev. tr' = tr @ ev \<and> neutral ev"
  "add_brokers env brokers tr = (ok, tr') \<Longrightarrow> \<exists>ev. tr' = tr @ ev \<and> neutral ev"
  by (auto simp: set_topics_def set_properties_def set_group_def add_brokers_def neutral_def Let_def
      split: option.splits dest: topics_loop_neutral properties_loop_neutral intro: exI [of _ "[]"])

text \<open>The step rule, with what the events acquire as a side condition on what is held.\<close>

lemma settles_on_error:
  assumes "topic_rep env (rktopic_tree c) {}" "code \<noteq> KAFKATOOLS_SUCCESS"
    "\<forall>h. refs ev h = 0" "\<forall>r. holding c l r = held r + owned ev r"
  shows "settles env tr held (on_error_result env code c l (tr @ ev))"
  by (rule settles_step [OF on_error_settles [OF assms(1,2)] assms(3,4)])

lemma create_client_settles:
  assumes "topic_rep env (rktopic_tree c) {}" "\<not> rkConsumer c" "\<not> tp_list c"
    "l_tp_list l" "l_topic_conf l" "l_conf l" "\<not> l_rkConsumer l"
  shows "settles env tr (holding c l) (create_client env brokers opq c l tr)"
proof -
  let ?d = "ConfSetDefaultTopicConf"
  obtain ok t2 where "add_brokers env brokers (tr @ [?d, KafkaNew True]) = (ok, t2)" by fastforce
  moreover from stages_neutral(4) [OF this] obtain b where b: "t2 = tr @ ?d # KafkaNew True # b"
    "\<forall>h. refs b h = 0" "\<forall>r. owned b r = 0" by (auto simp: neutral_def)
  ultimately have add: "add_brokers env brokers (tr @ [?d, KafkaNew True]) = (ok, tr @ ?d # KafkaNew True # b)"
    by simp
  let ?c = "c\<lparr>rkConsumer := True, tp_list := True\<rparr>"
  let ?new = "\<lambda>i j. ?d # KafkaNew True # b @ [PollSetConsumer i, MutexInit j]"
  have e1: "settles env tr (holding c l) (on_error_result env code c (l\<lparr>l_topic_conf := False\<rparr>) (tr @ [?d, KafkaNew False]))"
    if "code \<noteq> KAFKATOOLS_SUCCESS" for code
    using that assms by (intro settles_on_error) (auto simp: holding_def split: resource.split)
  have e2: "settles env tr (holding c l) (on_error_result env code c
      (l\<lparr>l_topic_conf := False, l_rkConsumer := True, l_conf := False\<rparr>) (tr @ ?d # KafkaNew True # b @ x))"
    if "code \<noteq> KAFKATOOLS_SUCCESS" "x = [] \<or> x = [PollSetConsumer i]" for code x i
    using that assms b by (intro settles_on_error) (auto simp: holding_def split: resource.split)
  have e3: "settles env tr (holding c l) (on_error_result env code ?c
      (l\<lparr>l_topic_conf := False, l_conf := False, l_rkConsumer := False, l_tp_list := False\<rparr>) (tr @ ?new i j))"
    if "code \<noteq> KAFKATOOLS_SUCCESS" for code i j
    using that assms b by (intro settles_on_error) (auto simp: holding_def split: resource.split)
  have s: "settles env tr (holding c l) (Some (KAFKATOOLS_SUCCESS, Some (?c\<lparr>opaque := opq\<rparr>), tr @ ?new i j))" for i j
    unfolding settles_def using assms b
    by (intro exI [of _ KAFKATOOLS_SUCCESS] exI [of _ "Some (?c\<lparr>opaque := opq\<rparr>)"] exI [of _ "?new i j"])
      (auto simp: holding_def split: resource.split)
  show ?thesis
    using e1 e2 [of _ "[]"] e2 [of _ "[PollSetConsumer i]" i for i] e3 s
    by (simp add: create_client_def Let_def add kt_codes)
qed

lemma create_conf_settles:
  assumes "topic_rep env (rktopic_tree c) {}" "\<not> rkConsumer c" "\<not> tp_list c"
    "l_tp_list l" "\<not> l_topic_conf l" "\<not> l_conf l" "\<not> l_rkConsumer l"
  shows "settles env tr (holding c l) (create_conf env groupid brokers props opq c l tr)"
proof -
  let ?l = "l\<lparr>l_conf := True, l_topic_conf := True\<rparr>"
  let ?a = "[ConfNew True, TopicConfNew True, TopicConfSetOpaque, ConfSet ''enable.partition.eof'' ''true''
    (env_conf_set env (tr @ [ConfNew True, TopicConfNew True, TopicConfSetOpaque]) ''enable.partition.eof'' ''true'')]"
  obtain ok1 t1 where "set_properties env props (tr @ ?a) = (ok1, t1)" by fastforce
  moreover from stages_neutral(2) [OF this] obtain b where b: "t1 = tr @ ?a @ b"
    "\<forall>h. refs b h = 0" "\<forall>r. owned b r = 0" by (auto simp: neutral_def)
  ultimately have ps: "set_properties env props (tr @ ?a) = (ok1, tr @ ?a @ b)" by simp
  obtain ok2 t2 where "set_group env groupid (tr @ ?a @ b) = (ok2, t2)" by fastforce
  moreover from stages_neutral(3) [OF this] obtain g where g: "t2 = tr @ ?a @ b @ g"
    "\<forall>h. refs g h = 0" "\<forall>r. owned g r = 0" by (auto simp: neutral_def)
  ultimately have gr: "set_group env groupid (tr @ ?a @ b) = (ok2, tr @ ?a @ b @ g)" by simp
  have e1: "settles env tr (holding c l) (on_error_result env KAFKATOOLS_ENOMEM c l (tr @ [ConfNew False]))"
    using assms by (intro settles_on_error) (auto simp: holding_def kt_codes split: resource.split)
  have e2: "settles env tr (holding c l)
      (on_error_result env KAFKATOOLS_ENOMEM c (l\<lparr>l_conf := True\<rparr>) (tr @ [ConfNew True, TopicConfNew False]))"
    using assms by (intro settles_on_error) (auto simp: holding_def kt_codes split: resource.split)
  have e3: "settles env tr (holding c l) (on_error_result env KAFKATOOLS_ECONF c ?l (tr @ ?a @ b @ x))"
    if "x = [] \<or> x = g" for x
    using that assms b g by (intro settles_on_error) (auto simp: holding_def kt_codes split: resource.split)
  have s: "settles env tr (holding c l) (create_client env brokers opq c ?l (tr @ ?a @ b @ g))"
    by (rule settles_step [OF create_client_settles]) (use assms b g in \<open>auto simp: holding_def split: resource.split\<close>)
  show ?thesis
    using e1 e2 e3 [of "[]"] e3 [of g] s ps gr by (simp add: create_conf_def Let_def)
qed

lemma consumer_create_settles:
  assumes "env_alloc env tr" "cells mem = Map.empty" "heap_ok mem"
  shows "settles env tr (\<lambda>_. 0) (kafkatools_consumer_create env groupid brokers props topics opq mem tr)"
proof -
  define c where "c = \<lparr>rkConsumer = False, opaque = NULL, rktopic_tree = rbtree_init (rktopic_name_cmp env) mem,
    errcode = 0, errstr = [], tp_list = False\<rparr>"
  define l where "l = \<lparr>l_tp_list = False, l_topic_conf = False, l_conf = False, l_rkConsumer = False\<rparr>"
  let ?l = "l\<lparr>l_tp_list := True\<rparr>"
  have rep: "topic_rep env (rktopic_tree c) {}" by (simp add: c_def topic_rep_init assms(2,3))
  obtain err t where "set_topics topics (tr @ [Alloc True, TplistNew True]) = (err, t)" by fastforce
  moreover from stages_neutral(1) [OF this] obtain b where b: "t = tr @ Alloc True # TplistNew True # b"
    "\<forall>h. refs b h = 0" "\<forall>r. owned b r = 0" "err = None \<or> err = Some KAFKATOOLS_EARG" by (auto simp: neutral_def)
  ultimately have st: "set_topics topics (tr @ [Alloc True, TplistNew True]) = (err, tr @ Alloc True # TplistNew True # b)"
    by simp
  have e1: "settles env tr (\<lambda>_. 0) (on_error_result env KAFKATOOLS_ENOMEM c l (tr @ [Alloc True, TplistNew False]))"
    by (rule settles_on_error [OF rep]) (auto simp: holding_def kt_codes c_def l_def split: resource.split)
  have e2: "settles env tr (\<lambda>_. 0) (on_error_result env KAFKATOOLS_EARG c ?l (tr @ Alloc True # TplistNew True # b))"
    by (rule settles_on_error [OF rep]) (use b in \<open>auto simp: holding_def kt_codes c_def l_def split: resource.split\<close>)
  have s: "settles env tr (\<lambda>_. 0) (create_conf env groupid brokers props opq c ?l (tr @ Alloc True # TplistNew True # b))"
    by (rule settles_step [OF create_conf_settles [OF rep]])
      (use b in \<open>auto simp: holding_def c_def l_def split: resource.split\<close>)
  show ?thesis
    using e1 e2 s st b(4) assms(1)
    by (auto simp: kafkatools_consumer_create_def Let_def c_def l_def split: option.split)
qed

text \<open>
  C25: \<open>kafkatools_consumer_create\<close> returns on every path, whatever fails: on success the program
  owns the structure, one client handle and one list of partitions, on failure nothing, with
  every configuration and list given away or destroyed exactly once.
\<close>

theorem consumer_create_balanced:
  assumes "env_alloc env tr" "cells mem = Map.empty" "heap_ok mem"
  shows "\<exists>code out ev. kafkatools_consumer_create env groupid brokers props topics opq mem tr =
      Some (code, out, tr @ ev) \<and>
    (code = KAFKATOOLS_SUCCESS \<longleftrightarrow> out \<noteq> None) \<and>
    (\<forall>r. owned ev r = (if out \<noteq> None \<and> r \<in> {Memory, Kafka, Tplist} then 1 else 0))"
  using consumer_create_settles [OF assms, of groupid brokers props topics opq]
  unfolding settles_def add_0_left by blast

subsection \<open>The life of a consumer\<close>

text \<open>
  A consumer in use, with the number of topic configurations the program has made and not yet passed
  on.  Only a configuration it has can be passed on.
\<close>

inductive consuming :: "'h env \<Rightarrow> 'h consumer \<Rightarrow> nat \<Rightarrow> 'h trace \<Rightarrow> bool" for env where
  created: "cells mem = Map.empty \<Longrightarrow> heap_ok mem \<Longrightarrow>
     kafkatools_consumer_create env groupid brokers props topics opq mem [] = Some (code, Some c, tr) \<Longrightarrow>
     consuming env c 0 tr"
| configured: "consuming env c k tr \<Longrightarrow>
     kafkatools_consumer_new_topic_conf env c props tr = (topic_conf, c', tr') \<Longrightarrow>
     consuming env c' (k + of_bool topic_conf) tr'"
| looked_up: "consuming env c (k + of_bool topic_conf) tr \<Longrightarrow>
     kafkatools_consumer_get_topic env c n topic_conf tr = Some (r, c', tr') \<Longrightarrow> consuming env c' k tr'"
| subscribed: "consuming env c k tr \<Longrightarrow> kafkatools_consumer_start_subscribe env c = (code, c') \<Longrightarrow> consuming env c' k tr"

definition consumer_ok :: "'h env \<Rightarrow> 'h consumer \<Rightarrow> nat \<Rightarrow> (cstr \<rightharpoonup> 'h) \<Rightarrow> 'h trace \<Rightarrow> bool" where
  "consumer_ok env c k m tr \<longleftrightarrow> rkConsumer c \<and> tp_list c \<and> caches env (rktopic_tree c) m tr \<and>
     (\<forall>r. owned tr r = (if r = TopicConf then int k else if r = Conf then 0 else 1))"

lemma topic_conf_loop_neutral: "topic_conf_loop env n ps tr = (ok, tr') \<Longrightarrow> \<exists>ev. tr' = tr @ ev \<and> neutral ev"
proof (induction env n ps tr rule: topic_conf_loop.induct)
  case (3 env n name val props tr)
  define e :: "'a event" where "e = TopicConfSet name val (env_topic_conf_set env tr name val)"
  have e: "neutral [e]" by (simp add: e_def neutral_def)
  show ?case
  proof (cases "env_topic_conf_set env tr name val = RD_KAFKA_CONF_OK")
    case True
    then have "topic_conf_loop env n props (tr @ [e]) = (ok, tr')" using 3(2) by (simp add: e_def)
    then obtain ev where "tr' = (tr @ [e]) @ ev" "neutral ev" using 3(1) True by (auto simp: e_def)
    then show ?thesis using neutral_append [OF e, of ev] by (intro exI [of _ "e # ev"]) simp
  next
    case False
    then show ?thesis using 3(2) e by (auto simp: e_def)
  qed
qed (auto simp: neutral_def intro: exI [of _ "[]"])

lemma new_topic_conf_ok:
  assumes "consumer_ok env c k m tr" "kafkatools_consumer_new_topic_conf env c props tr = (topic_conf, c', tr')"
  shows "consumer_ok env c' (k + of_bool topic_conf) m tr'"
proof (cases "env_topic_conf_new env tr")
  case True
  define start where "start = (case props of None \<Rightarrow> (True, tr @ [TopicConfNew True])
    | Some ps \<Rightarrow> topic_conf_loop env KAFKATOOLS_CONF_PROPS_MAX ps (tr @ [TopicConfNew True]))"
  obtain ok t where st: "start = (ok, t)" by fastforce
  then have "\<exists>ev. t = (tr @ [TopicConfNew True]) @ ev \<and> neutral ev"
    using topic_conf_loop_neutral [of env _ _ "tr @ [TopicConfNew True]" ok t]
    by (cases props) (auto simp: start_def neutral_def)
  then obtain ev where "t = (tr @ [TopicConfNew True]) @ ev" "neutral ev" by blast
  then show ?thesis
    using assms True st unfolding start_def
    by (auto simp: kafkatools_consumer_new_topic_conf_def consumer_ok_def neutral_def caches_neutral split: if_splits)
next
  case False
  then show ?thesis
    using assms by (auto simp: kafkatools_consumer_new_topic_conf_def consumer_ok_def caches_neutral)
qed

lemma consumer_get_topic_ok:
  assumes "topic_new_documented env" "consumer_ok env c (k + of_bool topic_conf) m tr0"
    "kafkatools_consumer_get_topic env c n topic_conf tr0 = Some (r, c', tr')"
  shows "\<exists>m'. consumer_ok env c' k m' tr'"
proof -
  define tr where "tr = (if topic_conf then tr0 @ [TopicConfGiven] else tr0)"
  have c: "rkConsumer c" "tp_list c" "caches env (rktopic_tree c) m tr"
    "\<forall>r. owned tr r = (if r = TopicConf then int k else if r = Conf then 0 else 1)"
    using assms(2) by (auto simp: consumer_ok_def tr_def caches_neutral)
  note get = assms(3) [unfolded kafkatools_consumer_get_topic_def Let_def tr_def [symmetric]]
  show ?thesis
  proof (cases "env_topic_new env tr n")
    case None
    then show ?thesis
      using get c by (auto simp: consumer_ok_def caches_neutral)
  next
    case (Some h)
    show ?thesis
    proof (cases "m n = None")
      case True
      note f = caches_missing [OF assms(1) c(3) Some True]
      obtain q b s' where ins: "rbtree_insert_unique h (rktopic_tree c) = Some (q, b, s')"
        using get c(1) Some f(1) by (auto simp: bind_eq_Some_conv split: if_splits)
      then show ?thesis
        using get c Some f(1) f(2) [OF ins] by (auto simp: consumer_ok_def intro!: exI [of _ "m(n \<mapsto> h)"])
    next
      case False
      from caches_present [OF assms(1) c(3) Some False] obtain q where "rbtree_find h (rktopic_tree c) = Some q" "q \<noteq> NULL"
        "caches env (rktopic_tree c) m (tr @ [TopicNew n (Some h), TopicDestroy h])" by blast
      then show ?thesis
        using get c Some by (auto simp: consumer_ok_def intro!: exI [of _ m])
    qed
  qed
qed

lemma consuming_ok:
  assumes "topic_new_documented env" "consuming env c k tr"
  shows "\<exists>m. consumer_ok env c k m tr"
  using assms(2)
proof (induction rule: consuming.induct)
  case (created mem groupid brokers props topics opq code c tr)
  have a: "env_alloc env []"
  proof (rule ccontr)
    assume "\<not> env_alloc env []"
    then have "kafkatools_consumer_create env groupid brokers props topics opq mem [] = None"
      by (simp add: kafkatools_consumer_create_def)
    then show False using created(3) by simp
  qed
  have "settles env [] (\<lambda>_. 0) (Some (code, Some c, tr))"
    using consumer_create_settles [OF a created(1,2), of groupid brokers props topics opq]
    unfolding created(3) .
  from settles_success [OF this] show ?case
    by (intro exI [of _ Map.empty]) (auto simp: consumer_ok_def caches_def intro: resource.exhaust)
next
  case (configured c k tr props topic_conf c' tr')
  from configured.IH obtain m where "consumer_ok env c k m tr" ..
  then show ?case using new_topic_conf_ok [OF _ configured.hyps(2)] by blast
next
  case (looked_up c k topic_conf tr n r c' tr')
  from looked_up.IH obtain m where "consumer_ok env c (k + of_bool topic_conf) m tr" ..
  then show ?case by (rule consumer_get_topic_ok [OF assms(1) _ looked_up.hyps(2)])
next
  case (subscribed c k tr code c')
  from subscribed.IH obtain m where "consumer_ok env c k m tr" ..
  then show ?case
    using subscribed.hyps(2)
    by (intro exI [of _ m]) (auto simp: kafkatools_consumer_start_subscribe_def consumer_ok_def split: if_splits)
qed

text \<open>
  C26: A consumer is created and then used by making topic configurations, looking up topics with or
  without one, and asking for the subscription, in any order.  Destroying it returns, releases every
  cached topic handle once and before the client handle, destroys the list of partitions and frees
  the structure: no reference, handle or memory of this consumer is left, and of the topic
  configurations exactly those the program made and did not pass on.
\<close>

theorem consumer_destroy_releases:
  assumes "topic_new_documented env" "consuming env c k tr"
  shows "\<exists>xs ev. kafkatools_consumer_destroy env (Some c) tr = Some (tr @ ev) \<and>
    ev = [MutexLock, TplistDestroy] @ map TopicDestroy xs @ [KafkaDestroy, MutexDestroy, Free] \<and> distinct xs \<and>
    (\<forall>h. refs (tr @ ev) h = 0) \<and> (\<forall>r. owned (tr @ ev) r = (if r = TopicConf then int k else 0))"
proof -
  obtain m where c: "rkConsumer c" "tp_list c" "caches env (rktopic_tree c) m tr"
    "\<forall>r. owned tr r = (if r = TopicConf then int k else if r = Conf then 0 else 1)"
    using consuming_ok [OF assms] by (auto simp: consumer_ok_def)
  have "refs (tr @ [MutexLock, TplistDestroy]) = refs tr" by (simp add: fun_eq_iff)
  from caches_release [OF c(3) this] obtain xs s' where x: "distinct xs"
    "rbtree_traverse rktopic_object_release (tr @ [MutexLock, TplistDestroy]) (rktopic_tree c) =
      Some ((tr @ [MutexLock, TplistDestroy]) @ map TopicDestroy xs)"
    "rbtree_clean (Some (rktopic_tree c)) = Some (Some s')"
    "\<forall>h. refs ((tr @ [MutexLock, TplistDestroy]) @ map TopicDestroy xs) h = 0" by blast
  let ?ev = "[MutexLock, TplistDestroy] @ map TopicDestroy xs @ [KafkaDestroy, MutexDestroy, Free]"
  have "kafkatools_consumer_destroy env (Some c) tr = Some (tr @ ?ev)"
    using x c(1,2) by (simp add: kafkatools_consumer_destroy_def)
  moreover have "refs (tr @ ?ev) h = 0" "owned (tr @ ?ev) r = (if r = TopicConf then int k else 0)" for h r
    using x(4) c(4) by (cases r; simp add: refs_def [symmetric])+
  ultimately show ?thesis using x(1) by blast
qed

subsection \<open>Partitions\<close>

lemma strchr_first: "c \<notin> set s \<Longrightarrow> strchr (s @ c # t) c = Some (c # t)"
  by (auto simp: strchr_def dropWhile_append)

lemma atoi_colon: "atoi (CHR '':'' # s) = 0"
  by (simp add: atoi_def strtol10_def isspace_def isdigit_def int32_def)

text \<open>
  The partition of a topic given as \<open>topic:partition\<close> is always 0, and a range \<open>topic:a-b\<close> always
  starts at 0: the number is read from the colon on.
\<close>

theorem topic_entry_partition_lost:
  assumes "CHR '':'' \<notin> set name" "length name \<le> KAFKATOOLS_TOPIC_NAMELEN" "0 \<le> a" "0 < b" "b < 2 ^ 31"
    "length (dec a) < 10"
  shows "topic_entry (name @ '':'' @ dec a) = Inr (TplistAdd name 0) \<and>
    topic_entry (name @ '':'' @ dec a @ ''-'' @ dec b) = Inr (TplistAddRange name 0 b)"
proof
  have d: "CHR ''-'' \<notin> set (CHR '':'' # dec a)"
    using dec_nat_digits [of "nat a"] assms(3) by (auto simp: dec_def list_all_iff isdigit_def)
  then have n: "strchr (CHR '':'' # dec a) (CHR ''-'') = None" by (simp add: strchr_def)
  show "topic_entry (name @ '':'' @ dec a) = Inr (TplistAdd name 0)"
    using assms(2) strchr_first [OF assms(1)] n by (simp add: topic_entry_def Let_def atoi_colon)
  have q: "strchr (CHR '':'' # dec a @ CHR ''-'' # dec b) (CHR ''-'') = Some (CHR ''-'' # dec b)"
    using strchr_first [OF d, of "dec b"] by simp
  have "atoi (dec b) = b" using assms(4,5) by (simp add: atoi_dec)
  then show "topic_entry (name @ '':'' @ dec a @ ''-'' @ dec b) = Inr (TplistAddRange name 0 b)"
    using assms(2,4,6) strchr_first [OF assms(1)] q by (simp add: topic_entry_def Let_def atoi_colon)
qed

lemma list_topic_partitions_prefix:
  "\<exists>k \<le> length tps. kafkatools_list_topic_partitions tpcb tps s = fold (\<lambda>tp s. snd (tpcb tp s)) (take k tps) s"
proof (induction tps arbitrary: s)
  case (Cons tp tps)
  obtain go s1 where t: "tpcb tp s = (go, s1)" by fastforce
  obtain k where k: "k \<le> length tps"
    "kafkatools_list_topic_partitions tpcb tps s1 = fold (\<lambda>tp s. snd (tpcb tp s)) (take k tps) s1"
    using Cons.IH by blast
  show ?case
  proof (cases go)
    case True
    then show ?thesis using k t by (intro exI [of _ "Suc k"]) simp
  next
    case False
    then show ?thesis using t by (intro exI [of _ 1]) simp
  qed
qed simp

subsection \<open>A running consumer\<close>

text \<open>The calls of the sample program: a configuration is made and passed on with the topic.\<close>

definition ex_use :: "(bool \<times> cstr consumer \<times> cstr trace) option" where
  "ex_use = do {
     (code, out, tr) \<leftarrow> kafkatools_consumer_create ex_env (Some ''g'') (Some ''b:9092'') (Some [(''topic.x'', ''1'')])
       (Some [''test:0-7'']) 0 ex_mem [];
     c \<leftarrow> out;
     let (topic_conf, c, tr) = kafkatools_consumer_new_topic_conf ex_env c (Some [(''a'', ''b'')]) tr;
     (r, c, tr) \<leftarrow> kafkatools_consumer_get_topic ex_env c ''test'' topic_conf tr;
     Some (topic_conf, c, tr) }"

lemma ex_use_eval: "case ex_use of Some (topic_conf, c, tr) \<Rightarrow> topic_conf \<and> refs tr ''test'' = 1 | None \<Rightarrow> False"
  by code_simp

lemma ex_consuming: "\<exists>c tr. consuming ex_env c 0 tr \<and> refs tr ''test'' = 1"
proof -
  obtain c tr where u: "ex_use = Some (True, c, tr)" "refs tr ''test'' = 1"
    using ex_use_eval by (auto split: option.splits)
  then obtain code c0 tr0 where create: "kafkatools_consumer_create ex_env (Some ''g'') (Some ''b:9092'') (Some [(''topic.x'', ''1'')])
        (Some [''test:0-7'']) 0 ex_mem [] = Some (code, Some c0, tr0)"
    by (auto simp: ex_use_def bind_eq_Some_conv)
  obtain tc c1 tr1 where cf0: "kafkatools_consumer_new_topic_conf ex_env c0 (Some [(''a'', ''b'')]) tr0 = (tc, c1, tr1)"
    by (metis prod_cases3)
  with u(1) create obtain r where cf: "kafkatools_consumer_new_topic_conf ex_env c0 (Some [(''a'', ''b'')]) tr0 = (True, c1, tr1)"
    and get: "kafkatools_consumer_get_topic ex_env c1 ''test'' True tr1 = Some (r, c, tr)"
    by (auto simp: ex_use_def bind_eq_Some_conv)
  from consuming.created [OF ex_mem_ok create] have "consuming ex_env c0 0 tr0" .
  from consuming.configured [OF this cf] have "consuming ex_env c1 (0 + of_bool True) tr1" .
  from consuming.looked_up [OF this get] show ?thesis using u(2) by blast
qed

theorem consumer_create_balanced_witness:
  "\<exists>code out ev. kafkatools_consumer_create ex_env None None None None 0 ex_mem [] = Some (code, out, [] @ ev) \<and>
     (code = KAFKATOOLS_SUCCESS \<longleftrightarrow> out \<noteq> None)"
proof -
  have "env_alloc ex_env []" by (simp add: ex_env_def)
  from consumer_create_balanced [OF this ex_mem_ok] show ?thesis by blast
qed

theorem consumer_destroy_releases_witness:
  "\<exists>c tr ev. consuming ex_env c 0 tr \<and> refs tr ''test'' = 1 \<and>
     kafkatools_consumer_destroy ex_env (Some c) tr = Some (tr @ ev) \<and> refs (tr @ ev) ''test'' = 0 \<and>
     owned (tr @ ev) TopicConf = 0 \<and> owned (tr @ ev) Kafka = 0"
proof -
  obtain c tr where c: "consuming ex_env c 0 tr" "refs tr ''test'' = 1" using ex_consuming by blast
  from consumer_destroy_releases [OF ex_env_documented c(1)] obtain xs ev where
    "kafkatools_consumer_destroy ex_env (Some c) tr = Some (tr @ ev)" "\<forall>h. refs (tr @ ev) h = 0"
    "\<forall>r. owned (tr @ ev) r = (if r = TopicConf then int 0 else 0)" by blast
  moreover from this(3) have "owned (tr @ ev) r = 0" for r by (cases "r = TopicConf") (simp_all del: owned_simps)
  ultimately show ?thesis using c by blast
qed

end
