(* ===== verification/ReadConfValue.thy ===== *)
theory ReadConfValue
  imports KT_Props CStrTime
begin

section \<open>Values and sections of configuration files\<close>

text \<open>
  The functions of \<open>src/src/common/readconf.c\<close> on top of the reader: the lookup of a value, the
  list of the sections, the parts of a section name and the parsers of values.  A buffer of the
  caller is the list of its bytes; \<open>None\<close> is an access outside of it or through a null pointer.
  Running out of memory ends the process (\<open>ConfMemAlloc\<close>).
\<close>

definition READCONF_TRUE :: int where "READCONF_TRUE = 1"
definition READCONF_FALSE :: int where "READCONF_FALSE = 0"
definition READCONF_RET_SUCCESS :: int where "READCONF_RET_SUCCESS = 0"
definition READCONF_RET_ERROR :: int where "READCONF_RET_ERROR = - 1"
definition READCONF_SEC_SEMI :: char where "READCONF_SEC_SEMI = CHR '':''"

definition trimmed :: "cstr \<Rightarrow> cstr" where
  "trimmed s = dtrim (dtrim s (CHR 0x20)) (CHR 0x09)"

text \<open>The recursive trimming functions are those of \<open>src/src/common/cstrbuf.h\<close> once more.\<close>

definition trim :: "cstr \<Rightarrow> char \<Rightarrow> cstr \<times> nat" where
  "trim s c = trim_rec (\<lambda>d. d = c) c (length s) s"

definition trim_whitespace :: "cstr \<Rightarrow> cstr \<times> nat" where
  "trim_whitespace s = trim_rec isspace (CHR 0x20) (length s) s"

text \<open>
  \<open>ConfMemRealloc\<close>: \<open>realloc\<close> keeps the old bytes as far as they fit; what it adds is \<open>junk\<close>
  until the code clears it.  A negative size fails the assertion.
\<close>

definition ConfMemRealloc :: "cstr \<Rightarrow> cstr option \<Rightarrow> int \<Rightarrow> int \<Rightarrow> cstr option option" where
  "ConfMemRealloc junk oldBuffer oldSize newSize =
     (if newSize < 0 then None
      else if newSize = 0 then Some None
      else if oldSize = newSize then
        Some (Some (case oldBuffer of Some b \<Rightarrow> b | None \<Rightarrow> replicate (nat newSize) (CHR 0x00)))
      else do {
        let newBuffer = take (nat newSize) ((case oldBuffer of None \<Rightarrow> [] | Some b \<Rightarrow> b) @ junk);
        newBuffer \<leftarrow> (if newSize > oldSize
          then (if oldSize < 0 then None
                else store_at newBuffer (nat oldSize) (replicate (nat (newSize - oldSize)) (CHR 0x00)))
          else Some newBuffer);
        Some (Some newBuffer) })"

lemma ConfMemRealloc_grow:
  assumes "length b < n" "n \<le> length b + length junk"
  shows "ConfMemRealloc junk (Some b) (int (length b)) (int n) =
    Some (Some (b @ replicate (n - length b) (CHR 0x00)))"
proof -
  have "nat (int n - int (length b)) = n - length b" by simp
  then show ?thesis using assms by (simp add: ConfMemRealloc_def store_at_def min_def)
qed

subsection \<open>The value of a key\<close>

text \<open>
  The loop of \<open>ConfReadValue\<close> over the lines that continue a value.  Before each round the value
  ends with a backslash, so \<open>valsz\<close> is at least 2.  The character in front of an empty rest is
  the plus sign or a blank, never a backslash.  The sizes stay below the size of the file.
\<close>

function continue_loop :: "cstr \<Rightarrow> int \<Rightarrow> nat \<Rightarrow> cstr \<Rightarrow> (int \<times> cstr) option" where
  "continue_loop f valsz maxbufsize valbuf =
     (case readln f READCONF_MAX_LINESIZE of (nch, linebuf, rest) \<Rightarrow>
        if nch < 0 then Some (valsz, valbuf)
        else
          (let start = trimmed linebuf in
           if start \<noteq> [] \<and> hd start = READCONF_NOTE_CHAR then continue_loop rest valsz maxbufsize valbuf
           else if start = [] \<or> hd start \<noteq> CHR ''+'' then do {
             valbuf \<leftarrow> store_at valbuf (nat (valsz - 2)) [CHR 0x00];
             Some (valsz - 1, valbuf) }
           else
             (let start = trimmed (tl start); nch = int (length start) in do {
                valbuf \<leftarrow> (if valsz - 2 + nch < int32 (int maxbufsize)
                          then store_at valbuf (nat (valsz - 2)) (start @ [CHR 0x00]) else Some valbuf);
                let valsz = valsz - 2 + nch + 1;
                if start \<noteq> [] \<and> last start = CHR 0x5C then continue_loop rest valsz maxbufsize valbuf
                else Some (valsz, valbuf) })))"
  by pat_completeness auto
termination
  by (relation "measure (\<lambda>(f, _). length f)")
    (auto simp: READCONF_MAX_LINESIZE_def dest!: readln_length)

declare continue_loop.simps [simp del]

text \<open>
  What \<open>ConfReadValue\<close> does with the pair it was looking for.  For an empty value it reads the
  byte in front of the buffer.
\<close>

definition found_value ::
    "cstr option \<Rightarrow> cstr option \<Rightarrow> nat \<Rightarrow> conf_position \<Rightarrow> (int \<times> cstr option) option" where
  "found_value val valbuf maxbufsize cpos =
     (case val of
        Some v \<Rightarrow>
          (let valsz = int (length v) + 1 in
           case valbuf of
             None \<Rightarrow> Some (valsz, None)
           | Some buf \<Rightarrow> do {
               buf \<leftarrow> store_at buf 0 (v @ [CHR 0x00]);
               if v = [] then None
               else if last v \<noteq> CHR 0x5C then Some (valsz, Some buf)
               else do {
                 (n, buf) \<leftarrow> continue_loop (fp cpos) valsz maxbufsize buf;
                 Some (n, Some buf) } })
      | None \<Rightarrow> do {
          buf \<leftarrow> valbuf;
          buf \<leftarrow> store_at buf 0 [CHR 0x00];
          Some (1, Some buf) })"

function read_value_loop ::
    "cstr option \<Rightarrow> cstr \<Rightarrow> cstr option \<Rightarrow> nat \<Rightarrow> (cstr \<times> cstr option) option \<times> conf_position \<Rightarrow>
      (int \<times> cstr option) option" where
  "read_value_loop sectionName keyName valbuf maxbufsize (None, cpos) = Some (0, valbuf)"
| "read_value_loop sectionName keyName valbuf maxbufsize (Some (key, val), cpos) =
     (if selected sectionName cpos \<and> strcmp key keyName = 0 then found_value val valbuf maxbufsize cpos
      else read_value_loop sectionName keyName valbuf maxbufsize (ConfGetNextPair cpos))"
  by pat_completeness auto
termination
  by (relation "measure (\<lambda>(_, _, _, _, pc). pair_measure pc)") (auto simp: pair_measure_next)

text \<open>A file that cannot be opened is closed through a null pointer.\<close>

definition ConfReadValue ::
    "cstr option \<Rightarrow> cstr option \<Rightarrow> cstr \<Rightarrow> cstr option \<Rightarrow> nat \<Rightarrow> (int \<times> cstr option) option" where
  "ConfReadValue confFile sectionName keyName valbuf maxbufsize = do {
     cpos \<leftarrow> ConfOpenFile confFile;
     read_value_loop sectionName keyName valbuf maxbufsize (ConfGetFirstPair cpos) }"

text \<open>
  \<open>ConfReadValueRef\<close> stores a pointer into the line buffer, which is released before the
  function returns, or the null pointer of a line without separator.
\<close>

datatype value_ref = NullRef | FreedRef

function read_ref_loop ::
    "cstr option \<Rightarrow> cstr \<Rightarrow> (cstr \<times> cstr option) option \<times> conf_position \<Rightarrow> int \<times> value_ref option" where
  "read_ref_loop sectionName keyName (None, cpos) = (READCONF_FALSE, None)"
| "read_ref_loop sectionName keyName (Some (key, val), cpos) =
     (if selected sectionName cpos \<and> strcmp key keyName = 0
      then (READCONF_TRUE, Some (case val of None \<Rightarrow> NullRef | Some _ \<Rightarrow> FreedRef))
      else read_ref_loop sectionName keyName (ConfGetNextPair cpos))"
  by pat_completeness auto
termination
  by (relation "measure (\<lambda>(_, _, pc). pair_measure pc)") (auto simp: pair_measure_next)

definition ConfReadValueRef :: "cstr option \<Rightarrow> cstr option \<Rightarrow> cstr \<Rightarrow> (int \<times> value_ref option) option" where
  "ConfReadValueRef confFile sectionName keyName = do {
     cpos \<leftarrow> ConfOpenFile confFile;
     Some (read_ref_loop sectionName keyName (ConfGetFirstPair cpos)) }"

definition ConfReadValueParsed ::
    "cstr option \<Rightarrow> cstr \<Rightarrow> cstr option \<Rightarrow> cstr \<Rightarrow> cstr option \<Rightarrow> nat \<Rightarrow> (int \<times> cstr option) option" where
  "ConfReadValueParsed confFile family qualifier key valbuf maxbufsize =
     (case qualifier of
        None \<Rightarrow> ConfReadValue confFile (Some family) key valbuf maxbufsize
      | Some q \<Rightarrow>
          ConfReadValue confFile (Some (snprintf_into (READCONF_MAX_SECNAME + 4) (family @ '':'' @ q)))
            key valbuf maxbufsize)"

definition ConfReadValueParsedAlloc ::
    "cstr option \<Rightarrow> cstr \<Rightarrow> cstr option \<Rightarrow> cstr \<Rightarrow> (int \<times> cstr option) option" where
  "ConfReadValueParsedAlloc confFile family qualifier key = do {
     (valsz, valbuf) \<leftarrow> ConfReadValueParsed confFile family qualifier key
       (Some (replicate READCONF_MAX_LINESIZE (CHR 0x00))) READCONF_MAX_LINESIZE;
     if valsz > int READCONF_MAX_LINESIZE then
       ConfReadValueParsed confFile family qualifier key
         (Some (replicate (nat valsz) (CHR 0x00))) (nat valsz)
     else Some (valsz, valbuf) }"

subsection \<open>The list of sections\<close>

text \<open>
  \<open>ConfCopySection\<close> into a buffer of a given size; without a buffer it returns the size needed.
  It copies one byte behind the terminating null as well.
\<close>

definition ConfCopySection :: "conf_position \<Rightarrow> nat option \<Rightarrow> (int \<times> cstr) option" where
  "ConfCopySection cpos secName =
     (case secName of
        None \<Rightarrow> Some (int (length (secname cpos)) + 2, [])
      | Some sz \<Rightarrow>
          if length (secname cpos) + 2 \<le> sz then Some (READCONF_RET_SUCCESS, secname cpos) else None)"

function count_loop ::
    "(cstr \<times> cstr option) option \<times> conf_position \<Rightarrow> cstr \<Rightarrow> nat \<Rightarrow> nat option" where
  "count_loop (None, cpos) secName numSections = Some numSections"
| "count_loop (Some kv, cpos) secName numSections =
     (if strcmp (ConfGetSection cpos) secName \<noteq> 0 then do {
        (_, secName) \<leftarrow> ConfCopySection cpos (Some READCONF_MAX_SECNAME);
        count_loop (ConfGetNextPair cpos) secName (Suc numSections) }
      else count_loop (ConfGetNextPair cpos) secName numSections)"
  by pat_completeness auto
termination
  by (relation "measure (\<lambda>(pc, _, _). pair_measure pc)") (auto simp: pair_measure_next)

text \<open>The second pass: \<open>secs\<close> has the sections stored so far, \<open>secNo\<close> is one more than their number.\<close>

function list_loop :: "nat \<Rightarrow> cstr list \<Rightarrow> conf_position \<Rightarrow> cstr list option" where
  "list_loop numSections secs cpos =
     (if length secs < numSections then
        (case ConfGetNextPair cpos of
           (None, cpos') \<Rightarrow> Some secs
         | (Some kv, cpos') \<Rightarrow>
             if secs = [] \<or> strcmp (ConfGetSection cpos') (last secs) \<noteq> 0 then do {
               (secSize, _) \<leftarrow> ConfCopySection cpos' None;
               (_, sec) \<leftarrow> ConfCopySection cpos' (Some (nat secSize));
               list_loop numSections (secs @ [sec]) cpos' }
             else list_loop numSections secs cpos')
      else Some secs)"
  by pat_completeness auto
termination
  by (relation "measure (\<lambda>(_, _, cpos). length (fp cpos))")
    (auto dest!: sym [of "(Some _, _)"] dest: ConfGetNextPair_Some)

declare list_loop.simps [simp del]

text \<open>
  The list is the number of sections, in its first element, and as many pointers, null where
  the second pass found less.  The file is opened twice.
\<close>

type_synonym section_list = "cstr option list"

definition ConfGetSectionList :: "cstr option \<Rightarrow> cstr option \<Rightarrow> (int \<times> section_list option) option" where
  "ConfGetSectionList confFile confFile' =
     (case ConfOpenFile confFile of
        None \<Rightarrow> Some (READCONF_RET_ERROR, None)
      | Some cpos \<Rightarrow> do {
          numSections \<leftarrow> count_loop (ConfGetNextPair cpos) [] 0;
          if numSections > 0 then do {
            secs \<leftarrow> (case ConfOpenFile confFile' of
                      None \<Rightarrow> Some []
                    | Some cpos \<Rightarrow> list_loop numSections [] cpos);
            Some (int numSections,
              Some (map Some secs @ replicate (numSections - length secs) None)) }
          else Some (int numSections, None) })"

text \<open>\<open>ConfSectionListFree\<close>: the blocks in the order of their release.\<close>

datatype section_block = Entry nat | Table

fun free_loop :: "nat \<Rightarrow> section_block list" where
  "free_loop 0 = []"
| "free_loop (Suc numSections) = Entry (Suc numSections) # free_loop numSections"

definition ConfSectionListFree :: "section_list option \<Rightarrow> section_block list" where
  "ConfSectionListFree sections =
     (case sections of None \<Rightarrow> [] | Some secs \<Rightarrow> free_loop (length secs) @ [Table])"

definition ConfSectionListGetAt :: "section_list \<Rightarrow> int \<Rightarrow> cstr option" where
  "ConfSectionListGetAt secs secIndex =
     (if secIndex < 0 \<or> secIndex \<ge> int (length secs) then None else secs ! nat secIndex)"

text \<open>\<open>ConfSectionParse\<close> returns its code, the family and the qualifier.\<close>

definition ConfSectionParse :: "cstr option \<Rightarrow> int \<times> cstr option \<times> cstr option" where
  "ConfSectionParse sectionName =
     (case sectionName of
        None \<Rightarrow> (- 1, None, None)
      | Some s \<Rightarrow>
          if s = [] then (0, None, None)
          else
            (let p = strchr_at s READCONF_SEC_SEMI; q = strrchr_at s READCONF_SEC_SEMI in
             if p = q \<and> p \<noteq> None then (2, Some (take (the p) s), Some (drop (Suc (the p)) s))
             else (1, Some s, None)))"

subsection \<open>Parsers of values\<close>

definition ConfParseBoolValue :: "cstr option \<Rightarrow> int \<Rightarrow> int" where
  "ConfParseBoolValue value defvalue =
     (case value of
        None \<Rightarrow> defvalue
      | Some v \<Rightarrow>
          if v = [] then defvalue
          else
            (let c = min (length v) 10 in
             if c > 8 then - 1
             else if strncasecmp ''1'' v c = 0 \<or> strncasecmp ''yes'' v c = 0 \<or> strncasecmp ''y'' v c = 0 \<or>
               strncasecmp ''on'' v c = 0 \<or> strncasecmp ''open'' v c = 0 \<or>
               strncasecmp ''true'' v c = 0 \<or> strncasecmp ''t'' v c = 0 then 1
             else if strncasecmp ''0'' v c = 0 \<or> strncasecmp ''no'' v c = 0 \<or> strncasecmp ''n'' v c = 0 \<or>
               strncasecmp ''off'' v c = 0 \<or> strncasecmp ''close'' v c = 0 \<or>
               strncasecmp ''false'' v c = 0 \<or> strncasecmp ''f'' v c = 0 then 0
             else - 1))"

definition namebytes :: "(cstr \<times> int \<times> int) list" where
  "namebytes =
     [(''B'', 10, 0), (''KiB'', 2, 10), (''KB'', 10, 3), (''K'', 10, 3), (''MiB'', 2, 20), (''MB'', 10, 6),
      (''M'', 10, 6), (''GiB'', 2, 30), (''GB'', 10, 9), (''G'', 10, 9), (''TiB'', 2, 40), (''TB'', 10, 12),
      (''T'', 10, 12), (''PiB'', 2, 50), (''PB'', 10, 15), (''P'', 10, 15), (''EiB'', 2, 60), (''EB'', 10, 18),
      (''E'', 10, 18), (''ZiB'', 2, 70), (''ZB'', 10, 21), (''Z'', 10, 21), (''YiB'', 2, 80), (''YB'', 10, 24),
      (''Y'', 10, 24)]"

text \<open>
  The result is a \<open>double\<close>: it is kept as the text \<open>atof\<close> is applied to and the power it is
  multiplied with.  With the output arguments for base and exponent the number is not scaled.
  \<open>memcmp\<close> compares with the name padded to four bytes, up to the null behind the value.
\<close>

datatype size_value =
  DefaultSize "(int \<times> int) option" | Mantissa cstr "int \<times> int" | Scaled cstr int int

definition unit_matches :: "cstr \<Rightarrow> nat \<Rightarrow> cstr \<times> int \<times> int \<Rightarrow> bool" where
  "unit_matches name n u \<longleftrightarrow> n \<le> 4 \<and>
     take n (fst u @ replicate (4 - length (fst u)) (CHR 0x00)) = take n (name @ [CHR 0x00])"

fun size_loop :: "cstr \<Rightarrow> nat \<Rightarrow> bool \<Rightarrow> nat \<Rightarrow> size_value" where
  "size_loop value n outs 0 = DefaultSize (if outs then Some (10, 0) else None)"
| "size_loop value n outs (Suc e) =
     (if isdigit (value ! e) then
        (case find (unit_matches (drop (Suc e) value) (n - e)) namebytes of
           Some (_, base, exponent) \<Rightarrow>
             if outs then Mantissa (take (Suc e) value) (base, exponent)
             else Scaled (take (Suc e) value) base exponent
         | None \<Rightarrow> size_loop value n outs e)
      else size_loop value n outs e)"

definition ConfParseSizeBytesValue :: "cstr option \<Rightarrow> bool \<Rightarrow> size_value" where
  "ConfParseSizeBytesValue valuebuf outs =
     (case valuebuf of
        None \<Rightarrow> DefaultSize (if outs then Some (10, 0) else None)
      | Some s \<Rightarrow>
          (let (t, k) = trim_whitespace s; value = drop k t; n = min (length value) 128 in
           size_loop value n outs n))"

subsection \<open>Values that go over several lines\<close>












subsection \<open>The list of sections\<close>

fun changes :: "cstr \<Rightarrow> cstr list \<Rightarrow> cstr list" where
  "changes p [] = []"
| "changes p (s # xs) = (if s = p then changes p xs else s # changes s xs)"

lemma changes_remdups: "remdups_adj (p # xs) = p # changes p xs"
  by (induction xs arbitrary: p) auto

lemma classify_Section: "classify l = Section s \<Longrightarrow> s \<noteq> [] \<and> length s + 2 \<le> READCONF_MAX_SECNAME"
  by (cases "trimmed l")
    (auto simp: classify_def trimmed_def Let_def READCONF_MAX_SECNAME_def split: if_splits
      dest!: arg_cong [of "butlast _" "[]" length])

abbreviation sections_of :: "cstr \<Rightarrow> cstr list \<Rightarrow> cstr list" where
  "sections_of sec ls \<equiv> map fst (parse_lines sec ls)"

lemma ConfGetNextPair_Cons:
  assumes "\<forall>l \<in> set (l # ls). plain_line l"
  shows "ConfGetNextPair \<lparr>contents = c, fp = unlines (l # ls), secname = sec\<rparr> =
    (case classify l of
       Skip \<Rightarrow> ConfGetNextPair \<lparr>contents = c, fp = unlines ls, secname = sec\<rparr>
     | Section s \<Rightarrow> ConfGetNextPair \<lparr>contents = c, fp = unlines ls, secname = s\<rparr>
     | KeyVal kv \<Rightarrow> (Some kv, \<lparr>contents = c, fp = unlines ls, secname = sec\<rparr>))"
  using assms by (simp add: ConfGetNextPair_lines del: unlines_simps split: line_kind.split)

lemma count_loop_lines:
  assumes "\<forall>l \<in> set ls. plain_line l" "length sec + 2 \<le> READCONF_MAX_SECNAME"
  shows "count_loop (ConfGetNextPair \<lparr>contents = c, fp = unlines ls, secname = sec\<rparr>) p n =
    Some (n + length (changes p (sections_of sec ls)))"
  using assms
proof (induction ls arbitrary: sec p n)
  case Nil
  then show ?case using ConfGetNextPair_lines [of "[]" c sec] by simp
next
  case (Cons l ls)
  show ?case
    unfolding ConfGetNextPair_Cons [OF Cons.prems(1)]
    using Cons classify_Section [of l]
    by (cases "classify l") (auto simp: ConfGetSection_def ConfCopySection_def strcmp_eq_0)
qed

lemma list_loop_step:
  "list_loop n secs cpos =
    (if length secs < n then
       (case ConfGetNextPair cpos of
           (None, cpos') \<Rightarrow> Some secs
         | (Some kv, cpos') \<Rightarrow>
             if secs = [] \<or> secname cpos' \<noteq> last secs
             then list_loop n (secs @ [secname cpos']) cpos' else list_loop n secs cpos')
      else Some secs)"
proof -
  have "nat (int k + 2) = k + 2" for k by simp
  then show ?thesis
    by (subst list_loop.simps)
      (simp add: ConfCopySection_def ConfGetSection_def strcmp_eq_0 split: prod.split option.split)
qed

lemma list_loop_skip:
  "ConfGetNextPair cpos = ConfGetNextPair cpos' \<Longrightarrow> list_loop n secs cpos = list_loop n secs cpos'"
  by (subst (1 2) list_loop_step) simp

lemma list_loop_lines:
  assumes "\<forall>l \<in> set ls. plain_line l" "length secs \<le> n"
  shows "list_loop n secs \<lparr>contents = c, fp = unlines ls, secname = sec\<rparr> =
    Some (take n (secs @ (if secs = [] then remdups_adj (sections_of sec ls)
                          else changes (last secs) (sections_of sec ls))))"
  using assms
proof (induction ls arbitrary: sec secs)
  case Nil
  then show ?case
    using ConfGetNextPair_lines [of "[]" c sec] by (subst list_loop.simps) simp
next
  case (Cons l ls)
  note n = ConfGetNextPair_Cons [OF Cons.prems(1), of c sec]
  show ?case
  proof (cases "length secs < n")
    case True
    show ?thesis
    proof (cases "classify l")
      case (KeyVal kv)
      then show ?thesis
        using Cons True by (subst list_loop_step) (auto simp: n changes_remdups take_Cons' simp del: unlines_simps)
    next
      case Skip
      then have "ConfGetNextPair \<lparr>contents = c, fp = unlines (l # ls), secname = sec\<rparr> =
          ConfGetNextPair \<lparr>contents = c, fp = unlines ls, secname = sec\<rparr>" by (simp only: n line_kind.case)
      then show ?thesis using Cons Skip by (subst list_loop_skip) auto
    next
      case (Section s)
      then have "ConfGetNextPair \<lparr>contents = c, fp = unlines (l # ls), secname = sec\<rparr> =
          ConfGetNextPair \<lparr>contents = c, fp = unlines ls, secname = s\<rparr>" by (simp only: n line_kind.case)
      then show ?thesis using Cons Section by (subst list_loop_skip) auto
    qed
  next
    case False
    then show ?thesis using Cons.prems(2) by (subst list_loop_step) simp
  qed
qed

lemma sections_named: "sec \<noteq> [] \<Longrightarrow> [] \<notin> set (sections_of sec ls)"
  using classify_Section by (induction ls arbitrary: sec) (auto split: line_kind.split)

lemma tails_named: "[] \<notin> fst ` set (tails ls)"
  using classify_Section sections_named by (induction ls) (auto split: line_kind.split)

lemma changes_replicate: "changes p (replicate k p @ xs) = changes p xs"
  by (induction k) auto

lemma changes_notin: "p \<notin> set xs \<Longrightarrow> changes p xs = remdups_adj xs"
  by (cases xs) (auto simp: changes_remdups)

text \<open>
  \<open>ConfGetSectionList\<close> on a text file returns the number and the names of the sections that
  have pairs, as often as they are entered.  When a pair stands in front of the first header,
  the list has an unnamed section and lacks the last one.
\<close>

theorem ConfGetSectionList_lines:
  assumes "\<forall>l \<in> set ls. plain_line l"
  shows "ConfGetSectionList (Some (unlines ls)) (Some (unlines ls)) =
    (let names = remdups_adj (map fst (parse_lines [] ls));
         listed = (if header_first ls then names else butlast names) in
     Some (int (length listed), if listed = [] then None else Some (map Some listed)))"
proof -
  let ?hs = "replicate (length (heads ls)) []" and ?ts = "map fst (tails ls)"
  have xs: "sections_of [] ls = ?hs @ ?ts"
    by (simp add: parse_heads_tails [of "[]"] map_replicate_const comp_def)
  have named: "[] \<notin> set ?ts" using tails_named [of ls] by simp
  then have cs: "changes [] (sections_of [] ls) = remdups_adj ?ts"
    unfolding xs changes_replicate by (rule changes_notin)
  have hf: "heads ls = [] \<longleftrightarrow> header_first ls" using heads_header_first [of ls] by blast
  have names: "remdups_adj (sections_of [] ls) = (if header_first ls then [] else [[]]) @ remdups_adj ?ts"
  proof (cases "heads ls")
    case (Cons h hs)
    then have "remdups_adj (sections_of [] ls) = [] # changes [] (replicate (length hs) [] @ ?ts)"
      unfolding xs by (simp add: changes_remdups)
    then show ?thesis using Cons hf named by (simp add: changes_replicate changes_notin)
  qed (use hf xs in simp)
  have "count_loop (ConfGetNextPair \<lparr>contents = unlines ls, fp = unlines ls, secname = []\<rparr>) [] 0 =
      Some (length (remdups_adj ?ts))"
    using count_loop_lines [OF assms, of "[]" "unlines ls" "[]" 0] cs by (simp add: READCONF_MAX_SECNAME_def)
  then show ?thesis
    using list_loop_lines [OF assms, of "[]" "length (remdups_adj ?ts)" "unlines ls" "[]"] names
    by (auto simp: ConfGetSectionList_def ConfOpenFile_def Let_def butlast_conv_take take_Cons' diff_Suc split: nat.split)
qed

theorem ConfGetSectionList_lines_witness:
  "ConfGetSectionList (Some (unlines [''[a]'', ''x=1'', ''[b]'', ''y=2'', ''z=3'']))
     (Some (unlines [''[a]'', ''x=1'', ''[b]'', ''y=2'', ''z=3''])) = Some (2, Some [Some ''a'', Some ''b''])"
proof -
  define ls where "ls = [''[a]'', ''x=1'', ''[b]'', ''y=2'', ''z=3'']"
  have "\<forall>l \<in> set ls. plain_line l" unfolding ls_def by code_simp
  moreover have "remdups_adj (map fst (parse_lines [] ls)) = [''a'', ''b''] \<and> header_first ls"
    unfolding ls_def by code_simp
  ultimately show ?thesis
    using ConfGetSectionList_lines [of ls] unfolding ls_def [symmetric] by simp
qed

lemma free_loop_blocks: "free_loop n = map Entry (rev [1..<Suc n])"
  by (induction n) auto

text \<open>A list of sections is released completely and no block twice.\<close>

lemma ConfSectionListFree_all:
  "distinct (ConfSectionListFree (Some secs)) \<and>
   set (ConfSectionListFree (Some secs)) = insert Table (Entry ` {1..length secs})"
  by (auto simp: ConfSectionListFree_def free_loop_blocks distinct_map inj_on_def)

text \<open>A section name made of a family and a qualifier is taken apart again.\<close>

lemma ConfSectionParse_print:
  assumes "READCONF_SEC_SEMI \<notin> set f" "READCONF_SEC_SEMI \<notin> set q"
  shows "ConfSectionParse (Some (f @ '':'' @ q)) = (2, Some f, Some q)"
proof -
  have "strchr_at (f @ CHR '':'' # q) (CHR '':'') = Some (length f)"
    using assms(1) by (simp add: strchr_at_def READCONF_SEC_SEMI_def takeWhile_append takeWhile_eq_all_conv)
  moreover have "strrchr_at (f @ CHR '':'' # q) (CHR '':'') = Some (length f)"
    using strrchr_at_last [of "CHR '':''" q f] assms(2) by (simp add: READCONF_SEC_SEMI_def)
  ultimately show ?thesis by (simp add: ConfSectionParse_def READCONF_SEC_SEMI_def)
qed

subsection \<open>Values\<close>

lemma strncasecmp_prefix:
  "map tolower w = w \<Longrightarrow> strncasecmp w v (length v) = 0 \<longleftrightarrow> prefix (map tolower v) w"
  by (auto simp: strncasecmp_def strcasecmp_def strcmp_eq_0 prefix_def take_map append_eq_conv_conj)
    (metis append_take_drop_id length_map take_map)+

text \<open>A truth value may be shortened to any of its prefixes; the words for true are tried first.\<close>

lemma ConfParseBoolValue_words:
  assumes "v \<noteq> []"
  shows "ConfParseBoolValue (Some v) defvalue =
    (if length v > 8 then - 1
     else if \<exists>w \<in> {''1'', ''yes'', ''y'', ''on'', ''open'', ''true'', ''t''}. prefix (map tolower v) w then 1
     else if \<exists>w \<in> {''0'', ''no'', ''n'', ''off'', ''close'', ''false'', ''f''}. prefix (map tolower v) w then 0
     else - 1)"
proof (cases "length v > 8")
  case False
  have low: "\<forall>w \<in> {''1'', ''yes'', ''y'', ''on'', ''open'', ''true'', ''t'',
      ''0'', ''no'', ''n'', ''off'', ''close'', ''false'', ''f''}. map tolower w = w" by code_simp
  show ?thesis
    using False assms low by (simp add: ConfParseBoolValue_def strncasecmp_prefix)
qed (use assms in \<open>simp add: ConfParseBoolValue_def\<close>)

lemma find_unit:
  assumes "(u, b, e) \<in> set namebytes"
  shows "find (unit_matches u (Suc (length u))) namebytes = Some (u, b, e)" "\<forall>c \<in> set u. \<not> isdigit c"
proof -
  have "\<forall>(u, b, e) \<in> set namebytes. find (unit_matches u (Suc (length u))) namebytes = Some (u, b, e) \<and>
      (\<forall>c \<in> set u. \<not> isdigit c)"
    by code_simp
  then show "find (unit_matches u (Suc (length u))) namebytes = Some (u, b, e)" "\<forall>c \<in> set u. \<not> isdigit c"
    using assms by auto
qed

lemma size_loop_unit:
  assumes "\<forall>c \<in> set u. \<not> isdigit c" "j \<le> length u"
  shows "size_loop (d @ u) n outs (length d + j) = size_loop (d @ u) n outs (length d)"
  using assms(2)
proof (induction j)
  case (Suc j)
  then have "\<not> isdigit ((d @ u) ! (length d + j))" using assms(1) by (simp add: nth_append)
  then show ?case using Suc by simp
qed simp

text \<open>
  a size is recognised whatever white space it contains: a text that ends with a digit and
  one of the units is split into the number and the base and exponent of the unit, up to 128
  characters.
\<close>

theorem ConfParseSizeBytesValue_unit:
  assumes "filter (\<lambda>c. \<not> isspace c) s = d @ u" "d \<noteq> []" "isdigit (last d)" "(u, b, e) \<in> set namebytes"
    "length (d @ u) \<le> 128"
  shows "ConfParseSizeBytesValue (Some s) outs = (if outs then Mantissa d (b, e) else Scaled d b e)"
proof -
  obtain t k where t: "trim_whitespace s = (t, k)" "drop k t = d @ u"
    using trim_rec_spec [of isspace "CHR 0x20" s] assms(1)
    by (auto simp: trim_whitespace_def isspace_def)
  obtain d' c where d: "d = d' @ [c]" "isdigit c"
    using assms(2,3) by (metis append_butlast_last_id)
  have "size_loop (d @ u) (length (d @ u)) outs (length d) = (if outs then Mantissa d (b, e) else Scaled d b e)"
    using d find_unit(1) [OF assms(4)] by simp
  then show ?thesis
    using size_loop_unit [OF find_unit(2) [OF assms(4)] le_refl, of d "length (d @ u)" outs] t assms(5)
    by (simp add: ConfParseSizeBytesValue_def Let_def min_def del: length_drop)
qed

theorem ConfParseSizeBytesValue_unit_witness:
  "ConfParseSizeBytesValue (Some '' 1 0.5 KiB'') False = Scaled ''10.5'' 2 10"
proof -
  have "filter (\<lambda>c. \<not> isspace c) '' 1 0.5 KiB'' = ''10.5'' @ ''KiB''" by code_simp
  moreover have "(''KiB'', 2, 10) \<in> set namebytes" "isdigit (last ''10.5'')" by code_simp+
  ultimately show ?thesis
    using ConfParseSizeBytesValue_unit [of "'' 1 0.5 KiB''" "''10.5''" "''KiB''" 2 10 False] by simp
qed

text \<open>A number without a unit is not recognised as a size.\<close>

lemma ConfParseSizeBytesValue_plain_number: "ConfParseSizeBytesValue (Some ''100'') False = DefaultSize None"
  by code_simp

end
