(* ===== verification/KT_Consume.thy ===== *)
theory KT_Consume
  imports KT_Consumer
begin

section \<open>The sample consumer\<close>

text \<open>
  \<open>src/src/consume.c\<close>: the program creates a consumer, looks at the partitions of its topics, starts
  to consume one partition and then takes message after message for ever.  Calls are events as
  before, with those of the simple consumer interface and the lines printed added.  What the loop
  does is followed for any number of rounds.  \<open>None\<close> is the use of a null pointer.
\<close>

record 'h message =
  m_err :: int
  m_rkt :: "'h option"
  m_partition :: int
  m_offset :: int
  m_payload :: cstr
  m_key :: cstr

datatype 'h line =
    PartitionLine cstr int int
  | WatermarkLine int int
  | WatermarkFailed int
  | CreateError
  | CreateSuccess
  | TopicConfFailed cstr
  | TopicFailed cstr
  | CommittedFailed int
  | StartFailed int
  | EofLine 'h int int
  | TopicErrorLine 'h int int int
  | ErrorLine int
  | MessageLine 'h int int nat cstr "cstr option"

datatype 'h call =
    Lib "'h event"
  | Line "'h line"
  | QueryWatermarks cstr int int
  | QueryCommitted int
  | ConsumeStart 'h int int int
  | PollEvents
  | Consume "'h message option"
  | MessageDestroy "'h message"

definition RD_KAFKA_RESP_ERR__PARTITION_EOF :: int where "RD_KAFKA_RESP_ERR__PARTITION_EOF = - 191"

definition RD_KAFKA_OFFSET_BEGINNING :: int where "RD_KAFKA_OFFSET_BEGINNING = - 2"

definition RD_KAFKA_OFFSET_INVALID :: int where "RD_KAFKA_OFFSET_INVALID = - 1001"

text \<open>
  Offsets are signed and 64 bits wide, and \<open>%ju\<close> prints them as unsigned.  \<open>%.*s\<close> prints the bytes
  it is given up to the first zero byte.
\<close>

definition ju :: "int \<Rightarrow> int" where "ju off = off mod 2 ^ 64"

definition shown :: "cstr \<Rightarrow> cstr" where "shown bs = takeWhile (\<lambda>c. c \<noteq> CHR 0x00) bs"

text \<open>The elements the calls on the list of partitions make, each with no offset yet.\<close>

fun list_elems :: "'h event \<Rightarrow> (cstr \<times> int \<times> int) list" where
  "list_elems (TplistAdd topic i) = [(topic, i, RD_KAFKA_OFFSET_INVALID)]"
| "list_elems (TplistAddRange topic start stop) = map (\<lambda>i. (topic, i, RD_KAFKA_OFFSET_INVALID)) [start..stop]"
| "list_elems _ = []"

record 'h consume_env =
  lib :: "'h env"
  env_watermarks :: "'h call list \<Rightarrow> int \<times> int \<times> int"
  env_committed :: "'h call list \<Rightarrow> int"
  env_consume_start :: "'h call list \<Rightarrow> int"
  env_consume :: "'h call list \<Rightarrow> 'h message option"

subsection \<open>Callbacks\<close>

definition tplist_cb :: "'h consume_env \<Rightarrow> cstr \<times> int \<times> int \<Rightarrow> 'h call list \<Rightarrow> bool \<times> 'h call list" where
  "tplist_cb env tp tr =
     (case tp of (topic, part, offset) \<Rightarrow>
        (let tr = tr @ [Line (PartitionLine topic part (ju offset))];
             (err, offlow, offhigh) = env_watermarks env tr;
             tr = tr @ [QueryWatermarks topic part err] in
         (True, tr @ [Line (if err = 0 then WatermarkLine (ju offlow) (ju offhigh) else WatermarkFailed err)])))"

text \<open>\<open>rd_kafka_topic_name\<close> reads the topic it is given.\<close>

definition consume_message :: "'h message \<Rightarrow> 'h line list option" where
  "consume_message m =
     (if m_err m \<noteq> 0 \<and> m_err m = RD_KAFKA_RESP_ERR__PARTITION_EOF then do {
        t \<leftarrow> m_rkt m;
        Some [EofLine t (m_partition m) (ju (m_offset m))] }
      else do {
        let err = (if m_err m \<noteq> 0 then
                     (case m_rkt m of
                        Some t \<Rightarrow> [TopicErrorLine t (m_partition m) (ju (m_offset m)) (m_err m)]
                      | None \<Rightarrow> [ErrorLine (m_err m)])
                   else []);
        t \<leftarrow> m_rkt m;
        Some (err @ [MessageLine t (m_partition m) (ju (m_offset m)) (length (m_payload m)) (shown (m_payload m))
          (if m_key m \<noteq> [] then Some (shown (m_key m)) else None)]) })"

subsection \<open>The program\<close>

definition consume_round :: "'h consume_env \<Rightarrow> 'h call list \<Rightarrow> 'h call list option" where
  "consume_round env tr =
     (let tr = tr @ [PollEvents];
          rkmessage = env_consume env tr;
          tr = tr @ [Consume rkmessage] in
      case rkmessage of
        None \<Rightarrow> Some tr
      | Some m \<Rightarrow> do {
          ls \<leftarrow> consume_message m;
          Some (tr @ map Line ls @ [MessageDestroy m]) })"

fun consume_rounds :: "'h consume_env \<Rightarrow> nat \<Rightarrow> 'h call list \<Rightarrow> 'h call list option" where
  "consume_rounds env 0 tr = Some tr"
| "consume_rounds env (Suc n) tr = do { tr \<leftarrow> consume_round env tr; consume_rounds env n tr }"

text \<open>How \<open>main\<close> ends: by \<open>exit\<close>, by its last statement, or not at all, in the loop.\<close>

datatype 'h outcome = Exits int "'h call list" | Returns int "'h call list" | Loops "'h consumer" 'h "'h call list"

definition consume_props :: "(cstr \<times> cstr) list" where
  "consume_props = [(''offset.store.method'', ''broker''), (''auto.offset.reset'', ''earliest''),
     (''enable.partition.eof'', ''false'')]"

definition consume_start :: "'h consume_env \<Rightarrow> (cstr \<times> int \<times> int) list \<Rightarrow> 'h consumer \<Rightarrow> 'h \<Rightarrow> 'h call list \<Rightarrow> 'h outcome" where
  "consume_start env tplist c rktopic tr =
     (let tr = tr @ [Line CreateSuccess];
          tr = kafkatools_list_topic_partitions (tplist_cb env) tplist tr;
          err = env_committed env tr;
          tr = tr @ [QueryCommitted err] @ (if err \<noteq> 0 then [Line (CommittedFailed err)] else []);
          partitionid = 0;
          offsetln = RD_KAFKA_OFFSET_BEGINNING;
          err = env_consume_start env tr;
          tr = tr @ [ConsumeStart rktopic partitionid offsetln err] in
      if err \<noteq> 0 then Exits 0 (tr @ [Line (StartFailed err)]) else Loops c rktopic tr)"

definition main :: "'h consume_env \<Rightarrow> 'h rbstate \<Rightarrow> 'h outcome option" where
  "main env mem = do {
     (ret, consumer, tr) \<leftarrow> kafkatools_consumer_create (lib env) (Some ''mytest_group2'') (Some ''192.168.39.111:9092'')
       (Some consume_props) (Some [''test:0-7'']) NULL mem [];
     if ret \<noteq> KAFKATOOLS_SUCCESS then Some (Returns 0 (map Lib tr @ [Line CreateError]))
     else do {
       c \<leftarrow> consumer;
       let tplist = concat (map list_elems tr);
       let (topic_conf, c, tr) = kafkatools_consumer_new_topic_conf (lib env) c (Some (take 2 consume_props)) tr;
       if \<not> topic_conf then
         Some (Exits (- 1) (map Lib tr @ [Line (TopicConfFailed (fst (kafkatools_consumer_get_errstr c)))]))
       else do {
         (rktopic, c, tr) \<leftarrow> kafkatools_consumer_get_topic (lib env) c ''test'' topic_conf tr;
         case rktopic of
           None \<Rightarrow> Some (Exits (- 1) (map Lib tr @ [Line (TopicFailed (fst (kafkatools_consumer_get_errstr c)))]))
         | Some t \<Rightarrow> Some (consume_start env tplist c t (map Lib tr)) } } }"

subsection \<open>What the rounds do\<close>

fun taken :: "'h call list \<Rightarrow> 'h message list" where
  "taken [] = []"
| "taken (Consume (Some m) # tr) = m # taken tr"
| "taken (_ # tr) = taken tr"

fun destroyed :: "'h call list \<Rightarrow> 'h message list" where
  "destroyed [] = []"
| "destroyed (MessageDestroy m # tr) = m # destroyed tr"
| "destroyed (_ # tr) = destroyed tr"

lemma taken_append [simp]: "taken (tr @ tr') = taken tr @ taken tr'"
  by (induction tr rule: taken.induct) simp_all

lemma destroyed_append [simp]: "destroyed (tr @ tr') = destroyed tr @ destroyed tr'"
  by (induction tr rule: destroyed.induct) simp_all

lemma lines_neutral [simp]: "taken (map Line ls) = []" "destroyed (map Line ls) = []"
  by (induction ls) simp_all

lemma consume_message_returns: "(\<exists>ls. consume_message m = Some ls) \<longleftrightarrow> m_rkt m \<noteq> None"
  by (auto simp: consume_message_def Let_def split: option.splits)

lemma consume_round_ok:
  assumes "\<forall>tr m. env_consume env tr = Some m \<longrightarrow> m_rkt m \<noteq> None"
  shows "\<exists>ev. consume_round env tr = Some (tr @ ev) \<and> destroyed ev = taken ev"
proof (cases "env_consume env (tr @ [PollEvents])")
  case None
  then show ?thesis by (simp add: consume_round_def)
next
  case (Some m)
  then obtain ls where "consume_message m = Some ls" using assms consume_message_returns [of m] by blast
  then show ?thesis using Some by (simp add: consume_round_def)
qed

text \<open>
  C28: As long as every message that librdkafka hands out belongs to a topic, any number of rounds
  of the sample consumer runs through, and every message it takes is given back exactly once, in
  the order taken.  A message without a topic, as librdkafka makes for errors of the whole
  client, is read through a null pointer.
\<close>

theorem consume_rounds_balanced:
  assumes "\<forall>tr m. env_consume env tr = Some m \<longrightarrow> m_rkt m \<noteq> None"
  shows "(\<exists>ev. consume_rounds env n tr = Some (tr @ ev) \<and> destroyed ev = taken ev) \<and>
    (\<forall>m. m_rkt m = None \<longrightarrow> consume_message m = None)"
proof
  show "\<exists>ev. consume_rounds env n tr = Some (tr @ ev) \<and> destroyed ev = taken ev"
  proof (induction n arbitrary: tr)
    case (Suc n)
    obtain ev where ev: "consume_round env tr = Some (tr @ ev)" "destroyed ev = taken ev"
      using consume_round_ok [OF assms] by blast
    obtain ev' where "consume_rounds env n (tr @ ev) = Some ((tr @ ev) @ ev')" "destroyed ev' = taken ev'"
      using Suc.IH by blast
    then show ?case using ev by (intro exI [of _ "ev @ ev'"]) simp
  qed simp
  show "\<forall>m. m_rkt m = None \<longrightarrow> consume_message m = None"
    by (simp add: consume_message_def)
qed

definition ex_message :: "cstr message" where
  "ex_message = \<lparr>m_err = 0, m_rkt = Some ''test'', m_partition = 0, m_offset = 5, m_payload = ''hi'', m_key = []\<rparr>"

definition ex_consume_env :: "cstr consume_env" where
  "ex_consume_env = \<lparr>lib = ex_env, env_watermarks = (\<lambda>_. (0, 0, 6)), env_committed = (\<lambda>_. 0), env_consume_start = (\<lambda>_. 0),
     env_consume = (\<lambda>_. Some ex_message)\<rparr>"

theorem consume_rounds_balanced_witness:
  "\<exists>ev. consume_rounds ex_consume_env 3 [] = Some ev \<and> destroyed ev = taken ev \<and> consume_message ex_message \<noteq> None"
  using consume_rounds_balanced [of ex_consume_env 3 "[]"]
  by (auto simp: ex_consume_env_def ex_message_def consume_message_def)

subsection \<open>What is listed\<close>

text \<open>Only the topics make elements of the list.\<close>

definition no_elems :: "'h trace \<Rightarrow> bool" where "no_elems ev \<longleftrightarrow> concat (map list_elems ev) = []"

lemma set_property_no_elems:
  "set_property env name val tr = (res, tr') \<Longrightarrow> \<exists>ev. tr' = tr @ ev \<and> no_elems ev"
  by (auto simp: set_property_def no_elems_def Let_def split: if_splits)

lemma properties_loop_no_elems:
  "properties_loop env n props tr = (ok, tr') \<Longrightarrow> \<exists>ev. tr' = tr @ ev \<and> no_elems ev"
proof (induction env n props tr arbitrary: ok tr' rule: properties_loop.induct)
  case (3 env n name val props tr)
  obtain res tr1 where s: "set_property env name val tr = (res, tr1)" by fastforce
  then obtain e where e: "tr1 = tr @ e" "no_elems e" using set_property_no_elems by blast
  show ?case
  proof (cases "res = RD_KAFKA_CONF_OK")
    case True
    then have "properties_loop env n props tr1 = (ok, tr')" using 3(2) s by simp
    from 3(1) [OF s [symmetric] _ this] True obtain ev where "tr' = tr1 @ ev" "no_elems ev" by auto
    then show ?thesis using e by (intro exI [of _ "e @ ev"]) (simp add: no_elems_def)
  next
    case False
    then show ?thesis using 3(2) s e by auto
  qed
qed (auto simp: no_elems_def)

lemma stages_no_elems:
  "set_properties env props tr = (ok, tr') \<Longrightarrow> \<exists>ev. tr' = tr @ ev \<and> no_elems ev"
  "set_group env groupid tr = (ok, tr') \<Longrightarrow> \<exists>ev. tr' = tr @ ev \<and> no_elems ev"
  "add_brokers env brokers tr = (ok, tr') \<Longrightarrow> \<exists>ev. tr' = tr @ ev \<and> no_elems ev"
  by (auto simp: set_properties_def set_group_def add_brokers_def Let_def no_elems_def
      split: option.splits dest!: properties_loop_no_elems)

lemma on_error_none: "on_error_result env e c l tr = Some (code, out, tr') \<Longrightarrow> code = e \<and> out = None"
  by (auto simp: on_error_result_def bind_eq_Some_conv)

lemma create_client_elems:
  assumes "create_client env brokers opq c l tr = Some (code, Some c', tr')"
  shows "\<exists>ev. tr' = tr @ ev \<and> no_elems ev"
proof -
  obtain ok t where a: "add_brokers env brokers (tr @ [ConfSetDefaultTopicConf, KafkaNew True]) = (ok, t)" by fastforce
  then obtain ev where "t = (tr @ [ConfSetDefaultTopicConf, KafkaNew True]) @ ev" "no_elems ev"
    using stages_no_elems(3) by blast
  then show ?thesis
    using assms a by (auto simp: create_client_def Let_def no_elems_def dest!: on_error_none split: if_splits)
qed

lemma create_conf_elems:
  assumes "create_conf env groupid brokers props opq c l tr = Some (code, Some c', tr')"
  shows "\<exists>ev. tr' = tr @ ev \<and> no_elems ev"
proof -
  define t0 where "t0 = tr @ [ConfNew True, TopicConfNew True, TopicConfSetOpaque,
    ConfSet ''enable.partition.eof'' ''true'' (env_conf_set env (tr @ [ConfNew True, TopicConfNew True, TopicConfSetOpaque])
      ''enable.partition.eof'' ''true'')]"
  obtain ok1 t1 where p: "set_properties env props t0 = (ok1, t1)" by fastforce
  obtain ok2 t2 where g: "set_group env groupid t1 = (ok2, t2)" by fastforce
  define l' where "l' = l\<lparr>l_conf := True, l_topic_conf := True\<rparr>"
  have "create_client env brokers opq c l' t2 = Some (code, Some c', tr')"
    using assms p g by (auto simp: create_conf_def Let_def t0_def l'_def dest!: on_error_none split: if_splits)
  from create_client_elems [OF this] stages_no_elems(1) [OF p] stages_no_elems(2) [OF g]
  obtain e1 e2 e3 where "tr' = t0 @ e1 @ e2 @ e3" "no_elems e1" "no_elems e2" "no_elems e3" by auto
  then show ?thesis by (auto simp: t0_def no_elems_def)
qed

lemma sample_topics:
  fixes tr :: "'h trace"
  shows "set_topics (Some [''test:0-7'']) tr = (None, tr @ [TplistAddRange ''test'' 0 7])"
proof -
  have "strchr ''test:0-7'' (CHR '':'') = Some '':0-7''" "strchr '':0-7'' (CHR ''-'') = Some ''-7''"
    "atoi '':0'' = 0" "atoi ''7'' = 7"
    by code_simp+
  then have e: "topic_entry ''test:0-7'' = (Inr (TplistAddRange ''test'' 0 7) :: int + 'h event)"
    by (simp add: topic_entry_def KAFKATOOLS_TOPIC_NAMELEN_def)
  have n: "KAFKATOOLS_TOPICS_MAX = Suc (Suc 1022)" by (simp add: KAFKATOOLS_TOPICS_MAX_def)
  show ?thesis by (simp only: set_topics_def n topics_loop.simps e option.case sum.case)
qed

lemma create_elems:
  assumes "kafkatools_consumer_create env groupid brokers props (Some [''test:0-7'']) opq mem [] = Some (code, Some c, tr)"
  shows "concat (map list_elems tr) = map (\<lambda>i. (''test'', i, RD_KAFKA_OFFSET_INVALID)) [0..7]"
proof -
  obtain c0 l where
    "create_conf env groupid brokers props opq c0 l [Alloc True, TplistNew True, TplistAddRange ''test'' 0 7] = Some (code, Some c, tr)"
    using assms by (auto simp: kafkatools_consumer_create_def Let_def sample_topics dest!: on_error_none split: if_splits)
  from create_conf_elems [OF this] show ?thesis by (auto simp: no_elems_def)
qed

fun listed :: "'h call list \<Rightarrow> (cstr \<times> int \<times> int) list" where
  "listed [] = []"
| "listed (Line (PartitionLine topic i off) # tr) = (topic, i, off) # listed tr"
| "listed (_ # tr) = listed tr"

lemma listed_append [simp]: "listed (tr @ tr') = listed tr @ listed tr'"
  by (induction tr rule: listed.induct) simp_all

lemma listed_lib [simp]: "listed (map Lib tr) = []"
  by (induction tr) simp_all

lemma list_partitions_listed:
  "listed (kafkatools_list_topic_partitions (tplist_cb env) tps tr) =
     listed tr @ map (\<lambda>(topic, i, off). (topic, i, ju off)) tps"
  by (induction tps arbitrary: tr) (auto simp: tplist_cb_def Let_def split: prod.splits)

text \<open>
  C29: When the sample program reaches its loop, it has listed exactly the partitions 0 to 7 of the
  topic it was given as \<open>test:0-7\<close>, each with the offset that stands for no offset printed as a
  number near two to the 64, and consuming has been started on partition 0 from the beginning.
\<close>

theorem main_lists_partitions:
  assumes "main env mem = Some (Loops c t tr)"
  shows "listed tr = map (\<lambda>i. (''test'', i, 2 ^ 64 - 1001)) [0..7] \<and>
    last tr = ConsumeStart t 0 RD_KAFKA_OFFSET_BEGINNING 0"
proof -
  obtain ret con tr0 where cr: "kafkatools_consumer_create (lib env) (Some ''mytest_group2'') (Some ''192.168.39.111:9092'')
      (Some consume_props) (Some [''test:0-7'']) NULL mem [] = Some (ret, con, tr0)"
    using assms by (auto simp: main_def bind_eq_Some_conv)
  then obtain c0 where c0: "con = Some c0"
    using assms by (cases con) (auto simp: main_def split: if_splits)
  obtain ok c1 tr1 where tc: "kafkatools_consumer_new_topic_conf (lib env) c0 (Some (take 2 consume_props)) tr0 = (ok, c1, tr1)"
    by (metis prod_cases3)
  obtain r c2 tr2 where "consume_start env (concat (map list_elems tr0)) c2 r (map Lib tr2) = Loops c t tr"
    using assms cr c0 tc
    by (auto simp: main_def bind_eq_Some_conv split: if_splits option.splits)
  then have st: "consume_start env (concat (map list_elems tr0)) c2 t (map Lib tr2) = Loops c t tr"
    by (auto simp: consume_start_def Let_def split: if_splits)
  show ?thesis
    using st unfolding create_elems [OF cr [unfolded c0]]
    by (auto simp: consume_start_def Let_def list_partitions_listed ju_def RD_KAFKA_OFFSET_INVALID_def split: if_splits)
qed

lemma sample_loops: "case main ex_consume_env ex_mem of Some (Loops c t tr) \<Rightarrow> t = ''test'' | _ \<Rightarrow> False"
  by code_simp

theorem main_lists_partitions_witness:
  "\<exists>c tr. main ex_consume_env ex_mem = Some (Loops c ''test'' tr) \<and> length (listed tr) = 8 \<and>
     last tr = ConsumeStart ''test'' 0 (- 2) 0"
proof -
  obtain c tr where m: "main ex_consume_env ex_mem = Some (Loops c ''test'' tr)"
    using sample_loops by (auto split: option.splits outcome.splits)
  show ?thesis
    using main_lists_partitions [OF m] m by (simp add: RD_KAFKA_OFFSET_BEGINNING_def)
qed

end
