(* ===== verification/RK_Base.thy ===== *)
theory RK_Base
  imports KT_Prelude
begin

section \<open>Bytes and words of librdkafka\<close>

text \<open>
  The types and the facts on bits that the theories on \<open>src/librdkafka-1.4.2/src\<close> share.
\<close>

unbundle bit_operations_syntax

type_synonym byte = "8 word"
type_synonym u32 = "32 word"
type_synonym u64 = "64 word"

text \<open>An unsigned number from its bytes in little-endian order.\<close>

fun le_bytes :: "byte list \<Rightarrow> 'a::len word" where
  "le_bytes [] = 0"
| "le_bytes (b # bs) = ucast b OR push_bit 8 (le_bytes bs)"

lemma word_bit_eqI: "(\<And>n. n < LENGTH('a) \<Longrightarrow> bit v n = bit w n) \<Longrightarrow> v = w" for v w :: "'a::len word"
  by (rule bit_word_eqI) simp

end
