(* ===== verification/KT_Mem.thy ===== *)
theory KT_Mem
  imports CString RK_Base
begin

section \<open>The memory interface\<close>

text \<open>
  \<open>src/src/common/memapi.h\<close> over a heap of blocks: an address maps to the bytes of its block, where
  \<open>None\<close> is a byte that was never written.  The allocator answers from the heap and the size
  whether it gives a block; a block is at a fresh address.  \<open>None\<close> as a result is the end of the
  process, after the message about memory, or a call whose effect is undefined.
\<close>

type_synonym block = "byte option list"

record mheap =
  blocks :: "ptr \<rightharpoonup> block"
  fresh :: ptr

definition mheap_ok :: "mheap \<Rightarrow> bool" where
  "mheap_ok h \<longleftrightarrow> NULL < fresh h \<and> (\<forall>p \<in> dom (blocks h). NULL < p \<and> p < fresh h)"

subsection \<open>The allocator of the system\<close>

definition new_block :: "block \<Rightarrow> mheap \<Rightarrow> ptr \<times> mheap" where
  "new_block b h = (fresh h, h\<lparr>blocks := (blocks h)(fresh h \<mapsto> b), fresh := fresh h + length b + 1\<rparr>)"

definition malloc :: "(mheap \<Rightarrow> u64 \<Rightarrow> bool) \<Rightarrow> u64 \<Rightarrow> mheap \<Rightarrow> ptr \<times> mheap" where
  "malloc gives sz h = (if gives h sz then new_block (replicate (unat sz) None) h else (NULL, h))"

definition calloc :: "(mheap \<Rightarrow> u64 \<Rightarrow> bool) \<Rightarrow> u64 \<Rightarrow> u64 \<Rightarrow> mheap \<Rightarrow> ptr \<times> mheap" where
  "calloc gives nmemb sz h =
     (if unat nmemb * unat sz < 2 ^ 64 \<and> gives h (nmemb * sz) then new_block (replicate (unat (nmemb * sz)) (Some 0)) h
      else (NULL, h))"

text \<open>With the size 0 the block is freed and the answer is a null pointer.\<close>

definition realloc :: "(mheap \<Rightarrow> u64 \<Rightarrow> bool) \<Rightarrow> ptr \<Rightarrow> u64 \<Rightarrow> mheap \<Rightarrow> (ptr \<times> mheap) option" where
  "realloc gives p sz h =
     (if p = NULL then Some (malloc gives sz h)
      else do {
        b \<leftarrow> blocks h p;
        if sz = 0 then Some (NULL, h\<lparr>blocks := (blocks h)(p := None)\<rparr>)
        else if gives h sz then
          Some (new_block (take (unat sz) b @ replicate (unat sz - length b) None) (h\<lparr>blocks := (blocks h)(p := None)\<rparr>))
        else Some (NULL, h) })"

definition free_block :: "ptr \<Rightarrow> mheap \<Rightarrow> mheap option" where
  "free_block p h = (if p \<in> dom (blocks h) then Some (h\<lparr>blocks := (blocks h)(p := None)\<rparr>) else None)"

definition read_bytes :: "ptr \<Rightarrow> nat \<Rightarrow> mheap \<Rightarrow> byte list option" where
  "read_bytes p n h = do {
     b \<leftarrow> blocks h p;
     if n \<le> length b \<and> None \<notin> set (take n b) then Some (map the (take n b)) else None }"

definition write_bytes :: "ptr \<Rightarrow> byte list \<Rightarrow> mheap \<Rightarrow> mheap option" where
  "write_bytes p bs h = do {
     b \<leftarrow> blocks h p;
     if length bs \<le> length b
     then Some (h\<lparr>blocks := (blocks h)(p \<mapsto> map Some bs @ drop (length bs) b)\<rparr>) else None }"

subsection \<open>The functions of the header\<close>

definition memapi_align_bsize :: "u64 \<Rightarrow> u64 \<Rightarrow> u64" where
  "memapi_align_bsize bsz alignsize = ((bsz + alignsize - 1) div alignsize) * alignsize"

definition memapi_align_psize :: "u64 \<Rightarrow> u64" where
  "memapi_align_psize psz = memapi_align_bsize psz 8"

definition memapi_oom_check :: "ptr \<times> 'a \<Rightarrow> (ptr \<times> 'a) option" where
  "memapi_oom_check r = (if fst r = NULL then None else Some r)"

text \<open>The conversion of the \<open>int\<close> to \<open>size_t\<close> extends its sign.\<close>

definition mem_alloc_zero :: "(mheap \<Rightarrow> u64 \<Rightarrow> bool) \<Rightarrow> int \<Rightarrow> u64 \<Rightarrow> mheap \<Rightarrow> (ptr \<times> mheap) option" where
  "mem_alloc_zero gives nmemb sz h = memapi_oom_check (calloc gives (word_of_int nmemb) sz h)"

definition mem_alloc_unset :: "(mheap \<Rightarrow> u64 \<Rightarrow> bool) \<Rightarrow> u64 \<Rightarrow> mheap \<Rightarrow> (ptr \<times> mheap) option" where
  "mem_alloc_unset gives sz h = memapi_oom_check (malloc gives sz h)"

definition mem_realloc :: "(mheap \<Rightarrow> u64 \<Rightarrow> bool) \<Rightarrow> ptr \<Rightarrow> u64 \<Rightarrow> mheap \<Rightarrow> (ptr \<times> mheap) option" where
  "mem_realloc gives p sz h = do { r \<leftarrow> realloc gives p sz h; memapi_oom_check r }"

text \<open>\<open>strlen\<close> over a block: the bytes up to the first zero, all of them written.\<close>

definition block_string :: "ptr \<Rightarrow> mheap \<Rightarrow> byte list option" where
  "block_string p h = do {
     b \<leftarrow> blocks h p;
     let s = takeWhile (\<lambda>x. x \<noteq> Some 0) b;
     if length s < length b \<and> None \<notin> set s then Some (map the s) else None }"

definition mem_strdup :: "(mheap \<Rightarrow> u64 \<Rightarrow> bool) \<Rightarrow> ptr \<Rightarrow> mheap \<Rightarrow> (ptr \<times> mheap) option" where
  "mem_strdup gives s h =
     (if s \<noteq> NULL then do {
        str \<leftarrow> block_string s h;
        let sz = length str + 1;
        (d, h) \<leftarrow> mem_alloc_unset gives (of_nat sz) h;
        bs \<leftarrow> read_bytes s sz h;
        h \<leftarrow> write_bytes d bs h;
        Some (d, h) }
      else Some (NULL, h))"

definition mem_free :: "ptr \<Rightarrow> mheap \<Rightarrow> mheap option" where
  "mem_free p h = (if p \<noteq> NULL then free_block p h else Some h)"

text \<open>The variable \<open>pptr\<close> points to, if it is not null, and its new value.\<close>

definition mem_free_s :: "ptr option \<Rightarrow> mheap \<Rightarrow> (ptr option \<times> mheap) option" where
  "mem_free_s pptr h =
     (case pptr of
        None \<Rightarrow> Some (None, h)
      | Some p \<Rightarrow>
          if p \<noteq> NULL then do { h \<leftarrow> free_block p h; Some (Some NULL, h) }
          else Some (Some NULL, h))"

text \<open>
  A small buffer with its header in front: whether \<open>freebufcb\<close> is set, the size, and the block for
  a buffer that is not on the stack.
\<close>

record alloca_buf_t =
  freebufcb :: bool
  bufsize :: u64
  albuf :: ptr

definition alloca_buf_new ::
    "(mheap \<Rightarrow> u64 \<Rightarrow> bool) \<Rightarrow> bool \<Rightarrow> u64 \<Rightarrow> mheap \<Rightarrow> (alloca_buf_t \<times> mheap) option" where
  "alloca_buf_new gives enable_alloca smallbufsize h =
     (let bsz = memapi_align_psize smallbufsize in
      if enable_alloca then Some (\<lparr>freebufcb = False, bufsize = bsz, albuf = NULL\<rparr>, h)
      else do {
        (p, h) \<leftarrow> mem_alloc_unset gives (16 + bsz) h;
        Some (\<lparr>freebufcb = True, bufsize = bsz, albuf = p\<rparr>, h) })"

definition alloca_buf_free :: "alloca_buf_t \<Rightarrow> mheap \<Rightarrow> mheap option" where
  "alloca_buf_free buf h = (if freebufcb buf then mem_free (albuf buf) h else Some h)"

subsection \<open>What they keep\<close>

lemma new_block_ok:
  assumes "mheap_ok h" "new_block b h = (p, h')"
  shows "NULL < p \<and> p \<notin> dom (blocks h) \<and> blocks h' = (blocks h)(p \<mapsto> b) \<and> mheap_ok h'"
proof -
  have p: "p = fresh h" "h' = h\<lparr>blocks := (blocks h)(fresh h \<mapsto> b), fresh := fresh h + length b + 1\<rparr>"
    using assms(2) by (auto simp: new_block_def)
  have h: "NULL < fresh h" "\<And>q y. blocks h q = Some y \<Longrightarrow> NULL < q" "\<And>q y. blocks h q = Some y \<Longrightarrow> q < fresh h"
    using assms(1) by (auto simp: mheap_ok_def)
  then show ?thesis unfolding p mheap_ok_def by (auto intro!: less_SucI trans_less_add1)
qed

lemma free_ok: "mheap_ok h \<Longrightarrow> mheap_ok (h\<lparr>blocks := (blocks h)(p := None)\<rparr>)"
  by (auto simp: mheap_ok_def)

text \<open>The bytes of the old block that are kept.\<close>

lemma realloc_block:
  assumes "mheap_ok h" "blocks h p = Some b" "mem_realloc gives p sz h = Some (q, h')"
  shows "sz \<noteq> 0 \<and> blocks h' q = Some (take (unat sz) b @ replicate (unat sz - length b) None) \<and>
    (\<forall>r. r \<noteq> p \<longrightarrow> r \<noteq> q \<longrightarrow> blocks h' r = blocks h r) \<and> (p \<noteq> q \<longrightarrow> blocks h' p = None) \<and> mheap_ok h'"
proof -
  have p: "p \<noteq> NULL" using assms(1,2) by (auto simp: mheap_ok_def)
  then have *: "sz \<noteq> 0" "new_block (take (unat sz) b @ replicate (unat sz - length b) None)
      (h\<lparr>blocks := (blocks h)(p := None)\<rparr>) = (q, h')"
    using assms(2,3) by (auto simp: mem_realloc_def realloc_def memapi_oom_check_def split: if_splits)
  show ?thesis using new_block_ok [OF free_ok [OF assms(1)] *(2)] *(1) by auto
qed

lemma write_ok: "mheap_ok h \<Longrightarrow> blocks h p = Some b \<Longrightarrow> mheap_ok (h\<lparr>blocks := (blocks h)(p \<mapsto> b')\<rparr>)"
  by (auto simp: mheap_ok_def)

lemma map_Some_the: "None \<notin> set xs \<Longrightarrow> map Some (map the xs) = xs"
  by (induction xs) auto

lemma strdup_block:
  assumes "mheap_ok h" "block_string s h = Some str" "length str + 1 < 2 ^ 64" "gives h (of_nat (length str + 1))"
  shows "\<exists>d h'. mem_strdup gives s h = Some (d, h') \<and> d \<notin> dom (blocks h) \<and>
    blocks h' = (blocks h)(d \<mapsto> map Some (str @ [0])) \<and> mheap_ok h'"
proof -
  obtain b where b: "blocks h s = Some b" "length (takeWhile (\<lambda>x. x \<noteq> Some 0) b) < length b"
    "None \<notin> set (takeWhile (\<lambda>x. x \<noteq> Some 0) b)" "str = map the (takeWhile (\<lambda>x. x \<noteq> Some 0) b)"
    using assms(2) by (auto simp: block_string_def Let_def bind_eq_Some_conv split: if_splits)
  let ?s = "takeWhile (\<lambda>x. x \<noteq> Some 0) b"
  have len: "length str = length ?s" using b(4) by simp
  have "b ! length ?s = Some 0" using nth_length_takeWhile [OF b(2)] by simp
  then have take: "take (length str + 1) b = ?s @ [Some 0]"
    unfolding len using take_Suc_conv_app_nth [OF b(2)] takeWhile_eq_take [of _ b] by simp
  obtain d h1 where d: "new_block (replicate (length str + 1) None) h = (d, h1)"
    by (cases "new_block (replicate (length str + 1) None) h")
  from new_block_ok [OF assms(1) d] have nb: "NULL < d" "d \<notin> dom (blocks h)" "mheap_ok h1"
    and h1: "blocks h1 = (blocks h)(d \<mapsto> replicate (length str + 1) None)" by blast+
  have un: "unat (of_nat (length str + 1) :: u64) = length str + 1"
    using assms(3) unfolding unat_of_nat by simp
  have sd: "s \<noteq> d" "s \<noteq> NULL" using b(1) nb(2) assms(1) unfolding mheap_ok_def by auto
  have alloc: "mem_alloc_unset gives (of_nat (length str + 1)) h = Some (d, h1)"
    unfolding mem_alloc_unset_def malloc_def un d memapi_oom_check_def using assms(4) nb(1) by simp
  have bs: "blocks h1 s = Some b" "length str + 1 \<le> length b" using h1 sd(1) b(1,2) len by simp_all
  have "map Some str = ?s" unfolding b(4) by (rule map_Some_the [OF b(3)])
  then have taken: "take (length str + 1) b = map Some (str @ [0])" unfolding take by simp
  define sz where "sz = length str + 1"
  have read: "read_bytes s sz h1 = Some (str @ [0])"
    unfolding read_bytes_def bs(1) using bs(2) taken unfolding sz_def [symmetric] by (auto simp: comp_def)
  have bd: "blocks h1 d = Some (replicate sz None)" unfolding h1 sz_def by simp
  define h2 where "h2 = h1\<lparr>blocks := (blocks h1)(d \<mapsto> map Some (str @ [0]))\<rparr>"
  have wr: "write_bytes d (str @ [0]) h1 = Some h2"
    unfolding write_bytes_def bd h2_def by (simp add: sz_def)
  have "mem_strdup gives s h = Some (d, h2)"
    using sd(2) unfolding mem_strdup_def assms(2) bind.simps Let_def alloc
    unfolding sz_def [symmetric] by (simp add: read wr)
  moreover have "mheap_ok h2" unfolding h2_def by (rule write_ok [OF nb(3) bd])
  moreover have "blocks h2 = (blocks h)(d \<mapsto> map Some (str @ [0]))" unfolding h2_def h1 by simp
  ultimately show ?thesis using nb(2) by blast
qed

subsection \<open>Alignment\<close>

lemma round_up:
  fixes a :: nat
  assumes "0 < a"
  shows "x \<le> (x + a - 1) div a * a \<and> (x + a - 1) div a * a < x + a"
proof -
  have "(x + a - 1) div a * a = x + a - 1 - (x + a - 1) mod a" by (simp add: minus_mod_eq_div_mult)
  moreover have "(x + a - 1) mod a < a" using assms by simp
  ultimately show ?thesis using assms by linarith
qed

lemma align_nat:
  assumes "0 < alignsize" "unat bsz + unat alignsize - 1 < 2 ^ 64"
  shows "unat (memapi_align_bsize bsz alignsize) = ((unat bsz + unat alignsize - 1) div unat alignsize) * unat alignsize"
proof -
  have a: "0 < unat alignsize" using assms(1) by (simp add: unat_gt_0)
  have "bsz + alignsize - 1 = of_nat (unat bsz + unat alignsize - 1)"
    using a by (simp add: of_nat_diff)
  then have s: "unat (bsz + alignsize - 1) = unat bsz + unat alignsize - 1"
    using assms(2) by (simp add: unat_of_nat)
  define n where "n = unat bsz + unat alignsize - 1"
  have n: "n div unat alignsize * unat alignsize \<le> n" "n div unat alignsize \<le> n" "n < 2 ^ 64"
    using assms(2) unfolding n_def [symmetric] by (simp_all add: div_le_dividend)
  have "unat (memapi_align_bsize bsz alignsize) = n div unat alignsize * unat alignsize mod 2 ^ 64"
    unfolding memapi_align_bsize_def unat_word_ariths(2) unat_div s n_def by simp
  also have "\<dots> = n div unat alignsize * unat alignsize"
    by (rule mod_less) (use n in linarith)
  finally show ?thesis unfolding n_def .
qed

text \<open>
  C30: Rounding a size up to a multiple of the alignment gives the least multiple that is not
  smaller, as long as the sum fits in 64 bits; a reallocated block keeps its bytes up to the
  smaller of the two sizes and no other block changes; a duplicated string is a fresh block with
  the characters and the terminating zero.
\<close>

theorem memapi_correct:
  assumes "mheap_ok h"
  shows "(0 < alignsize \<longrightarrow> unat bsz + unat alignsize - 1 < 2 ^ 64 \<longrightarrow>
      unat alignsize dvd unat (memapi_align_bsize bsz alignsize) \<and> unat bsz \<le> unat (memapi_align_bsize bsz alignsize) \<and>
      unat (memapi_align_bsize bsz alignsize) < unat bsz + unat alignsize) \<and>
    (blocks h p = Some b \<longrightarrow> mem_realloc gives p sz h = Some (q, h') \<longrightarrow>
      blocks h' q = Some (take (unat sz) b @ replicate (unat sz - length b) None) \<and>
      (\<forall>r. r \<noteq> p \<longrightarrow> r \<noteq> q \<longrightarrow> blocks h' r = blocks h r) \<and> mheap_ok h') \<and>
    (block_string s h = Some str \<longrightarrow> length str + 1 < 2 ^ 64 \<longrightarrow> gives h (of_nat (length str + 1)) \<longrightarrow>
      (\<exists>d h'. mem_strdup gives s h = Some (d, h') \<and> d \<notin> dom (blocks h) \<and>
        blocks h' = (blocks h)(d \<mapsto> map Some (str @ [0])) \<and> mheap_ok h'))"
proof (intro conjI impI)
  assume a: "0 < alignsize" "unat bsz + unat alignsize - 1 < 2 ^ 64"
  have pos: "0 < unat alignsize" using a(1) by (simp add: unat_gt_0)
  note eq = align_nat [OF a]
  show "unat alignsize dvd unat (memapi_align_bsize bsz alignsize)" unfolding eq by simp
  from round_up [OF pos, of "unat bsz"]
  show "unat bsz \<le> unat (memapi_align_bsize bsz alignsize)"
    "unat (memapi_align_bsize bsz alignsize) < unat bsz + unat alignsize"
    unfolding eq by blast+
next
  assume "blocks h p = Some b" "mem_realloc gives p sz h = Some (q, h')"
  from realloc_block [OF assms this]
  show "blocks h' q = Some (take (unat sz) b @ replicate (unat sz - length b) None)"
    "\<forall>r. r \<noteq> p \<longrightarrow> r \<noteq> q \<longrightarrow> blocks h' r = blocks h r" "mheap_ok h'" by blast+
next
  assume "block_string s h = Some str" "length str + 1 < 2 ^ 64" "gives h (of_nat (length str + 1))"
  then show "\<exists>d h'. mem_strdup gives s h = Some (d, h') \<and> d \<notin> dom (blocks h) \<and>
    blocks h' = (blocks h)(d \<mapsto> map Some (str @ [0])) \<and> mheap_ok h'"
    by (rule strdup_block [OF assms])
qed

definition ex_heap :: mheap where
  "ex_heap = \<lparr>blocks = [8 \<mapsto> map Some [104, 105, 0]], fresh = 16\<rparr>"

theorem memapi_correct_witness:
  "unat (memapi_align_bsize 13 8) < 21 \<and>
    (\<exists>d h'. mem_strdup (\<lambda>_ _. True) 8 ex_heap = Some (d, h') \<and> blocks h' d = Some (map Some [104, 105, 0]))"
proof -
  have ok: "mheap_ok ex_heap" by (simp add: mheap_ok_def ex_heap_def)
  have str: "block_string 8 ex_heap = Some [104, 105]" by (simp add: block_string_def ex_heap_def)
  note m = memapi_correct [OF ok, where alignsize = 8 and bsz = 13 and gives = "\<lambda>_ _. True" and s = 8 and str = "[104, 105]"]
  have "unat (memapi_align_bsize 13 8) < 21" using conjunct1 [OF m] by simp
  moreover obtain d h' where "mem_strdup (\<lambda>_ _. True) 8 ex_heap = Some (d, h')"
    "blocks h' = (blocks ex_heap)(d \<mapsto> map Some ([104, 105] @ [0]))"
    using conjunct2 [OF conjunct2 [OF m]] str by auto
  ultimately show ?thesis by auto
qed

text \<open>Near the end of the range the sum wraps around: a huge buffer has the size 0.\<close>

lemma align_wraps: "memapi_align_psize (- 1) = 0"
  by (simp add: memapi_align_psize_def memapi_align_bsize_def)

text \<open>Shrinking a block to nothing frees it and then ends the process.\<close>

lemma realloc_zero_exits: "blocks h p = Some b \<Longrightarrow> p \<noteq> NULL \<Longrightarrow> mem_realloc gives p 0 h = None"
  by (simp add: mem_realloc_def realloc_def memapi_oom_check_def)

end
