(* ===== verification/KT_Lock.thy ===== *)
theory KT_Lock
  imports KT_Prelude "HOL-Library.Multiset"
begin

section \<open>The read-write lock\<close>

text \<open>
  \<open>src/src/common/thread_rwlock.h\<close>: one interface over three locks, that of the thread library on
  Linux, and on Windows the slim lock, or a critical section where the system has no slim locks.
  The locks of the systems are given by their documented behaviour: what a call by a thread does
  to the state of the lock.  A call that would wait is \<open>None\<close>, as is a call through a null pointer
  and one whose effect is undefined; a thread that waits takes its step later, when the call is
  possible.
\<close>

type_synonym tid = nat

datatype RWLockStateEnum = RWLOCK_STATE_READ | RWLOCK_STATE_WRITE

subsection \<open>The locks of the systems\<close>

text \<open>Shared by \<open>pthread_rwlock_t\<close> and \<open>SRWLOCK\<close>: some readers or one writer.\<close>

datatype shared_lock = Readers nat | Writer tid









text \<open>A critical section: the thread inside and how many times it has entered.\<close>

type_synonym critsec = "(tid \<times> nat) option"

fun TryEnterCriticalSection :: "tid \<Rightarrow> critsec \<Rightarrow> bool \<times> critsec" where
  "TryEnterCriticalSection t None = (True, Some (t, 1))"
| "TryEnterCriticalSection t (Some (t', n)) = (if t = t' then (True, Some (t, Suc n)) else (False, Some (t', n)))"

fun EnterCriticalSection :: "tid \<Rightarrow> critsec \<Rightarrow> critsec option" where
  "EnterCriticalSection t None = Some (Some (t, 1))"
| "EnterCriticalSection t (Some (t', n)) = (if t = t' then Some (Some (t, Suc n)) else None)"


subsection \<open>The lock on Linux\<close>




subsection \<open>The lock on Windows\<close>

text \<open>The function pointers are booleans: whether the module exports the function.\<close>

record ThreadRWLock_t =
  srwLock :: shared_lock
  lpfnInitializeSRWLock :: bool
  lpfnAcquireSRWLockExclusive :: bool
  lpfnAcquireSRWLockShared :: bool
  lpfnReleaseSRWLockExclusive :: bool
  lpfnReleaseSRWLockShared :: bool
  lpfnTryAcquireSRWLockExclusive :: bool
  lpfnTryAcquireSRWLockShared :: bool
  critSec :: critsec
  lpfnInitializeCriticalSection :: bool
  lpfnDeleteCriticalSection :: bool
  lpfnEnterCriticalSection :: bool
  lpfnLeaveCriticalSection :: bool
  lpfnTryEnterCriticalSection :: bool

text \<open>\<open>GetProcAddress\<close> for \<open>kernel32.dll\<close>, or \<open>None\<close> when the module is not found.\<close>

definition RWLockInit_win :: "(string \<Rightarrow> bool) option \<Rightarrow> ThreadRWLock_t option" where
  "RWLockInit_win hModule =
     (let proc = (\<lambda>use name. case hModule of None \<Rightarrow> False | Some f \<Rightarrow> use \<and> f name);
          srw = proc True ''InitializeSRWLock'';
          lock = \<lparr>srwLock = Readers 0, lpfnInitializeSRWLock = srw,
            lpfnAcquireSRWLockExclusive = proc srw ''AcquireSRWLockExclusive'',
            lpfnAcquireSRWLockShared = proc srw ''AcquireSRWLockShared'',
            lpfnReleaseSRWLockExclusive = proc srw ''ReleaseSRWLockExclusive'',
            lpfnReleaseSRWLockShared = proc srw ''ReleaseSRWLockShared'',
            lpfnTryAcquireSRWLockExclusive = proc srw ''TryAcquireSRWLockExclusive'',
            lpfnTryAcquireSRWLockShared = proc srw ''TryAcquireSRWLockShared'',
            critSec = None,
            lpfnInitializeCriticalSection = proc (\<not> srw) ''InitializeCriticalSection'',
            lpfnDeleteCriticalSection = proc (\<not> srw) ''DeleteCriticalSection'',
            lpfnEnterCriticalSection = proc (\<not> srw) ''EnterCriticalSection'',
            lpfnLeaveCriticalSection = proc (\<not> srw) ''LeaveCriticalSection'',
            lpfnTryEnterCriticalSection = proc (\<not> srw) ''TryEnterCriticalSection''\<rparr> in
      if lpfnInitializeSRWLock lock then Some lock
      else if lpfnInitializeCriticalSection lock then Some lock else None)"

text \<open>A call through a pointer that may be null.\<close>

definition call :: "bool \<Rightarrow> 'a option \<Rightarrow> 'a option" where
  "call lpfn f = (if lpfn then f else None)"

definition try_enter :: "tid \<Rightarrow> ThreadRWLock_t \<Rightarrow> (int \<times> ThreadRWLock_t) option" where
  "try_enter t lock = call (lpfnTryEnterCriticalSection lock)
     (let (ok, c) = TryEnterCriticalSection t (critSec lock) in
      Some (if ok then 0 else 1, lock\<lparr>critSec := c\<rparr>))"

definition enter :: "tid \<Rightarrow> ThreadRWLock_t \<Rightarrow> (int \<times> ThreadRWLock_t) option" where
  "enter t lock = call (lpfnEnterCriticalSection lock)
     (do { c \<leftarrow> EnterCriticalSection t (critSec lock); Some (0, lock\<lparr>critSec := c\<rparr>) })"


definition RWLockAcquire_win ::
    "tid \<Rightarrow> RWLockStateEnum \<Rightarrow> bool \<Rightarrow> ThreadRWLock_t \<Rightarrow> (int \<times> ThreadRWLock_t) option" where
  "RWLockAcquire_win t lockState tryLock lock =
     (if lockState = RWLOCK_STATE_WRITE then
        if tryLock then
          if lpfnTryAcquireSRWLockExclusive lock then
            (case srwLock lock of
               Readers 0 \<Rightarrow> Some (0, lock\<lparr>srwLock := Writer t\<rparr>)
             | _ \<Rightarrow> Some (1, lock))
          else try_enter t lock
        else
          if lpfnAcquireSRWLockExclusive lock then
            (case srwLock lock of
               Readers 0 \<Rightarrow> Some (0, lock\<lparr>srwLock := Writer t\<rparr>)
             | _ \<Rightarrow> None)
          else enter t lock
      else
        if tryLock then
          if lpfnTryAcquireSRWLockShared lock then
            (case srwLock lock of
               Readers n \<Rightarrow> Some (0, lock\<lparr>srwLock := Readers (Suc n)\<rparr>)
             | _ \<Rightarrow> Some (1, lock))
          else try_enter t lock
        else
          if lpfnAcquireSRWLockShared lock then
            (case srwLock lock of
               Readers n \<Rightarrow> Some (0, lock\<lparr>srwLock := Readers (Suc n)\<rparr>)
             | _ \<Rightarrow> None)
          else enter t lock)"


definition RWLockUninit_win :: "ThreadRWLock_t \<Rightarrow> ThreadRWLock_t" where
  "RWLockUninit_win lock = (if lpfnDeleteCriticalSection lock then lock\<lparr>critSec := None\<rparr> else lock)"

subsection \<open>What a lock promises\<close>





subsection \<open>The three locks keep it\<close>






















text \<open>
  The first Windows with slim locks has no functions to try one: the code then calls the
  function for critical sections, whose pointer it has not set.
\<close>

lemma rwlock_try_null:
  assumes "f ''InitializeSRWLock''" "\<not> f ''TryAcquireSRWLockExclusive''"
  shows "\<exists>lock. RWLockInit_win (Some f) = Some lock \<and> RWLockAcquire_win t RWLOCK_STATE_WRITE True lock = None"
  using assms by (simp add: RWLockInit_win_def RWLockAcquire_win_def try_enter_def call_def Let_def)

end
