(* ===== verification/RK_Varint.thy ===== *)
theory RK_Varint
  imports RK_Base
begin

section \<open>Variable-length integers\<close>

text \<open>
  The encoder and decoder of \<open>src/librdkafka-1.4.2/src/rdvarint.h\<close>.  A function returns the
  number of bytes, with what it has stored; the shift by 64 or more, which C leaves undefined,
  is \<open>None\<close>.
\<close>

unbundle bit_operations_syntax

subsection \<open>Encoding\<close>

text \<open>The loop with the bytes stored so far.\<close>

function uvarint_enc_loop :: "byte list \<Rightarrow> nat \<Rightarrow> u64 \<Rightarrow> nat \<times> byte list" where
  "uvarint_enc_loop dst dstsize num =
     (if length dst \<ge> dstsize then (0, dst)
      else
        (let dst = dst @ [ucast (num AND 0x7f) OR (if num > 0x7f then 0x80 else 0)];
             num = drop_bit 7 num in
         if num \<noteq> 0 then uvarint_enc_loop dst dstsize num else (length dst, dst)))"
  by pat_completeness auto
termination
  by (relation "measure (\<lambda>(dst, dstsize, _). dstsize - length dst)") auto

declare uvarint_enc_loop.simps [simp del]

definition rd_uvarint_enc_u64 :: "nat \<Rightarrow> u64 \<Rightarrow> nat \<times> byte list" where
  "rd_uvarint_enc_u64 dstsize num = uvarint_enc_loop [] dstsize num"

definition rd_uvarint_enc_i64 :: "nat \<Rightarrow> u64 \<Rightarrow> nat \<times> byte list" where
  "rd_uvarint_enc_i64 dstsize num = rd_uvarint_enc_u64 dstsize (push_bit 1 num XOR signed_drop_bit 63 num)"

definition rd_uvarint_enc_i32 :: "nat \<Rightarrow> u32 \<Rightarrow> nat \<times> byte list" where
  "rd_uvarint_enc_i32 dstsize num = rd_uvarint_enc_i64 dstsize (scast num)"

subsection \<open>Decoding\<close>

definition RD_UVARINT_OVERFLOW :: "nat \<Rightarrow> bool" where
  "RD_UVARINT_OVERFLOW r \<longleftrightarrow> r > 2 ^ 64 - 1"

definition RD_UVARINT_UNDERFLOW :: "nat \<Rightarrow> bool" where
  "RD_UVARINT_UNDERFLOW r \<longleftrightarrow> r = 0"

definition RD_UVARINT_DEC_FAILED :: "nat \<Rightarrow> bool" where
  "RD_UVARINT_DEC_FAILED r \<longleftrightarrow> RD_UVARINT_UNDERFLOW r \<or> RD_UVARINT_OVERFLOW r"

text \<open>The loop over the rest of the source; a value is stored unless the source ends too early.\<close>

fun uvarint_dec_loop :: "byte list \<Rightarrow> nat \<Rightarrow> u64 \<Rightarrow> nat \<Rightarrow> (nat \<times> u64 option) option" where
  "uvarint_dec_loop [] ofs num sh = Some (0, None)"
| "uvarint_dec_loop (b # src) ofs num sh =
     (if sh \<ge> 64 then None
      else
        (let num = num OR push_bit sh (ucast (b AND 0x7f)) in
         if b AND 0x80 \<noteq> 0 then uvarint_dec_loop src (ofs + 1) num (sh + 7)
         else Some (ofs + 1, Some num)))"

definition rd_uvarint_dec :: "byte list \<Rightarrow> nat \<Rightarrow> (nat \<times> u64 option) option" where
  "rd_uvarint_dec src srcsize = uvarint_dec_loop (take srcsize src) 0 0 0"

definition rd_varint_dec_i64 :: "byte list \<Rightarrow> nat \<Rightarrow> (nat \<times> u64 option) option" where
  "rd_varint_dec_i64 src srcsize = do {
     (r, n) \<leftarrow> rd_uvarint_dec src srcsize;
     if \<not> RD_UVARINT_DEC_FAILED r then do {
       n \<leftarrow> n;
       Some (r, Some (drop_bit 1 n XOR - (n AND 1))) }
     else Some (r, None) }"

definition RD_UVARINT_ENC_SIZEOF :: "nat \<Rightarrow> nat" where
  "RD_UVARINT_ENC_SIZEOF sz = sz + 1 + sz div 7"

subsection \<open>Round trip\<close>

text \<open>The bytes of a number, seven bits each, the last one without the continuation bit.\<close>

function varint_bytes :: "u64 \<Rightarrow> byte list" where
  "varint_bytes n = (if n > 0x7f then (ucast (n AND 0x7f) OR 0x80) # varint_bytes (drop_bit 7 n) else [ucast n])"
  by pat_completeness auto

lemma unat_drop_7: "unat (drop_bit 7 n :: u64) = unat n div 128"
  by (simp add: drop_bit_eq_div unat_div)

lemma gt_7f: "n > 0x7f \<longleftrightarrow> unat n > 127" for n :: u64
  by (simp add: word_less_nat_alt)

termination varint_bytes
  by (relation "measure unat") (auto simp: unat_drop_7 gt_7f)

declare varint_bytes.simps [simp del]

lemma drop_7_zero: "drop_bit 7 n \<noteq> 0 \<longleftrightarrow> n > 0x7f" for n :: u64
  unfolding unat_eq_0 [symmetric] unat_drop_7 gt_7f by auto

lemma low_7: "\<not> n > 0x7f \<Longrightarrow> n AND 0x7f = n" for n :: u64
proof -
  assume "\<not> n > 0x7f"
  then have "unat n < 2 ^ 7" by (simp add: gt_7f)
  then have "take_bit 7 n = n" by (simp add: word_unat_eq_iff unsigned_take_bit_eq take_bit_nat_eq_self)
  then show "n AND 0x7f = n" by (simp add: take_bit_eq_mask mask_eq_exp_minus_1)
qed

lemma uvarint_enc_loop_bytes:
  "length dst \<le> dstsize \<Longrightarrow>
    uvarint_enc_loop dst dstsize n =
      (if length dst + length (varint_bytes n) \<le> dstsize
       then (length dst + length (varint_bytes n), dst @ varint_bytes n)
       else (0, dst @ take (dstsize - length dst) (varint_bytes n)))"
proof (induction n arbitrary: dst rule: varint_bytes.induct)
  case (1 n)
  show ?case
  proof (cases "length dst < dstsize")
    case True
    then show ?thesis
      using 1 drop_7_zero [of n] low_7 [of n]
      by (cases "n > 0x7f")
         (auto simp: uvarint_enc_loop.simps [of dst] varint_bytes.simps [of n] Let_def take_Cons')
  next
    case False
    then show ?thesis
      using 1 by (auto simp: uvarint_enc_loop.simps [of dst] varint_bytes.simps [of n])
  qed
qed

lemma bit_7f [simp]: "bit (0x7f :: byte) k \<longleftrightarrow> k < 7" "bit (0x7f :: u64) k \<longleftrightarrow> k < 7" "bit (0x7f :: int) k \<longleftrightarrow> k < 7"
proof -
  have "(0x7f :: byte) = mask 7" "(0x7f :: u64) = mask 7" "(0x7f :: int) = mask 7"
    by (simp_all add: mask_eq_exp_minus_1)
  then show "bit (0x7f :: byte) k \<longleftrightarrow> k < 7" "bit (0x7f :: u64) k \<longleftrightarrow> k < 7" "bit (0x7f :: int) k \<longleftrightarrow> k < 7"
    by (auto simp only: bit_mask_iff) auto
qed

lemma bit_80 [simp]: "bit (0x80 :: byte) k \<longleftrightarrow> k = 7" "bit (0x80 :: int) k \<longleftrightarrow> k = 7"
proof -
  have "(0x80 :: byte) = 2 ^ 7" "(0x80 :: int) = 2 ^ 7" by simp_all
  then show "bit (0x80 :: byte) k \<longleftrightarrow> k = 7" "bit (0x80 :: int) k \<longleftrightarrow> k = 7" by (auto simp only: bit_exp_iff) auto
qed

lemma continues: "b AND 0x80 \<noteq> 0 \<longleftrightarrow> bit b 7" for b :: byte
proof -
  have "(0x80 :: byte) = 2 ^ 7" by simp
  then show ?thesis by (simp only: and_exp_eq_0_iff_not_bit) simp
qed

lemma dec_byte:
  "ucast ((ucast (n AND 0x7f) OR 0x80 :: byte) AND 0x7f) = n AND 0x7f" "\<not> n > 0x7f \<Longrightarrow> ucast (ucast n AND 0x7f :: byte) = n"
  for n :: u64
proof -
  show e: "ucast ((ucast (n AND 0x7f) OR 0x80 :: byte) AND 0x7f) = n AND 0x7f"
    by (rule word_bit_eqI) (auto simp: bit_simps)
  have "ucast (ucast n AND 0x7f :: byte) = n AND 0x7f"
    by (rule word_bit_eqI) (auto simp: bit_simps)
  then show "\<not> n > 0x7f \<Longrightarrow> ucast (ucast n AND 0x7f :: byte) = n" by (simp add: low_7)
qed

lemma join_7: "push_bit sh (n AND 0x7f) OR push_bit (sh + 7) (drop_bit 7 n) = push_bit sh n" for n :: u64
proof (rule word_bit_eqI)
  fix k
  have "sh + 7 \<le> k \<Longrightarrow> 7 + (k - (sh + 7)) = k - sh" by simp
  then show "bit (push_bit sh (n AND 0x7f) OR push_bit (sh + 7) (drop_bit 7 n)) k = bit (push_bit sh n) k"
    by (cases "sh + 7 \<le> k") (auto simp: bit_simps)
qed

lemma uvarint_dec_loop_bytes:
  "sh < 64 \<Longrightarrow> unat n < 2 ^ (64 - sh) \<Longrightarrow>
    uvarint_dec_loop (varint_bytes n @ rest) ofs acc sh =
      Some (ofs + length (varint_bytes n), Some (acc OR push_bit sh n))"
proof (induction n arbitrary: ofs acc sh rule: varint_bytes.induct)
  case (1 n)
  show ?case
  proof (cases "n > 0x7f")
    case True
    then have "2 ^ 7 < (2 :: nat) ^ (64 - sh)" using "1.prems"(2) by (simp add: gt_7f)
    then have sh: "7 < 64 - sh" using power_strict_increasing_iff [of "2 :: nat" 7 "64 - sh"] by simp
    have "unat (drop_bit 7 n) < 2 ^ (64 - (sh + 7))"
    proof -
      have "64 - sh = (64 - (sh + 7)) + 7" using sh by simp
      then have "unat n < 2 ^ (64 - (sh + 7)) * 2 ^ 7" using "1.prems"(2) by (metis power_add)
      then show ?thesis unfolding unat_drop_7 by (simp add: div_less_iff_less_mult)
    qed
    then have "uvarint_dec_loop (varint_bytes (drop_bit 7 n) @ rest) (ofs + 1) (acc OR push_bit sh (n AND 0x7f)) (sh + 7) =
        Some (ofs + 1 + length (varint_bytes (drop_bit 7 n)),
          Some ((acc OR push_bit sh (n AND 0x7f)) OR push_bit (sh + 7) (drop_bit 7 n)))"
      using "1.IH" [OF True, of "sh + 7"] sh by simp
    then show ?thesis
      using True "1.prems"(1)
      by (simp add: varint_bytes.simps [of n] continues dec_byte Let_def bit_simps join_7 or.assoc del: push_bit_and)
  next
    case False
    then have "\<not> bit (ucast n :: byte) 7"
      using low_7 [OF False] by (metis bit_7f(2) bit_and_iff bit_ucast_iff less_irrefl)
    with False "1.prems"(1) show ?thesis
      by (simp add: varint_bytes.simps [of n] continues dec_byte Let_def)
  qed
qed

lemma varint_bytes_length: "unat n < 2 ^ (7 * k) \<Longrightarrow> 0 < k \<Longrightarrow> length (varint_bytes n) \<le> k"
proof (induction n arbitrary: k rule: varint_bytes.induct)
  case (1 n)
  show ?case
  proof (cases "n > 0x7f")
    case True
    then have "2 ^ 7 < (2 :: nat) ^ (7 * k)" using "1.prems"(1) by (simp add: gt_7f)
    then have k: "1 < k" using power_strict_increasing_iff [of "2 :: nat" 7 "7 * k"] by simp
    then have "7 * k = 7 * (k - 1) + 7" by simp
    then have "unat n < 2 ^ (7 * (k - 1)) * 2 ^ 7" using "1.prems"(1) by (metis power_add)
    then have "unat (drop_bit 7 n) < 2 ^ (7 * (k - 1))"
      unfolding unat_drop_7 by (simp add: div_less_iff_less_mult)
    then show ?thesis using "1.IH" [OF True, of "k - 1"] True k by (simp add: varint_bytes.simps [of n])
  next
    case False
    then show ?thesis using "1.prems"(2) by (simp add: varint_bytes.simps [of n])
  qed
qed

lemma varint_bytes_nonempty: "0 < length (varint_bytes n)"
  by (simp add: varint_bytes.simps [of n])

lemma u64_length: "length (varint_bytes n) \<le> 10"
proof -
  have "unat n < 2 ^ 64" using unsigned_less [of n] by simp
  also have "(2 :: nat) ^ 64 < 2 ^ (7 * 10)" by simp
  finally show ?thesis by (rule varint_bytes_length) simp
qed

text \<open>A part of the bytes is not enough.\<close>

lemma uvarint_dec_loop_short:
  "sh < 64 \<Longrightarrow> unat n < 2 ^ (64 - sh) \<Longrightarrow> m < length (varint_bytes n) \<Longrightarrow>
    uvarint_dec_loop (take m (varint_bytes n)) ofs acc sh = Some (0, None)"
proof (induction n arbitrary: m ofs acc sh rule: varint_bytes.induct)
  case (1 n)
  show ?case
  proof (cases "n > 0x7f \<and> 0 < m")
    case True
    then obtain m' where m: "m = Suc m'" by (cases m) auto
    have "2 ^ 7 < (2 :: nat) ^ (64 - sh)" using "1.prems"(2) True by (simp add: gt_7f)
    then have sh: "7 < 64 - sh" using power_strict_increasing_iff [of "2 :: nat" 7 "64 - sh"] by simp
    then have "64 - sh = (64 - (sh + 7)) + 7" by simp
    then have "unat n < 2 ^ (64 - (sh + 7)) * 2 ^ 7" using "1.prems"(2) by (metis power_add)
    then have "unat (drop_bit 7 n) < 2 ^ (64 - (sh + 7))"
      unfolding unat_drop_7 by (simp add: div_less_iff_less_mult)
    then show ?thesis
      using "1.IH" [of "sh + 7" m'] True "1.prems" sh m
      by (simp add: varint_bytes.simps [of n] continues Let_def bit_simps)
  next
    case False
    then show ?thesis using "1.prems"(3) by (cases m) (auto simp: varint_bytes.simps [of n])
  qed
qed

definition zigzag :: "u64 \<Rightarrow> u64" where
  "zigzag w = push_bit 1 w XOR signed_drop_bit 63 w"

lemma bit_zigzag: "bit (zigzag w) k \<longleftrightarrow> k < 64 \<and> ((0 < k \<and> bit w (k - 1)) \<noteq> bit w 63)"
proof (cases "k < 64")
  case True
  then have "k \<noteq> 0 \<Longrightarrow> 63 \<le> 63 + k \<and> (if 64 - 63 \<le> k \<and> k < 64 then 63 else 63 + k) = 63" by simp
  then show ?thesis
    using True unfolding zigzag_def bit_xor_iff bit_push_bit_iff bit_signed_drop_bit_iff
    by (cases "k = 0") auto
next
  case False
  then show ?thesis by (auto dest: bit_imp_le_length)
qed

lemma top_bit: "k < 64 \<Longrightarrow> 63 \<le> k \<longleftrightarrow> k = (63 :: nat)"
  by auto

lemma unzigzag: "drop_bit 1 (zigzag w) XOR - (zigzag w AND 1) = w"
proof -
  have z: "zigzag w AND 1 = (if bit w 63 then 1 else 0)"
    using bit_zigzag [of w 0] by (simp add: and_one_eq bit_0 mod_2_eq_odd)
  show ?thesis
  proof (rule word_bit_eqI)
    fix k :: nat
    assume "k < LENGTH(64)"
    then show "bit (drop_bit 1 (zigzag w) XOR - (zigzag w AND 1)) k = bit w k"
      by (cases "k = 63") (auto simp: z bit_xor_iff bit_drop_bit_eq bit_zigzag bit_minus_1_iff)
  qed
qed

lemma enc_u64_bytes: "10 \<le> dstsize \<Longrightarrow> rd_uvarint_enc_u64 dstsize n = (length (varint_bytes n), varint_bytes n)"
  using uvarint_enc_loop_bytes [of "[]" dstsize n] u64_length [of n] by (simp add: rd_uvarint_enc_u64_def)

lemma dec_bytes:
  "rd_uvarint_dec (varint_bytes n @ rest) (length (varint_bytes n @ rest)) = Some (length (varint_bytes n), Some n)"
  "m < length (varint_bytes n) \<Longrightarrow> rd_uvarint_dec (varint_bytes n @ rest) m = Some (0, None)"
proof -
  have n: "unat n < 2 ^ (64 - 0)" using unsigned_less [of n] by simp
  then show "rd_uvarint_dec (varint_bytes n @ rest) (length (varint_bytes n @ rest)) = Some (length (varint_bytes n), Some n)"
    using uvarint_dec_loop_bytes [of 0 n rest 0 0] by (simp add: rd_uvarint_dec_def)
  show "m < length (varint_bytes n) \<Longrightarrow> rd_uvarint_dec (varint_bytes n @ rest) m = Some (0, None)"
    using uvarint_dec_loop_short [of 0 n m 0 0] n by (simp add: rd_uvarint_dec_def)
qed

text \<open>
  C16: variable-length integers round-trip.  With room for ten bytes a signed 64-bit number is
  encoded in at most \<open>RD_UVARINT_ENC_SIZEOF\<close> bytes; the decoder gives the number back whatever
  follows them and reads exactly these bytes, and it reports an underflow when any of them is
  missing.
\<close>

theorem varint_roundtrip:
  assumes "10 \<le> dstsize"
  shows "\<exists>bs. rd_uvarint_enc_i64 dstsize n = (length bs, bs) \<and> length bs \<le> RD_UVARINT_ENC_SIZEOF 8 \<and>
    (\<forall>rest. rd_varint_dec_i64 (bs @ rest) (length (bs @ rest)) = Some (length bs, Some n)) \<and>
    (\<forall>m rest. m < length bs \<longrightarrow> rd_varint_dec_i64 (bs @ rest) m = Some (0, None))"
proof (intro exI conjI allI impI)
  let ?bs = "varint_bytes (zigzag n)"
  have l: "0 < length ?bs" "length ?bs \<le> 10" by (rule varint_bytes_nonempty, rule u64_length)
  show "rd_uvarint_enc_i64 dstsize n = (length ?bs, ?bs)"
    using assms unfolding rd_uvarint_enc_i64_def zigzag_def [symmetric] by (rule enc_u64_bytes)
  show "length ?bs \<le> RD_UVARINT_ENC_SIZEOF 8" using l by (simp add: RD_UVARINT_ENC_SIZEOF_def)
  show "rd_varint_dec_i64 (?bs @ rest) (length (?bs @ rest)) = Some (length ?bs, Some n)" for rest
    using l unzigzag [of n] unfolding rd_varint_dec_i64_def dec_bytes(1)
    by (simp add: RD_UVARINT_DEC_FAILED_def RD_UVARINT_UNDERFLOW_def RD_UVARINT_OVERFLOW_def)
  show "m < length ?bs \<Longrightarrow> rd_varint_dec_i64 (?bs @ rest) m = Some (0, None)" for m rest
    by (simp add: rd_varint_dec_i64_def dec_bytes(2) RD_UVARINT_DEC_FAILED_def RD_UVARINT_UNDERFLOW_def)
qed

text \<open>The number 1234567890101112 of the unit test takes eight bytes.\<close>

theorem varint_roundtrip_witness:
  "rd_uvarint_enc_i64 16 1234567890101112 = (8, [0xf0, 0x8d, 0xd3, 0xc8, 0xa7, 0xb5, 0xb1, 0x04]) \<and>
   rd_varint_dec_i64 ([0xf0, 0x8d, 0xd3, 0xc8, 0xa7, 0xb5, 0xb1, 0x04] @ [0xff, 0xff]) 10 = Some (8, Some 1234567890101112)"
proof -
  define bs :: "byte list" where "bs = [0xf0, 0x8d, 0xd3, 0xc8, 0xa7, 0xb5, 0xb1, 0x04]"
  have e: "rd_uvarint_enc_i64 16 1234567890101112 = (8, bs)"
    by (simp add: rd_uvarint_enc_i64_def rd_uvarint_enc_u64_def uvarint_enc_loop.simps bs_def)
  have h: "(10 :: nat) \<le> 16" by simp
  obtain cs where cs: "rd_uvarint_enc_i64 16 1234567890101112 = (length cs, cs)"
      "\<forall>rest. rd_varint_dec_i64 (cs @ rest) (length (cs @ rest)) = Some (length cs, Some 1234567890101112)"
    using varint_roundtrip [OF h, of 1234567890101112] by blast
  with e have c: "cs = bs" "length bs = 8" by (simp_all add: bs_def)
  from cs(2) [rule_format, of "[0xff, 0xff]"] e show ?thesis
    unfolding c(1) bs_def [symmetric] by (simp add: c(2))
qed

text \<open>A 32-bit number takes at most \<open>RD_UVARINT_ENC_SIZEOF\<close> of its size, five bytes.\<close>

lemma i32_length: "length (varint_bytes (zigzag (scast (n :: u32)))) \<le> RD_UVARINT_ENC_SIZEOF 4"
proof -
  have "take_bit 33 (zigzag (scast n)) = zigzag (scast n)"
    by (rule word_bit_eqI) (auto simp: bit_simps bit_zigzag not_less min_def)
  then have "unat (zigzag (scast n)) < 2 ^ 33"
    by (metis unsigned_take_bit_eq take_bit_nat_less_exp)
  also have "(2 :: nat) ^ 33 < 2 ^ (7 * 5)" by simp
  finally show ?thesis using varint_bytes_length [of "zigzag (scast n)" 5] by (simp add: RD_UVARINT_ENC_SIZEOF_def)
qed

text \<open>
  An encoding of two to the 64 is decoded as 0 without an error, and eleven bytes are shifted
  too far: the test for an overflow can never hold for a result of type \<open>size_t\<close>.
\<close>

theorem uvarint_dec_overflow:
  "rd_uvarint_dec [0x80, 0x80, 0x80, 0x80, 0x80, 0x80, 0x80, 0x80, 0x80, 0x02] 10 = Some (10, Some 0)"
  "rd_uvarint_dec [0x80, 0x80, 0x80, 0x80, 0x80, 0x80, 0x80, 0x80, 0x80, 0x80, 0x01] 11 = None"
  "r < 2 ^ 64 \<Longrightarrow> \<not> RD_UVARINT_OVERFLOW r"
  by (simp_all add: rd_uvarint_dec_def RD_UVARINT_OVERFLOW_def)

end
