(* ===== verification/RK_Crc32c.thy ===== *)
theory RK_Crc32c
  imports RK_Base
begin

section \<open>The checksum CRC-32C\<close>

text \<open>
  The checksum of message sets, \<open>src/librdkafka-1.4.2/src/crc32c.c\<close>: the table-driven version that
  takes eight bytes at a time, and the version for processors with a \<open>crc32\<close> instruction, which
  runs three checksums side by side and joins them by matrices over the field of two elements.
  The address of the buffer only matters for its alignment.
\<close>

unbundle bit_operations_syntax

subsection \<open>Tables\<close>

definition POLY :: u32 where "POLY = 0x82f63b78"

definition crc_bit :: "u32 \<Rightarrow> u32" where
  "crc_bit crc = (if crc AND 1 \<noteq> 0 then drop_bit 1 crc XOR POLY else drop_bit 1 crc)"

definition table_first :: "u32 list" where
  "table_first = map (\<lambda>n. (crc_bit ^^ 8) (of_nat n)) [0..<256]"

fun table_row :: "nat \<Rightarrow> u32 list" where
  "table_row 0 = table_first"
| "table_row (Suc k) = map (\<lambda>crc. table_first ! unat (crc AND 0xff) XOR drop_bit 8 crc) (table_row k)"

definition crc32c_init_sw :: "u32 list list" where
  "crc32c_init_sw = map table_row [0..<8]"

subsection \<open>Software version\<close>

definition sw_byte :: "u32 list list \<Rightarrow> u64 \<Rightarrow> byte \<Rightarrow> u64" where
  "sw_byte tbl crc b = ucast (tbl ! 0 ! unat ((crc XOR ucast b) AND 0xff)) XOR drop_bit 8 crc"

fun sw_head :: "u32 list list \<Rightarrow> nat \<Rightarrow> byte list \<Rightarrow> u64 \<Rightarrow> byte list \<times> u64" where
  "sw_head tbl addr [] crc = ([], crc)"
| "sw_head tbl addr (b # bs) crc =
     (if addr mod 8 \<noteq> 0 then sw_head tbl (addr + 1) bs (sw_byte tbl crc b) else (b # bs, crc))"

definition sw_block :: "u32 list list \<Rightarrow> u64 \<Rightarrow> byte list \<Rightarrow> u64" where
  "sw_block tbl crc bs =
     (let crc = crc XOR le_bytes bs in
      ucast (tbl ! 7 ! unat (crc AND 0xff)) XOR
      ucast (tbl ! 6 ! unat (drop_bit 8 crc AND 0xff)) XOR
      ucast (tbl ! 5 ! unat (drop_bit 16 crc AND 0xff)) XOR
      ucast (tbl ! 4 ! unat (drop_bit 24 crc AND 0xff)) XOR
      ucast (tbl ! 3 ! unat (drop_bit 32 crc AND 0xff)) XOR
      ucast (tbl ! 2 ! unat (drop_bit 40 crc AND 0xff)) XOR
      ucast (tbl ! 1 ! unat (drop_bit 48 crc AND 0xff)) XOR
      ucast (tbl ! 0 ! unat (drop_bit 56 crc)))"

function sw_blocks :: "u32 list list \<Rightarrow> byte list \<Rightarrow> u64 \<Rightarrow> byte list \<times> u64" where
  "sw_blocks tbl bs crc =
     (if length bs \<ge> 8 then sw_blocks tbl (drop 8 bs) (sw_block tbl crc (take 8 bs)) else (bs, crc))"
  by pat_completeness auto
termination
  by (relation "measure (\<lambda>(_, bs, _). length bs)") auto

declare sw_blocks.simps [simp del]

definition crc32c_sw :: "nat \<Rightarrow> u32 \<Rightarrow> byte list \<Rightarrow> u32" where
  "crc32c_sw addr crci buf =
     (let tbl = crc32c_init_sw;
          (bs, crc) = sw_head tbl addr buf (ucast (crci XOR 0xffffffff));
          (bs, crc) = sw_blocks tbl bs crc;
          crc = fold (\<lambda>b crc. sw_byte tbl crc b) bs crc in
      ucast crc XOR 0xffffffff)"

subsection \<open>Matrices over the field of two elements\<close>

text \<open>The matrix has 32 rows, so that the operand is zero before the rows end.\<close>

fun gf2_times_loop :: "u32 list \<Rightarrow> u32 \<Rightarrow> u32 \<Rightarrow> u32" where
  "gf2_times_loop [] vec acc = acc"
| "gf2_times_loop (row # mat) vec acc =
     (if vec \<noteq> 0 then gf2_times_loop mat (drop_bit 1 vec) (if vec AND 1 \<noteq> 0 then acc XOR row else acc) else acc)"

definition gf2_matrix_times :: "u32 list \<Rightarrow> u32 \<Rightarrow> u32" where
  "gf2_matrix_times mat vec = gf2_times_loop mat vec 0"

definition gf2_matrix_square :: "u32 list \<Rightarrow> u32 list" where
  "gf2_matrix_square mat = map (\<lambda>n. gf2_matrix_times mat (mat ! n)) [0..<32]"

function zeros_loop :: "u32 list \<Rightarrow> nat \<Rightarrow> u32 list" where
  "zeros_loop odd0 len =
     (let even0 = gf2_matrix_square odd0; len = len div 2 in
      if len = 0 then even0
      else
        (let odd0 = gf2_matrix_square even0; len = len div 2 in
         if len \<noteq> 0 then zeros_loop odd0 len else odd0))"
  by pat_completeness auto
termination
  by (relation "measure snd") auto

declare zeros_loop.simps [simp del]

definition crc32c_zeros_op :: "nat \<Rightarrow> u32 list" where
  "crc32c_zeros_op len =
     (let odd0 = POLY # map (\<lambda>n. push_bit n 1) [0..<31];
          even0 = gf2_matrix_square odd0;
          odd0 = gf2_matrix_square even0 in
      zeros_loop odd0 len)"

definition crc32c_zeros :: "nat \<Rightarrow> u32 list list" where
  "crc32c_zeros len =
     (let mat = crc32c_zeros_op len in
      map (\<lambda>j. map (\<lambda>n. gf2_matrix_times mat (push_bit (8 * j) (of_nat n))) [0..<256]) [0..<4])"

definition crc32c_shift :: "u32 list list \<Rightarrow> u32 \<Rightarrow> u32" where
  "crc32c_shift zeros crc =
     zeros ! 0 ! unat (crc AND 0xff) XOR zeros ! 1 ! unat (drop_bit 8 crc AND 0xff) XOR
     zeros ! 2 ! unat (drop_bit 16 crc AND 0xff) XOR zeros ! 3 ! unat (drop_bit 24 crc)"

subsection \<open>Hardware version\<close>

text \<open>
  The instructions \<open>crc32b\<close> and \<open>crc32q\<close> update a checksum in the lower half of a register by one
  and by eight bytes of memory; the polynomial is that of CRC-32C.
\<close>

definition crc32b :: "byte \<Rightarrow> u64 \<Rightarrow> u64" where
  "crc32b b crc = ucast ((crc_bit ^^ 8) (ucast crc XOR ucast b))"

definition crc32q :: "byte list \<Rightarrow> u64 \<Rightarrow> u64" where
  "crc32q bs crc = fold crc32b (take 8 bs) crc"

definition LONG :: nat where "LONG = 8192"
definition SHORT :: nat where "SHORT = 256"

text \<open>The loop over three blocks of \<open>n\<close> bytes, and the loop over the triples of blocks.\<close>

function hw_inner :: "nat \<Rightarrow> nat \<Rightarrow> byte list \<Rightarrow> u64 \<times> u64 \<times> u64 \<Rightarrow> u64 \<times> u64 \<times> u64" where
  "hw_inner n left0 next0 (crc0, crc1, crc2) =
     (let crcs = (crc32q next0 crc0, crc32q (drop n next0) crc1, crc32q (drop (2 * n) next0) crc2) in
      if left0 > 8 then hw_inner n (left0 - 8) (drop 8 next0) crcs else crcs)"
  by pat_completeness auto
termination
  by (relation "measure (\<lambda>(_, left0, _). left0)") auto

declare hw_inner.simps [simp del]

function hw_triples :: "nat \<Rightarrow> u32 list list \<Rightarrow> byte list \<Rightarrow> u64 \<Rightarrow> byte list \<times> u64" where
  "hw_triples n tbl buf crc0 =
     (if length buf \<ge> n * 3 \<and> n \<noteq> 0 then
        (let (crc0, crc1, crc2) = hw_inner n n buf (crc0, 0, 0);
             crc0 = ucast (crc32c_shift tbl (ucast crc0)) XOR crc1;
             crc0 = ucast (crc32c_shift tbl (ucast crc0)) XOR crc2 in
         hw_triples n tbl (drop (n * 3) buf) crc0)
      else (buf, crc0))"
  by pat_completeness auto
termination
  by (relation "measure (\<lambda>(_, _, buf, _). length buf)") auto

declare hw_triples.simps [simp del]

fun hw_head :: "nat \<Rightarrow> byte list \<Rightarrow> u64 \<Rightarrow> byte list \<times> u64" where
  "hw_head addr [] crc = ([], crc)"
| "hw_head addr (b # bs) crc = (if addr mod 8 \<noteq> 0 then hw_head (addr + 1) bs (crc32b b crc) else (b # bs, crc))"

function hw_units :: "byte list \<Rightarrow> u64 \<Rightarrow> byte list \<times> u64" where
  "hw_units bs crc = (if length bs \<ge> 8 then hw_units (drop 8 bs) (crc32q bs crc) else (bs, crc))"
  by pat_completeness auto
termination
  by (relation "measure (\<lambda>(bs, _). length bs)") auto

declare hw_units.simps [simp del]

definition crc32c_hw :: "nat \<Rightarrow> u32 \<Rightarrow> byte list \<Rightarrow> u32" where
  "crc32c_hw addr crc buf =
     (let (bs, crc0) = hw_head addr buf (ucast (crc XOR 0xffffffff));
          (bs, crc0) = hw_triples LONG (crc32c_zeros LONG) bs crc0;
          (bs, crc0) = hw_triples SHORT (crc32c_zeros SHORT) bs crc0;
          (bs, crc0) = hw_units bs crc0;
          crc0 = fold crc32b bs crc0 in
      ucast crc0 XOR 0xffffffff)"

definition crc32c :: "bool \<Rightarrow> nat \<Rightarrow> u32 \<Rightarrow> byte list \<Rightarrow> u32" where
  "crc32c sse42 addr crc buf = (if sse42 then crc32c_hw addr crc buf else crc32c_sw addr crc buf)"

subsection \<open>Reference\<close>

text \<open>The checksum one byte and one bit at a time.\<close>

abbreviation crc_byte :: "u32 \<Rightarrow> u32" where
  "crc_byte \<equiv> crc_bit ^^ 8"

definition crc_update :: "byte \<Rightarrow> u32 \<Rightarrow> u32" where
  "crc_update b crc = crc_byte (crc XOR ucast b)"

definition crc_bitwise :: "u32 \<Rightarrow> byte list \<Rightarrow> u32" where
  "crc_bitwise crc buf = NOT (fold crc_update buf (NOT crc))"

definition linear :: "(u32 \<Rightarrow> u32) \<Rightarrow> bool" where
  "linear f \<longleftrightarrow> (\<forall>a b. f (a XOR b) = f a XOR f b)"

lemma linear_xor: "linear f \<Longrightarrow> f (a XOR b) = f a XOR f b"
  by (simp add: linear_def)

lemma linear_0: "linear f \<Longrightarrow> f 0 = 0"
  using linear_xor [of f 0 0] by simp

lemma linear_funpow: "linear f \<Longrightarrow> linear (f ^^ k)"
  by (induction k) (simp_all add: linear_def)

lemma and_one_odd: "a AND 1 \<noteq> 0 \<longleftrightarrow> bit a 0" for a :: "'a::len word"
  by (simp add: and_one_eq bit_0 odd_iff_mod_2_eq_one)

lemma linear_bit: "linear crc_bit"
  unfolding linear_def crc_bit_def and_one_odd
  by (auto simp: bit_xor_iff xor.assoc xor.commute xor.left_commute)

lemmas linear_byte = linear_funpow [OF linear_bit]
lemmas xor_ac = xor.assoc xor.commute xor.left_commute

lemma funpow_even: "take_bit k x = 0 \<Longrightarrow> (crc_bit ^^ k) x = drop_bit k x"
proof (induction k arbitrary: x)
  case (Suc k)
  have b: "i < Suc k \<Longrightarrow> \<not> bit x i" for i
    using Suc.prems bit_take_bit_iff [of "Suc k" x i] by simp
  then have "crc_bit x = drop_bit 1 x" by (simp add: crc_bit_def and_one_odd)
  moreover have "take_bit k (drop_bit 1 x) = 0"
    by (rule word_bit_eqI) (auto simp: bit_take_bit_iff bit_drop_bit_eq b)
  ultimately show ?case using Suc.IH by (simp add: funpow_swap1 drop_bit_drop_bit)
qed simp

lemma and_ff: "x AND 0xff = take_bit 8 x" for x :: "'a::len word"
  by (simp add: take_bit_eq_mask mask_eq_exp_minus_1)

lemma byte_split: "x = take_bit 8 x XOR push_bit 8 (drop_bit 8 x)" for x :: u32
  by (rule word_bit_eqI) (auto simp: bit_simps)

lemma drop_push_8: "drop_bit 8 (push_bit 8 (drop_bit 8 x)) = drop_bit 8 x" for x :: u32
proof (rule word_bit_eqI)
  fix k
  show "bit (drop_bit 8 (push_bit 8 (drop_bit 8 x))) k = bit (drop_bit 8 x) k"
    using bit_imp_le_length [of x "8 + k"] by (auto simp: bit_simps)
qed

lemma crc_byte_split: "crc_byte x = crc_byte (take_bit 8 x) XOR drop_bit 8 x"
proof -
  have "take_bit 8 (push_bit 8 (drop_bit 8 x)) = 0"
    by (rule word_bit_eqI) (simp add: bit_take_bit_iff bit_push_bit_iff)
  from funpow_even [OF this] have "crc_byte (push_bit 8 (drop_bit 8 x)) = drop_bit 8 x"
    by (simp only: drop_push_8)
  then show ?thesis
    using linear_xor [OF linear_byte, of 8 "take_bit 8 x" "push_bit 8 (drop_bit 8 x)"]
    by (simp only: byte_split [symmetric])
qed

lemma of_nat_unat: "of_nat (unat w) = (ucast w :: 'b::len word)" for w :: "'a::len word"
  by (rule word_bit_eqI) (simp add: bit_simps)

lemma byte_index: "unat (take_bit 8 x) < 256" for x :: "'a::len word"
  using take_bit_nat_less_exp [of 8 "unat x"] by (simp add: unsigned_take_bit_eq)

lemma table_first_nth: "n < 256 \<Longrightarrow> table_first ! n = crc_byte (of_nat n)"
  by (simp add: table_first_def del: upt_rec_numeral)

lemma table_first_length: "length table_first = 256"
  by (simp add: table_first_def del: upt_rec_numeral)

lemma table_row_nth: "n < 256 \<Longrightarrow> table_row k ! n = (crc_byte ^^ Suc k) (of_nat n) \<and> length (table_row k) = 256"
proof (induction k)
  case 0
  then show ?case by (simp add: table_first_nth table_first_length)
next
  case (Suc k)
  have st: "table_first ! unat (x AND 0xff) XOR drop_bit 8 x = crc_byte x" for x :: u32
    using table_first_nth [OF byte_index [of x]] crc_byte_split [of x, symmetric] by (simp add: and_ff)
  from Suc show ?case by (simp add: st del: funpow.simps) (simp add: funpow_swap1)
qed

lemma table_nth:
  "k < 8 \<Longrightarrow> crc32c_init_sw ! k ! unat (take_bit 8 x) = (crc_byte ^^ Suc k) (ucast (take_bit 8 x))" for x :: "'a::len word"
  using table_row_nth [OF byte_index [of x], of k] by (simp add: crc32c_init_sw_def of_nat_unat del: upt_rec_numeral)

subsection \<open>The software version is the reference\<close>

lemma crc_update_xor: "crc_update b (x XOR y) = crc_byte x XOR crc_update b y"
  using linear_xor [OF linear_byte, of 8 x "y XOR ucast b"] by (simp add: crc_update_def xor.assoc)

lemma byte_pow_Suc: "(crc_byte ^^ Suc n) x = (crc_byte ^^ n) (crc_byte x)"
  by (simp only: funpow_Suc_right comp_apply)

lemma fold_xor: "fold crc_update bs (x XOR y) = (crc_byte ^^ length bs) x XOR fold crc_update bs y"
proof (induction bs arbitrary: x y)
  case (Cons b bs)
  show ?case by (simp only: fold_simps crc_update_xor Cons.IH list.size add_Suc_right add_0_right byte_pow_Suc)
qed simp

lemma drop_8_byte: "drop_bit 8 (c XOR ucast b) = drop_bit 8 c" for c :: "'a::len word" and b :: byte
  by (rule word_bit_eqI) (auto simp: bit_simps dest: bit_imp_le_length)

lemma fold_step:
  "fold crc_update (b # bs) c =
     (crc_byte ^^ Suc (length bs)) (take_bit 8 (c XOR ucast b)) XOR fold crc_update bs (drop_bit 8 c)"
proof -
  have "crc_update b c = crc_byte (take_bit 8 (c XOR ucast b)) XOR drop_bit 8 c"
    using crc_byte_split [of "c XOR ucast b"] by (simp only: crc_update_def drop_8_byte)
  then show ?thesis by (simp only: fold_simps fold_xor byte_pow_Suc)
qed

lemma sw_byte_update: "sw_byte crc32c_init_sw (ucast c) b = ucast (crc_update b c)"
proof -
  have "ucast (take_bit 8 (ucast c XOR ucast b :: u64)) = (take_bit 8 (c XOR ucast b) :: u32)"
    by (rule word_bit_eqI) (auto simp: bit_simps)
  moreover have "drop_bit 8 (ucast c :: u64) = ucast (drop_bit 8 (c XOR ucast b))"
    unfolding drop_8_byte by (rule word_bit_eqI) (auto simp: bit_simps dest: bit_imp_le_length)
  moreover have "ucast (x XOR y) = (ucast x XOR ucast y :: u64)" for x y :: u32
    by (rule word_bit_eqI) (auto simp: bit_simps)
  ultimately show ?thesis
    using table_nth [of 0 "ucast c XOR ucast b :: u64"] crc_byte_split [of "c XOR ucast b"]
    by (simp add: sw_byte_def and_ff crc_update_def)
qed

lemma bit_le_bytes:
  "bit (le_bytes bs :: 'a::len word) k \<longleftrightarrow> k < LENGTH('a) \<and> k div 8 < length bs \<and> bit (bs ! (k div 8)) (k mod 8)"
proof (induction bs arbitrary: k)
  case (Cons b bs)
  show ?case
  proof (cases "k < 8")
    case True
    then show ?thesis by (auto simp: bit_simps)
  next
    case False
    then have "k div 8 = Suc ((k - 8) div 8)" "k mod 8 = (k - 8) mod 8"
      by (simp_all add: le_div_geq le_mod_geq)
    moreover have "\<not> bit b k" using False bit_imp_le_length [of b k] by auto
    ultimately show ?thesis using False by (auto simp: bit_simps Cons.IH)
  qed
qed simp

lemma block_byte:
  assumes "i < length bs" "i < 8"
  shows "ucast (take_bit 8 (drop_bit (8 * i) (ucast c XOR le_bytes bs :: u64))) =
    (take_bit 8 (drop_bit (8 * i) c XOR ucast (bs ! i)) :: u32)"
proof (rule word_bit_eqI)
  fix k :: nat
  have "k < 8 \<Longrightarrow> (8 * i + k) div 8 = i \<and> (8 * i + k) mod 8 = k \<and> 8 * i + k < 64" using assms(2) by auto
  then show "bit (ucast (take_bit 8 (drop_bit (8 * i) (ucast c XOR le_bytes bs :: u64))) :: u32) k =
      bit (take_bit 8 (drop_bit (8 * i) c XOR ucast (bs ! i))) k"
    using assms(1) bit_imp_le_length [of c "8 * i + k"] bit_imp_le_length [of "bs ! i" k]
    by (auto simp: bit_simps bit_le_bytes)
qed

lemma sw_block_update:
  assumes "length bs = 8"
  shows "sw_block crc32c_init_sw (ucast c) bs = ucast (fold crc_update bs c)"
proof -
  define w :: u64 where "w = ucast c XOR le_bytes bs"
  have t: "k < 8 \<Longrightarrow> crc32c_init_sw ! k ! unat (take_bit 8 (drop_bit (8 * (7 - k)) w)) =
      (crc_byte ^^ Suc k) (take_bit 8 (drop_bit (8 * (7 - k)) c XOR ucast (bs ! (7 - k))))" for k
    using table_nth [of k "drop_bit (8 * (7 - k)) w"] block_byte [of "7 - k" bs c] assms by (simp add: w_def)
  have u: "ucast (x XOR y) = (ucast x XOR ucast y :: u64)" for x y :: u32
    by (rule word_bit_eqI) (auto simp: bit_simps)
  have last: "drop_bit 56 w = take_bit 8 (drop_bit 56 w)"
    by (rule word_bit_eqI) (auto simp: bit_simps dest: bit_imp_le_length)
  obtain b0 b1 b2 b3 b4 b5 b6 b7 where bs: "bs = [b0, b1, b2, b3, b4, b5, b6, b7]"
    using assms by (auto simp: length_Suc_conv numeral_eq_Suc)
  have z: "drop_bit 64 c = 0"
    by (rule word_bit_eqI) (auto simp: bit_simps dest: bit_imp_le_length)
  have d: "drop_bit 8 (drop_bit n c) = drop_bit (n + 8) c" for n by (simp add: drop_bit_drop_bit add.commute)
  have f: "fold crc_update bs c =
      (crc_byte ^^ Suc 7) (take_bit 8 (drop_bit (8 * 0) c XOR ucast b0)) XOR
      (crc_byte ^^ Suc 6) (take_bit 8 (drop_bit (8 * 1) c XOR ucast b1)) XOR
      (crc_byte ^^ Suc 5) (take_bit 8 (drop_bit (8 * 2) c XOR ucast b2)) XOR
      (crc_byte ^^ Suc 4) (take_bit 8 (drop_bit (8 * 3) c XOR ucast b3)) XOR
      (crc_byte ^^ Suc 3) (take_bit 8 (drop_bit (8 * 4) c XOR ucast b4)) XOR
      (crc_byte ^^ Suc 2) (take_bit 8 (drop_bit (8 * 5) c XOR ucast b5)) XOR
      (crc_byte ^^ Suc 1) (take_bit 8 (drop_bit (8 * 6) c XOR ucast b6)) XOR
      (crc_byte ^^ Suc 0) (take_bit 8 (drop_bit (8 * 7) c XOR ucast b7))"
    by (simp add: bs fold_step d z xor.assoc del: fold_Cons funpow.simps One_nat_def flip: One_nat_def)
  show ?thesis
    unfolding f u sw_block_def Let_def w_def [symmetric] and_ff
    using t [of 0] t [of 1] t [of 2] t [of 3] t [of 4] t [of 5] t [of 6] t [of 7] last
    by (simp add: bs del: funpow.simps)
qed

text \<open>What a loop leaves of the buffer completes the checksum it has reached.\<close>

definition consumed :: "byte list \<Rightarrow> u32 \<Rightarrow> byte list \<times> u64 \<Rightarrow> bool" where
  "consumed bs c r \<longleftrightarrow> (\<exists>c'. snd r = ucast c' \<and> fold crc_update (fst r) c' = fold crc_update bs c)"

lemma consumed_refl: "consumed bs c (bs, ucast c)"
  by (auto simp: consumed_def)

lemma consumed_step: "consumed bs (fold crc_update xs c) r \<Longrightarrow> consumed (xs @ bs) c r"
  by (simp add: consumed_def)

lemma consumed_elim:
  assumes "consumed bs c r"
  obtains bs' c' where "r = (bs', ucast c')" "fold crc_update bs' c' = fold crc_update bs c"
  using assms by (cases r) (auto simp: consumed_def)

lemma sw_head_consumed: "consumed bs c (sw_head crc32c_init_sw addr bs (ucast c))"
proof (induction bs arbitrary: addr c)
  case (Cons b bs)
  have "consumed (b # bs) c (sw_head crc32c_init_sw (addr + 1) bs (ucast (crc_update b c)))"
    using consumed_step [of bs "[b]" c] Cons.IH by simp
  then show ?case by (simp add: sw_byte_update consumed_refl)
qed (simp add: consumed_refl)

lemma sw_blocks_consumed: "consumed bs c (sw_blocks crc32c_init_sw bs (ucast c))"
proof (induction bs arbitrary: c rule: length_induct)
  case (1 bs)
  show ?case
  proof (cases "8 \<le> length bs")
    case True
    then have "consumed (drop 8 bs) (fold crc_update (take 8 bs) c)
        (sw_blocks crc32c_init_sw (drop 8 bs) (ucast (fold crc_update (take 8 bs) c)))"
      using 1 by (simp add: consumed_refl)
    from consumed_step [OF this] show ?thesis
      using True by (subst sw_blocks.simps) (simp add: sw_block_update)
  next
    case False
    then show ?thesis by (subst sw_blocks.simps) (simp add: consumed_refl)
  qed
qed

lemma fold_sw_byte: "fold (\<lambda>b crc. sw_byte crc32c_init_sw crc b) bs (ucast c) = ucast (fold crc_update bs c)"
  by (induction bs arbitrary: c) (simp_all add: sw_byte_update)

lemma ucast_ucast: "ucast (ucast c :: u64) = c" for c :: u32
  by (rule word_bit_eqI) (simp add: bit_simps)

lemma xor_ones: "c XOR 0xffffffff = NOT c" for c :: u32
proof -
  have "(0xffffffff :: u32) = - 1" by simp
  then show ?thesis by (simp only: bit.xor_one_right)
qed

lemma crc32c_sw_bitwise: "crc32c_sw addr crc buf = crc_bitwise crc buf"
proof -
  obtain bs c where h: "sw_head crc32c_init_sw addr buf (ucast (NOT crc)) = (bs, ucast c)"
      "fold crc_update bs c = fold crc_update buf (NOT crc)"
    using sw_head_consumed by (rule consumed_elim)
  obtain bs' c' where b: "sw_blocks crc32c_init_sw bs (ucast c) = (bs', ucast c')"
      "fold crc_update bs' c' = fold crc_update bs c"
    using sw_blocks_consumed by (rule consumed_elim)
  show ?thesis
    by (simp add: crc32c_sw_def xor_ones h b fold_sw_byte ucast_ucast crc_bitwise_def)
qed

subsection \<open>The matrices\<close>

text \<open>The matrix of a linear function.\<close>

definition matrix :: "(u32 \<Rightarrow> u32) \<Rightarrow> u32 list" where
  "matrix f = map (\<lambda>n. f (push_bit n 1)) [0..<32]"

lemma matrix_nth: "n < 32 \<Longrightarrow> matrix f ! n = f (push_bit n 1)"
  by (simp add: matrix_def del: upt_rec_numeral)

lemma shift_split:
  "push_bit j (take_bit (Suc k) vec) =
     (if vec AND 1 \<noteq> 0 then push_bit j 1 else 0) XOR push_bit (Suc j) (take_bit k (drop_bit 1 vec))" for vec :: u32
proof (rule word_bit_eqI)
  fix n :: nat
  assume n: "n < LENGTH(32)"
  show "bit (push_bit j (take_bit (Suc k) vec)) n =
      bit ((if vec AND 1 \<noteq> 0 then push_bit j 1 else 0) XOR push_bit (Suc j) (take_bit k (drop_bit 1 vec))) n"
  proof (cases "n \<le> j")
    case True
    with n show ?thesis
      by (auto simp: and_one_odd bit_xor_iff bit_push_bit_iff bit_take_bit_iff bit_1_iff bit_exp_iff simp del: push_bit_Suc)
  next
    case False
    then obtain m where m: "n = Suc j + m" by (metis not_le less_eqE Suc_leI)
    with n show ?thesis
      by (simp add: bit_xor_iff bit_push_bit_iff bit_take_bit_iff bit_drop_bit_eq bit_1_iff bit_exp_iff del: push_bit_Suc)
  qed
qed

lemma gf2_times_loop_linear:
  assumes "linear f"
  shows "gf2_times_loop (map (\<lambda>i. f (push_bit (j + i) 1)) [0..<k]) vec acc = acc XOR f (push_bit j (take_bit k vec))"
proof (induction k arbitrary: j vec acc)
  case 0
  then show ?case by (simp add: linear_0 [OF assms])
next
  case (Suc k)
  have l: "map (\<lambda>i. f (push_bit (j + i) 1)) [0..<Suc k] =
      f (push_bit j 1) # map (\<lambda>i. f (push_bit (Suc j + i) 1)) [0..<k]"
    by (simp add: upt_conv_Cons map_Suc_upt [symmetric] comp_def del: upt_Suc)
  have "push_bit j (take_bit (Suc k) vec) =
      (if vec AND 1 \<noteq> 0 then push_bit j 1 else 0) XOR push_bit (Suc j) (take_bit k (drop_bit 1 vec))"
    by (rule shift_split)
  then show ?case
    unfolding l
    using Suc.IH [of "Suc j" "drop_bit 1 vec" acc] Suc.IH [of "Suc j" "drop_bit 1 vec" "acc XOR f (push_bit j 1)"]
      linear_xor [OF assms, of "push_bit j 1"] linear_0 [OF assms]
    by (auto simp: xor.assoc)
qed

lemma matrix_times: "linear f \<Longrightarrow> gf2_matrix_times (matrix f) vec = f vec"
  using gf2_times_loop_linear [of f 0 32 vec 0]
  by (simp add: gf2_matrix_times_def matrix_def take_bit_word_eq_self del: upt_rec_numeral)

lemma matrix_square: "linear f \<Longrightarrow> gf2_matrix_square (matrix f) = matrix (\<lambda>x. f (f x))"
  by (simp add: gf2_matrix_square_def matrix_times matrix_nth) (simp add: matrix_def matrix_nth)

lemma zeros_loop_power:
  "zeros_loop (matrix (crc_bit ^^ m)) (2 ^ k) = matrix (crc_bit ^^ (2 * m * 2 ^ k))"
proof (induction k arbitrary: m rule: less_induct)
  case (less k)
  have sq: "gf2_matrix_square (matrix (crc_bit ^^ m)) = matrix (crc_bit ^^ (2 * m))" for m
    by (simp only: mult_2 funpow_add comp_def matrix_square linear_byte)
  show ?case
  proof (cases "k < 2")
    case True
    then have "k = 0 \<or> k = 1" by auto
    then show ?thesis by (subst zeros_loop.simps) (auto simp: sq)
  next
    case False
    then obtain j where j: "k = Suc (Suc j)" by (metis add_2_eq_Suc le_Suc_ex not_less)
    have "zeros_loop (matrix (crc_bit ^^ m)) (2 ^ k) = zeros_loop (matrix (crc_bit ^^ (2 * (2 * m)))) (2 ^ j)"
      by (subst zeros_loop.simps) (simp add: sq j)
    also have "\<dots> = matrix (crc_bit ^^ (2 * (2 * (2 * m)) * 2 ^ j))" by (rule less) (simp add: j)
    also have "2 * (2 * (2 * m)) * 2 ^ j = 2 * m * 2 ^ k" by (simp add: j)
    finally show ?thesis .
  qed
qed

lemma crc_bit_power: "crc_bit (push_bit (Suc n) 1) = push_bit n 1" if "Suc n < 32" for n
proof -
  have "\<not> bit (push_bit (Suc n) 1 :: u32) 0" by (simp only: bit_push_bit_iff) simp
  moreover have "drop_bit 1 (push_bit (Suc n) 1) = (push_bit n 1 :: u32)"
    using that by (intro word_bit_eqI) (auto simp: bit_simps bit_exp_iff)
  ultimately show ?thesis by (simp add: crc_bit_def and_one_odd del: push_bit_Suc)
qed

lemma matrix_crc_bit: "POLY # map (\<lambda>n. push_bit n 1) [0..<31] = matrix crc_bit"
proof (rule nth_equalityI)
  fix i
  assume "i < length (POLY # map (\<lambda>n. push_bit n 1 :: u32) [0..<31])"
  then have i: "i < 32" by (simp del: upt_rec_numeral)
  have "crc_bit 1 = POLY" by (simp add: crc_bit_def)
  with i show "(POLY # map (\<lambda>n. push_bit n 1) [0..<31]) ! i = matrix crc_bit ! i"
    using crc_bit_power [of "i - 1"] by (cases i) (simp_all add: matrix_nth del: upt_rec_numeral push_bit_Suc)
qed (simp add: matrix_def del: upt_rec_numeral)

lemma crc32c_zeros_op_power: "crc32c_zeros_op (2 ^ k) = matrix (crc_byte ^^ (2 ^ k))"
proof -
  have "gf2_matrix_square (matrix crc_bit) = matrix (crc_bit ^^ 2)"
    using matrix_square [OF linear_bit] by (simp add: numeral_2_eq_2 comp_def)
  then have "gf2_matrix_square (gf2_matrix_square (matrix crc_bit)) = matrix (crc_bit ^^ 4)"
    using matrix_square [OF linear_byte, of 2] by (simp add: eval_nat_numeral comp_def)
  then show ?thesis
    using zeros_loop_power [of 4 k] unfolding crc32c_zeros_op_def matrix_crc_bit Let_def
    by (simp add: funpow_mult mult.commute)
qed

lemma bytes_split:
  "crc = take_bit 8 crc XOR push_bit 8 (take_bit 8 (drop_bit 8 crc)) XOR
    push_bit 16 (take_bit 8 (drop_bit 16 crc)) XOR push_bit 24 (drop_bit 24 crc)" for crc :: u32
  by (rule word_bit_eqI) (auto simp: bit_simps)

lemma crc32c_zeros_nth:
  assumes "j < 4" "n < 256"
  shows "crc32c_zeros (2 ^ k) ! j ! n = (crc_byte ^^ (2 ^ k)) (push_bit (8 * j) (of_nat n))"
  using assms by (simp add: crc32c_zeros_def crc32c_zeros_op_power matrix_times linear_funpow linear_bit Let_def
      del: upt_rec_numeral)

lemma crc32c_shift_zeros: "crc32c_shift (crc32c_zeros (2 ^ k)) crc = (crc_byte ^^ (2 ^ k)) crc"
proof -
  have l: "linear (crc_byte ^^ (2 ^ k))" by (intro linear_funpow linear_bit)
  have z: "j < 4 \<Longrightarrow> crc32c_zeros (2 ^ k) ! j ! unat (take_bit 8 x) = (crc_byte ^^ (2 ^ k)) (push_bit (8 * j) (take_bit 8 x))"
    for j and x :: u32
    using crc32c_zeros_nth [OF _ byte_index [of x], of j k] by simp
  have d: "drop_bit 24 crc = take_bit 8 (drop_bit 24 crc)"
    by (rule word_bit_eqI) (auto simp: bit_simps dest: bit_imp_le_length)
  show ?thesis
    unfolding crc32c_shift_def and_ff
    using z [of 0 crc] z [of 1 "drop_bit 8 crc"] z [of 2 "drop_bit 16 crc"] z [of 3 "drop_bit 24 crc"] d
      arg_cong [OF bytes_split [of crc], of "crc_byte ^^ (2 ^ k)"]
    by (simp add: linear_xor [OF l])
qed

subsection \<open>The hardware version is the reference\<close>

lemma crc32b_update: "crc32b b (ucast c) = ucast (crc_update b c)"
  by (simp add: crc32b_def ucast_ucast crc_update_def)

lemma fold_crc32b: "fold crc32b bs (ucast c) = ucast (fold crc_update bs c)"
  by (induction bs arbitrary: c) (simp_all add: crc32b_update)

lemma crc32q_update: "crc32q bs (ucast c) = ucast (fold crc_update (take 8 bs) c)"
  by (simp add: crc32q_def fold_crc32b)

lemma take_more: "8 \<le> m \<Longrightarrow> take m xs = take 8 xs @ take (m - 8) (drop 8 xs)"
  using take_add [of 8 "m - 8" xs] by simp

lemma hw_inner_update:
  "8 dvd left0 \<Longrightarrow> 0 < left0 \<Longrightarrow>
    hw_inner n left0 bs (ucast a, ucast b, ucast c) =
      (ucast (fold crc_update (take left0 bs) a), ucast (fold crc_update (take left0 (drop n bs)) b),
       ucast (fold crc_update (take left0 (drop (2 * n) bs)) c))"
proof (induction left0 arbitrary: bs a b c rule: less_induct)
  case (less m)
  then have m: "8 \<le> m" by (auto dest: dvd_imp_le)
  show ?case
  proof (cases "8 < m")
    case True
    then have "8 dvd m - 8" "0 < m - 8" "m - 8 < m" using less.prems by (simp_all add: dvd_diff_nat)
    from less.IH [OF this(3,1,2)] True show ?thesis
      by (subst hw_inner.simps) (simp add: crc32q_update take_more [OF m] drop_drop add.commute)
  next
    case False
    with m have "m = 8" by simp
    then show ?thesis by (subst hw_inner.simps) (simp add: crc32q_update)
  qed
qed

lemma hw_triples_consumed:
  assumes n: "n = 2 ^ k" "8 dvd n"
  shows "consumed bs c (hw_triples n (crc32c_zeros n) bs (ucast c))"
proof (induction bs arbitrary: c rule: length_induct)
  case (1 bs)
  show ?case
  proof (cases "n * 3 \<le> length bs")
    case True
    define xs ys zs where d: "xs = take n bs" "ys = take n (drop n bs)" "zs = take n (drop (2 * n) bs)"
    define a where "a = fold crc_update xs c"
    have l: "length ys = n" "length zs = n" using True by (simp_all add: d)
    have i: "hw_inner n n bs (ucast c, 0, 0) =
        (ucast a, ucast (fold crc_update ys 0), ucast (fold crc_update zs 0))"
      using hw_inner_update [of n n bs c 0 0] n by (simp add: d a_def)
    have u: "ucast x XOR ucast y = (ucast (x XOR y) :: u64)" for x y :: u32
      by (rule word_bit_eqI) (auto simp: bit_simps)
    have s: "crc32c_shift (crc32c_zeros n) x XOR fold crc_update ws 0 = fold crc_update ws x"
      if "length ws = n" for x and ws :: "byte list"
      using fold_xor [of ws x 0] that by (simp add: n(1) crc32c_shift_zeros)
    have t: "take (n * 3) bs = xs @ ys @ zs"
    proof -
      have "n * 3 = n + (n + n)" "2 * n = n + n" by simp_all
      then show ?thesis
        using take_add [of n "n + n" bs] take_add [of n n "drop n bs"] by (simp only: d drop_drop)
    qed
    then have f: "fold crc_update (take (n * 3) bs) c = fold crc_update zs (fold crc_update ys a)"
      by (simp add: a_def)
    have n0: "0 < n" using n by simp
    then have "length (drop (n * 3) bs) < length bs" using True unfolding length_drop by linarith
    then have "consumed (take (n * 3) bs @ drop (n * 3) bs) c
        (hw_triples n (crc32c_zeros n) (drop (n * 3) bs) (ucast (fold crc_update (take (n * 3) bs) c)))"
      using 1 by (intro consumed_step) simp
    then show ?thesis
      using True n0 by (subst hw_triples.simps) (simp add: i u s l ucast_ucast f)
  next
    case False
    then show ?thesis by (subst hw_triples.simps) (simp add: consumed_refl)
  qed
qed

lemma hw_head_consumed: "consumed bs c (hw_head addr bs (ucast c))"
proof (induction bs arbitrary: addr c)
  case (Cons b bs)
  have "consumed (b # bs) c (hw_head (addr + 1) bs (ucast (crc_update b c)))"
    using consumed_step [of bs "[b]" c] Cons.IH by simp
  then show ?case by (simp add: crc32b_update consumed_refl)
qed (simp add: consumed_refl)

lemma hw_units_consumed: "consumed bs c (hw_units bs (ucast c))"
proof (induction bs arbitrary: c rule: length_induct)
  case (1 bs)
  show ?case
  proof (cases "8 \<le> length bs")
    case True
    then have "consumed (take 8 bs @ drop 8 bs) c (hw_units (drop 8 bs) (ucast (fold crc_update (take 8 bs) c)))"
      using 1 by (intro consumed_step) simp
    then show ?thesis using True by (subst hw_units.simps) (simp add: crc32q_update)
  next
    case False
    then show ?thesis by (subst hw_units.simps) (simp add: consumed_refl)
  qed
qed

lemma crc32c_hw_bitwise: "crc32c_hw addr crc buf = crc_bitwise crc buf"
proof -
  obtain bs1 c1 where h: "hw_head addr buf (ucast (NOT crc)) = (bs1, ucast c1)"
      "fold crc_update bs1 c1 = fold crc_update buf (NOT crc)"
    using hw_head_consumed by (rule consumed_elim)
  have "LONG = 2 ^ 13" "8 dvd LONG" "SHORT = 2 ^ 8" "8 dvd SHORT" by (simp_all add: LONG_def SHORT_def)
  note c = hw_triples_consumed [OF this(1,2)] hw_triples_consumed [OF this(3,4)]
  obtain bs2 c2 where l: "hw_triples LONG (crc32c_zeros LONG) bs1 (ucast c1) = (bs2, ucast c2)"
      "fold crc_update bs2 c2 = fold crc_update bs1 c1"
    using c(1) by (rule consumed_elim)
  obtain bs3 c3 where s: "hw_triples SHORT (crc32c_zeros SHORT) bs2 (ucast c2) = (bs3, ucast c3)"
      "fold crc_update bs3 c3 = fold crc_update bs2 c2"
    using c(2) by (rule consumed_elim)
  obtain bs4 c4 where u: "hw_units bs3 (ucast c3) = (bs4, ucast c4)"
      "fold crc_update bs4 c4 = fold crc_update bs3 c3"
    using hw_units_consumed by (rule consumed_elim)
  show ?thesis
    by (simp add: crc32c_hw_def xor_ones h l s u fold_crc32b ucast_ucast crc_bitwise_def)
qed

text \<open>
  C5: both versions of the checksum compute CRC-32C.  Whether the processor has the instruction,
  and however the buffer is aligned, the result is that of the definition one bit at a time; the
  tables, the blocks of eight bytes, and the three parallel checksums joined by the matrices for
  8192 and 256 zero bytes change nothing.
\<close>

theorem crc32c_correct: "crc32c sse42 addr crc buf = crc_bitwise crc buf"
  by (simp add: crc32c_def crc32c_hw_bitwise crc32c_sw_bitwise)

text \<open>
  The checksum of the nine digits, the usual test of the polynomial, and that the checksum of a
  message in parts is the checksum of the whole.
\<close>

lemma crc_byte_unroll:
  "crc_byte c = crc_bit (crc_bit (crc_bit (crc_bit (crc_bit (crc_bit (crc_bit (crc_bit c)))))))"
  by (simp add: eval_nat_numeral)

lemma crc_bitwise_digits:
  "crc_bitwise 0 [0x31, 0x32, 0x33, 0x34, 0x35, 0x36, 0x37, 0x38, 0x39] = 0xe3069283"
  by (simp add: crc_bitwise_def crc_update_def crc_byte_unroll crc_bit_def POLY_def)

lemma crc32c_parts: "crc32c h2 a2 (crc32c h1 a1 crc xs) ys = crc32c h3 a3 crc (xs @ ys)"
  by (simp add: crc32c_def crc32c_hw_bitwise crc32c_sw_bitwise crc_bitwise_def)

end
