(* ===== verification/RK_Assign.thy ===== *)
theory RK_Assign
  imports CString "HOL-Library.Multiset" "HOL-Library.List_Lexorder"
begin

section \<open>Partition assignment of a consumer group\<close>

text \<open>
  The leader of a consumer group assigns partitions to the members:
  \<open>src/librdkafka-1.4.2/src/rdkafka_assignor.c\<close> finds for every topic its subscribers, and
  \<open>rdkafka_range_assignor.c\<close> or \<open>rdkafka_roundrobin_assignor.c\<close> divides the partitions.  A pointer
  to a member is its index in the array of members.  The library's \<open>qsort\<close> and the regular
  expressions of the platform are arguments.  A failed assertion is \<open>None\<close>.
\<close>

subsection \<open>Data\<close>

record metadata_topic =
  topic_name :: cstr
  partition_cnt :: int

record group_member =
  rkgm_member_id :: cstr
  rkgm_group_instance_id :: "cstr option"
  rkgm_subscription :: "cstr list"
  rkgm_eligible :: "metadata_topic list"
  rkgm_assignment :: "(cstr \<times> int) list"

record assignor_topic =
  at_metadata :: metadata_topic
  at_members :: "nat list"

fun memcmp :: "cstr \<Rightarrow> cstr \<Rightarrow> int" where
  "memcmp (a # s) (b # t) = (if a = b then memcmp s t else of_char a - of_char b)"
| "memcmp s t = 0"

definition rd_kafkap_str_cmp :: "cstr \<Rightarrow> cstr \<Rightarrow> int" where
  "rd_kafkap_str_cmp a b =
     (let minlen = min (length a) (length b); r = memcmp (take minlen a) (take minlen b) in
      if r \<noteq> 0 then r
      else if length a < length b then - 1 else if length a > length b then 1 else 0)"

definition rd_kafka_group_member_cmp :: "group_member \<Rightarrow> group_member \<Rightarrow> int" where
  "rd_kafka_group_member_cmp a b =
     (case (rkgm_group_instance_id a, rkgm_group_instance_id b) of
        (Some i, Some j) \<Rightarrow> rd_kafkap_str_cmp i j
      | _ \<Rightarrow> rd_kafkap_str_cmp (rkgm_member_id a) (rkgm_member_id b))"

definition rd_kafka_assignor_topic_cmp :: "assignor_topic \<Rightarrow> assignor_topic \<Rightarrow> int" where
  "rd_kafka_assignor_topic_cmp a b = strcmp (topic_name (at_metadata a)) (topic_name (at_metadata b))"

text \<open>The result, and whether it comes from a regular expression.\<close>

definition rd_kafka_topic_partition_match :: "(cstr \<Rightarrow> cstr \<Rightarrow> int) \<Rightarrow> cstr \<Rightarrow> cstr \<Rightarrow> bool \<times> bool" where
  "rd_kafka_topic_partition_match regex pat topic =
     (if pat \<noteq> [] \<and> hd pat = CHR ''^'' then
        (let ret = regex pat topic in if ret = - 1 then (False, False) else (ret \<noteq> 0, ret \<noteq> 0))
      else (strcmp pat topic = 0, False))"

definition rd_kafka_group_member_find_subscription :: "(cstr \<Rightarrow> cstr \<Rightarrow> int) \<Rightarrow> group_member \<Rightarrow> cstr \<Rightarrow> bool" where
  "rd_kafka_group_member_find_subscription regex rkgm topic =
     list_ex (\<lambda>pat. fst (rd_kafka_topic_partition_match regex pat topic)) (rkgm_subscription rkgm)"

subsection \<open>Lists of partitions\<close>

definition list_add :: "(cstr \<times> int) list \<Rightarrow> cstr \<Rightarrow> int \<Rightarrow> (cstr \<times> int) list" where
  "list_add rktparlist topic partition0 = rktparlist @ [(topic, partition0)]"



subsection \<open>Subscribers of the topics\<close>

text \<open>The loop over the subscriptions of a member: the eligible topics, the matches, those by regular expression.\<close>

fun match_loop :: "(cstr \<Rightarrow> cstr \<Rightarrow> int) \<Rightarrow> metadata_topic \<Rightarrow> cstr list \<Rightarrow> metadata_topic list \<Rightarrow> nat \<Rightarrow> nat \<Rightarrow>
    metadata_topic list \<times> nat \<times> nat" where
  "match_loop regex topic [] elig matched has_regex = (elig, matched, has_regex)"
| "match_loop regex topic (pat # pats) elig matched has_regex =
     (case rd_kafka_topic_partition_match regex pat (topic_name topic) of (ret, by_regex) \<Rightarrow>
        if ret then match_loop regex topic pats (elig @ [topic]) (matched + 1) (has_regex + (if by_regex then 1 else 0))
        else match_loop regex topic pats elig matched has_regex)"

definition rd_kafka_member_subscription_match ::
    "(cstr \<Rightarrow> cstr \<Rightarrow> int) \<Rightarrow> group_member list \<Rightarrow> nat \<Rightarrow> metadata_topic \<Rightarrow> nat list \<Rightarrow>
      bool \<times> group_member list \<times> nat list" where
  "rd_kafka_member_subscription_match regex members i topic ms =
     (let rkgm = members ! i;
          (elig, matched, has_regex) = match_loop regex topic (rkgm_subscription rkgm) (rkgm_eligible rkgm) 0 0;
          members = members[i := rkgm\<lparr>rkgm_eligible := elig\<rparr>];
          ms = (if matched \<noteq> 0 then ms @ [i] else ms) in
      (has_regex = 0 \<and> length elig = length (rkgm_subscription rkgm), members, ms))"

fun members_loop ::
    "(cstr \<Rightarrow> cstr \<Rightarrow> int) \<Rightarrow> metadata_topic \<Rightarrow> nat list \<Rightarrow> group_member list \<Rightarrow> nat list \<Rightarrow> nat \<Rightarrow>
      group_member list \<times> nat list \<times> nat" where
  "members_loop regex topic [] members ms complete_cnt = (members, ms, complete_cnt)"
| "members_loop regex topic (i # is) members ms complete_cnt =
     (case rd_kafka_member_subscription_match regex members i topic ms of (complete, members, ms) \<Rightarrow>
        members_loop regex topic is members ms (if complete then complete_cnt + 1 else complete_cnt))"

fun rd_kafka_member_subscriptions_map ::
    "(cstr \<Rightarrow> cstr \<Rightarrow> int) \<Rightarrow> (cstr \<Rightarrow> bool) \<Rightarrow> metadata_topic list \<Rightarrow> group_member list \<Rightarrow> assignor_topic list \<Rightarrow>
      group_member list \<times> assignor_topic list" where
  "rd_kafka_member_subscriptions_map regex blacklist [] members eligible = (members, eligible)"
| "rd_kafka_member_subscriptions_map regex blacklist (topic # topics) members eligible =
     (if blacklist (topic_name topic) then rd_kafka_member_subscriptions_map regex blacklist topics members eligible
      else
        (case members_loop regex topic [0..<length members] members [] 0 of (members, ms, complete_cnt) \<Rightarrow>
           if ms = [] then rd_kafka_member_subscriptions_map regex blacklist topics members eligible
           else
             (let eligible = eligible @ [\<lparr>at_metadata = topic, at_members = ms\<rparr>] in
              if complete_cnt = length members then (members, eligible)
              else rd_kafka_member_subscriptions_map regex blacklist topics members eligible)))"

subsection \<open>The range assignor\<close>

type_synonym 'a qsort = "('a \<Rightarrow> 'a \<Rightarrow> int) \<Rightarrow> 'a list \<Rightarrow> 'a list"



subsection \<open>The round-robin assignor\<close>

text \<open>The search for the next subscriber; the assertion keeps the index below the number of subscribers.\<close>

function scan_loop :: "(cstr \<Rightarrow> cstr \<Rightarrow> int) \<Rightarrow> group_member list \<Rightarrow> cstr \<Rightarrow> nat \<Rightarrow> nat \<Rightarrow> nat option" where
  "scan_loop regex members topic cnt next0 =
     (if next0 \<ge> length members then None
      else if rd_kafka_group_member_find_subscription regex (members ! next0) topic then Some next0
      else if next0 + 1 < cnt then scan_loop regex members topic cnt (next0 + 1) else None)"
  by pat_completeness auto
termination
  by (relation "measure (\<lambda>(_, _, _, cnt, next0). cnt - next0)") auto

declare scan_loop.simps [simp del]

function partitions_loop ::
    "(cstr \<Rightarrow> cstr \<Rightarrow> int) \<Rightarrow> cstr \<Rightarrow> nat \<Rightarrow> int \<Rightarrow> int \<Rightarrow> int \<Rightarrow> group_member list \<Rightarrow> (int \<times> group_member list) option" where
  "partitions_loop regex topic cnt partition_cnt0 partition0 next0 members =
     (if partition0 < partition_cnt0 then
        (if cnt = 0 then None
         else do {
           n \<leftarrow> scan_loop regex members topic cnt (nat ((next0 + 1) mod int cnt));
           partitions_loop regex topic cnt partition_cnt0 (partition0 + 1) (int n)
             (members[n := (members ! n)\<lparr>rkgm_assignment := list_add (rkgm_assignment (members ! n)) topic partition0\<rparr>]) })
      else Some (next0, members))"
  by pat_completeness auto
termination
  by (relation "measure (\<lambda>(_, _, _, partition_cnt0, partition0, _). nat (partition_cnt0 - partition0))") auto

declare partitions_loop.simps [simp del]

fun topics_rr_loop ::
    "(cstr \<Rightarrow> cstr \<Rightarrow> int) \<Rightarrow> assignor_topic list \<Rightarrow> int \<Rightarrow> group_member list \<Rightarrow> group_member list option" where
  "topics_rr_loop regex [] next0 members = Some members"
| "topics_rr_loop regex (t # topics) next0 members = do {
     (next0, members) \<leftarrow> partitions_loop regex (topic_name (at_metadata t)) (length (at_members t))
        (partition_cnt (at_metadata t)) 0 next0 members;
     topics_rr_loop regex topics next0 members }"

definition rd_kafka_roundrobin_assignor_assign_cb ::
    "(cstr \<Rightarrow> cstr \<Rightarrow> int) \<Rightarrow> assignor_topic qsort \<Rightarrow> group_member qsort \<Rightarrow>
      group_member list \<Rightarrow> assignor_topic list \<Rightarrow> group_member list option" where
  "rd_kafka_roundrobin_assignor_assign_cb regex qsort_topics qsort_members members topics =
     (let topics = qsort_topics rd_kafka_assignor_topic_cmp topics;
          members = qsort_members rd_kafka_group_member_cmp members in
      topics_rr_loop regex topics (- 1) members)"

subsection \<open>Running an assignor\<close>





subsection \<open>The ranges\<close>















abbreviation name_of :: "assignor_topic \<Rightarrow> cstr" where
  "name_of t \<equiv> topic_name (at_metadata t)"



subsection \<open>Subscribers\<close>

text \<open>Subscriptions to topics by name, each at most once.\<close>

definition literal :: "group_member \<Rightarrow> bool" where
  "literal m \<longleftrightarrow> distinct (rkgm_subscription m) \<and> (\<forall>pat\<in>set (rkgm_subscription m). pat = [] \<or> hd pat \<noteq> CHR ''^'')"

definition subscribers :: "cstr \<Rightarrow> group_member list \<Rightarrow> nat list" where
  "subscribers topic ms = filter (\<lambda>i. topic \<in> set (rkgm_subscription (ms ! i))) [0..<length ms]"

definition mark :: "metadata_topic \<Rightarrow> group_member \<Rightarrow> group_member" where
  "mark t m = m\<lparr>rkgm_eligible := rkgm_eligible m @ (if topic_name t \<in> set (rkgm_subscription m) then [t] else [])\<rparr>"

definition complete :: "group_member \<Rightarrow> bool" where
  "complete m \<longleftrightarrow> length (rkgm_eligible m) = length (rkgm_subscription m)"

lemma mark_simps [simp]:
  "rkgm_subscription (mark t m) = rkgm_subscription m" "rkgm_assignment (mark t m) = rkgm_assignment m"
  "literal (mark t m) = literal m"
  by (simp_all add: mark_def literal_def)




text \<open>The topics with subscribers that are not on the blacklist, in the order of the metadata.\<close>

definition subscribed :: "(cstr \<Rightarrow> bool) \<Rightarrow> metadata_topic list \<Rightarrow> group_member list \<Rightarrow> assignor_topic list" where
  "subscribed blacklist topics ms =
     map (\<lambda>t. \<lparr>at_metadata = t, at_members = subscribers (topic_name t) ms\<rparr>)
       (filter (\<lambda>t. \<not> blacklist (topic_name t) \<and> subscribers (topic_name t) ms \<noteq> []) topics)"





lemma subscribers_mark: "subscribers topic (map (mark t) ms) = subscribers topic ms"
  by (auto simp: subscribers_def intro!: filter_cong)

lemma subscribed_mark: "subscribed blacklist topics (map (mark t) ms) = subscribed blacklist topics ms"
  by (simp add: subscribed_def subscribers_mark)




text \<open>The example of the comment in the source: two members and two topics of three partitions.\<close>

fun cmp_insert :: "('a \<Rightarrow> 'a \<Rightarrow> int) \<Rightarrow> 'a \<Rightarrow> 'a list \<Rightarrow> 'a list" where
  "cmp_insert cmp x [] = [x]"
| "cmp_insert cmp x (y # ys) = (if cmp x y \<le> 0 then x # y # ys else y # cmp_insert cmp x ys)"

fun cmp_sort :: "'a qsort" where
  "cmp_sort cmp [] = []"
| "cmp_sort cmp (x # xs) = cmp_insert cmp x (cmp_sort cmp xs)"

lemma mset_cmp_sort: "mset (cmp_sort cmp xs) = mset xs"
proof -
  have "mset (cmp_insert cmp x ys) = add_mset x (mset ys)" for x ys
    by (induction ys) simp_all
  then show ?thesis by (induction xs) simp_all
qed

definition plain_member :: "cstr \<Rightarrow> cstr list \<Rightarrow> group_member" where
  "plain_member name subs =
     \<lparr>rkgm_member_id = name, rkgm_group_instance_id = None, rkgm_subscription = subs, rkgm_eligible = [], rkgm_assignment = []\<rparr>"



text \<open>
  With a subscription by regular expression the search can stop too early: the third topic
  matches the expression of the first member, but after the second topic both members count as
  satisfied, and nobody is assigned the third.
\<close>

theorem subscriptions_map_regex_loses_topic:
  "map name_of (snd (rd_kafka_member_subscriptions_map
      (\<lambda>pat topic. if topic \<in> {''a1'', ''a2''} then 1 else 0) (\<lambda>_. False)
      [\<lparr>topic_name = ''a1'', partition_cnt = 1\<rparr>, \<lparr>topic_name = ''zz'', partition_cnt = 1\<rparr>,
       \<lparr>topic_name = ''a2'', partition_cnt = 1\<rparr>]
      [plain_member ''A'' [''^a.''], plain_member ''B'' [''zz'']] [])) = [''a1'', ''zz'']"
  by (simp add: plain_member_def upt_rec rd_kafka_member_subscription_match_def rd_kafka_topic_partition_match_def)

subsection \<open>Dealing the partitions round\<close>

text \<open>Cards dealt to \<open>m\<close> players in turn, the next to player \<open>q\<close>.\<close>

fun deal :: "nat \<Rightarrow> nat \<Rightarrow> (cstr \<times> int) list \<Rightarrow> group_member list \<Rightarrow> group_member list" where
  "deal m q [] ms = ms"
| "deal m q (x # xs) ms =
     deal m (q + 1) xs (ms[q mod m := (ms ! (q mod m))\<lparr>rkgm_assignment := rkgm_assignment (ms ! (q mod m)) @ [x]\<rparr>])"

lemma deal_append: "deal m q (xs @ ys) ms = deal m (q + length xs) ys (deal m q xs ms)"
  by (induction xs arbitrary: q ms) simp_all

lemma length_deal [simp]: "length (deal m q xs ms) = length ms"
  by (induction xs arbitrary: q ms) simp_all

lemma deal_nth:
  assumes "0 < m" "m = length ms" "j < m"
  shows "rkgm_assignment (deal m q xs ms ! j) =
    rkgm_assignment (ms ! j) @ map ((!) xs) (filter (\<lambda>i. (q + i) mod m = j) [0..<length xs])"
  using assms
proof (induction xs rule: rev_induct)
  case (snoc x xs)
  define k where "k = (q + length xs) mod m"
  have f: "map ((!) (xs @ [x])) (filter (\<lambda>i. (q + i) mod m = j) [0..<length (xs @ [x])]) =
      map ((!) xs) (filter (\<lambda>i. (q + i) mod m = j) [0..<length xs]) @ (if k = j then [x] else [])"
    by (simp add: nth_append k_def)
  have "k < m" using assms(1) by (simp add: k_def)
  moreover have "deal m q (xs @ [x]) ms = (deal m q xs ms)
      [k := (deal m q xs ms ! k)\<lparr>rkgm_assignment := rkgm_assignment (deal m q xs ms ! k) @ [x]\<rparr>]"
    by (simp add: deal_append k_def)
  ultimately show ?case
    unfolding f using snoc.IH [OF assms] assms(2,3) by (cases "k = j") simp_all
qed simp

lemma deal_share:
  assumes "0 < m" "j < m"
  shows "length (filter (\<lambda>i. i mod m = j) [0..<n]) = n div m + (if j < n mod m then 1 else 0)"
proof (induction n)
  case (Suc n)
  have "n mod m < m" using assms(1) by simp
  then show ?case using Suc assms(2) by (auto simp: div_Suc mod_Suc)
qed simp

definition subscribes :: "(cstr \<Rightarrow> cstr \<Rightarrow> int) \<Rightarrow> cstr \<Rightarrow> group_member list \<Rightarrow> bool" where
  "subscribes regex topic ms \<longleftrightarrow> (\<forall>m\<in>set ms. rd_kafka_group_member_find_subscription regex m topic)"

lemma subscribes_deal: "ms \<noteq> [] \<Longrightarrow> subscribes regex topic (deal (length ms) q xs ms) = subscribes regex topic ms"
proof (induction xs arbitrary: q ms)
  case (Cons x xs)
  let ?ms = "ms[q mod length ms := (ms ! (q mod length ms))\<lparr>rkgm_assignment := rkgm_assignment (ms ! (q mod length ms)) @ [x]\<rparr>]"
  have "i < length ms \<Longrightarrow> rkgm_subscription (?ms ! i) = rkgm_subscription (ms ! i)" for i
    by (cases "i = q mod length ms") simp_all
  then have "subscribes regex topic ?ms = subscribes regex topic ms"
    by (simp add: subscribes_def all_set_conv_all_nth rd_kafka_group_member_find_subscription_def)
  moreover have "?ms \<noteq> []" "length ?ms = length ms" using Cons.prems by simp_all
  ultimately show ?case using Cons.IH [of ?ms "q + 1"] by simp
qed simp

lemma partitions_loop_deal:
  assumes "subscribes regex topic ms" "ms \<noteq> []" "(next0 + 1) mod int (length ms) = int (q mod length ms)"
  shows "\<exists>next1. partitions_loop regex topic (length ms) n p next0 ms =
      Some (next1, deal (length ms) q (map (Pair topic) [p..n - 1]) ms) \<and>
    (next1 + 1) mod int (length ms) = int ((q + length [p..n - 1]) mod length ms)"
  using assms
proof (induction "nat (n - p)" arbitrary: p next0 q ms)
  case 0
  then show ?case by (subst partitions_loop.simps) simp
next
  case (Suc d)
  then have p: "p < n" by simp
  define k where "k = q mod length ms"
  have k: "k < length ms" "nat ((next0 + 1) mod int (length ms)) = k" using Suc.prems by (simp_all add: k_def)
  then have s: "scan_loop regex ms topic (length ms) k = Some k"
    using Suc.prems(1) by (subst scan_loop.simps) (simp add: subscribes_def)
  define ms1 where "ms1 = ms[k := (ms ! k)\<lparr>rkgm_assignment := list_add (rkgm_assignment (ms ! k)) topic p\<rparr>]"
  have l: "length ms1 = length ms" by (simp add: ms1_def)
  have d1: "deal (length ms) q [(topic, p)] ms = ms1" by (simp add: ms1_def list_add_def k_def)
  have u: "[p..n - 1] = p # [p + 1..n - 1]" using p by (simp add: upto_rec1)
  have x1: "subscribes regex topic ms1" using subscribes_deal [OF Suc.prems(2), of regex topic q "[(topic, p)]"] Suc.prems(1) d1 by simp
  have x2: "(int k + 1) mod int (length ms1) = int ((q + 1) mod length ms1)"
    by (simp add: l k_def of_nat_mod mod_simps add.commute [of _ 1])
  have x3: "ms1 \<noteq> []" "d = nat (n - (p + 1))" using Suc.prems(2) Suc.hyps(2) l by auto
  obtain next1 where n1: "partitions_loop regex topic (length ms1) n (p + 1) (int k) ms1 =
        Some (next1, deal (length ms1) (q + 1) (map (Pair topic) [p + 1..n - 1]) ms1)"
      "(next1 + 1) mod int (length ms1) = int ((q + 1 + length [p + 1..n - 1]) mod length ms1)"
    using Suc.hyps(1) [OF x3(2) x1 x3(1) x2] by blast
  have st: "partitions_loop regex topic (length ms) n p next0 ms =
      partitions_loop regex topic (length ms) n (p + 1) (int k) ms1"
    using p Suc.prems(2) k s by (subst partitions_loop.simps) (simp add: ms1_def)
  have de: "deal (length ms) q (map (Pair topic) [p..n - 1]) ms =
      deal (length ms) (q + 1) (map (Pair topic) [p + 1..n - 1]) ms1"
    using deal_append [of "length ms" q "[(topic, p)]" "map (Pair topic) [p + 1..n - 1]" ms] d1 by (simp add: u)
  have le: "q + 1 + length [p + 1..n - 1] = q + length [p..n - 1]" by (simp only: u list.size)
  show ?case unfolding st using n1 [unfolded l le] by (intro exI [of _ next1] conjI) (simp_all only: de)
qed

lemma topics_rr_loop_deal:
  assumes "\<forall>t\<in>set topics. subscribes regex (name_of t) ms \<and> length (at_members t) = length ms" "ms \<noteq> []"
    "(next0 + 1) mod int (length ms) = int (q mod length ms)"
  shows "topics_rr_loop regex topics next0 ms =
    Some (deal (length ms) q (concat (map (\<lambda>t. map (Pair (name_of t)) [0..partition_cnt (at_metadata t) - 1]) topics)) ms)"
  using assms
proof (induction topics arbitrary: next0 q ms)
  case (Cons t topics)
  let ?n = "partition_cnt (at_metadata t)"
  define ms1 where "ms1 = deal (length ms) q (map (Pair (name_of t)) [0..?n - 1]) ms"
  obtain next1 where n: "partitions_loop regex (name_of t) (length ms) ?n 0 next0 ms = Some (next1, ms1)"
      "(next1 + 1) mod int (length ms) = int ((q + length [0..?n - 1]) mod length ms)"
    using partitions_loop_deal [of regex "name_of t" ms next0 q ?n 0] Cons.prems by (auto simp: ms1_def)
  have l: "length ms1 = length ms" by (simp add: ms1_def)
  have "\<forall>t\<in>set topics. subscribes regex (name_of t) ms1 \<and> length (at_members t) = length ms1"
    using Cons.prems subscribes_deal by (simp add: ms1_def)
  moreover have "ms1 \<noteq> []" using Cons.prems(2) l by auto
  ultimately show ?case
  proof -
    assume y: "\<forall>t\<in>set topics. subscribes regex (name_of t) ms1 \<and> length (at_members t) = length ms1" "ms1 \<noteq> []"
    have "topics_rr_loop regex (t # topics) next0 ms = topics_rr_loop regex topics next1 ms1"
      using Cons.prems(1) n(1) by simp
    also have "\<dots> = Some (deal (length ms1) (q + length [0..?n - 1])
        (concat (map (\<lambda>t. map (Pair (name_of t)) [0..partition_cnt (at_metadata t) - 1]) topics)) ms1)"
      using Cons.IH [OF y] n(2) by (simp only: l)
    finally show ?thesis unfolding l by (simp only: list.map concat.simps deal_append ms1_def length_map)
  qed
qed simp

subsection \<open>Sorting\<close>

text \<open>
  What is documented of \<open>qsort\<close>: for a comparison that is consistent on the elements, the result has
  the same elements in ascending order.
\<close>

definition consistent :: "('a \<Rightarrow> 'a \<Rightarrow> int) \<Rightarrow> 'a set \<Rightarrow> bool" where
  "consistent cmp X \<longleftrightarrow> (\<forall>a\<in>X. \<forall>b\<in>X. sgn (cmp b a) = - sgn (cmp a b)) \<and>
     (\<forall>a\<in>X. \<forall>b\<in>X. \<forall>c\<in>X. cmp a b \<le> 0 \<longrightarrow> cmp b c \<le> 0 \<longrightarrow> cmp a c \<le> 0)"

definition qsort_documented :: "'a qsort \<Rightarrow> bool" where
  "qsort_documented srt \<longleftrightarrow> (\<forall>cmp xs. consistent cmp (set xs) \<longrightarrow>
     mset (srt cmp xs) = mset xs \<and> sorted_wrt (\<lambda>a b. cmp a b \<le> 0) (srt cmp xs))"

lemma consistent_sub: "consistent cmp X \<Longrightarrow> Y \<subseteq> X \<Longrightarrow> consistent cmp Y"
  unfolding consistent_def by blast

lemma consistent_trans:
  "consistent cmp X \<Longrightarrow> a \<in> X \<Longrightarrow> b \<in> X \<Longrightarrow> c \<in> X \<Longrightarrow> cmp a b \<le> 0 \<Longrightarrow> cmp b c \<le> 0 \<Longrightarrow> cmp a c \<le> 0"
  unfolding consistent_def by blast

lemma consistent_total:
  assumes "consistent cmp X" "a \<in> X" "b \<in> X" "\<not> cmp a b \<le> 0"
  shows "cmp b a \<le> 0"
proof -
  have "sgn (cmp b a) = - sgn (cmp a b)" using assms(1-3) unfolding consistent_def by blast
  then show ?thesis using assms(4) by (simp add: sgn_if split: if_splits)
qed

lemma set_cmp_insert: "set (cmp_insert cmp x ys) = insert x (set ys)"
  by (induction ys) auto

lemma cmp_insert_sorted:
  assumes "consistent cmp (insert x (set ys))" "sorted_wrt (\<lambda>a b. cmp a b \<le> 0) ys"
  shows "sorted_wrt (\<lambda>a b. cmp a b \<le> 0) (cmp_insert cmp x ys)"
  using assms
proof (induction ys)
  case (Cons y ys)
  show ?case
  proof (cases "cmp x y \<le> 0")
    case True
    have "cmp x z \<le> 0" if "z \<in> set ys" for z
      using consistent_trans [OF Cons.prems(1), of x y z] True Cons.prems(2) that by simp
    then show ?thesis using True Cons.prems(2) by simp
  next
    case False
    then have "cmp y x \<le> 0" using consistent_total [OF Cons.prems(1), of x y] by simp
    moreover have "consistent cmp (insert x (set ys))" using consistent_sub [OF Cons.prems(1)] by auto
    ultimately show ?thesis using False Cons.IH Cons.prems(2) by (simp add: set_cmp_insert)
  qed
qed simp

lemma cmp_sort_documented: "qsort_documented cmp_sort"
  unfolding qsort_documented_def
proof (intro allI impI conjI)
  fix cmp :: "'a \<Rightarrow> 'a \<Rightarrow> int" and xs
  show "mset (cmp_sort cmp xs) = mset xs" by (rule mset_cmp_sort)
  show "sorted_wrt (\<lambda>a b. cmp a b \<le> 0) (cmp_sort cmp xs)" if "consistent cmp (set xs)"
    using that
  proof (induction xs)
    case (Cons x xs)
    have "set (cmp_sort cmp xs) = set xs" using mset_eq_setD [OF mset_cmp_sort] .
    moreover have "consistent cmp (set xs)" using consistent_sub [OF Cons.prems] by auto
    ultimately show ?case using Cons cmp_insert_sorted [of cmp x "cmp_sort cmp xs"] by simp
  qed simp
qed

text \<open>Names are in the order of their bytes.\<close>

definition bytes :: "cstr \<Rightarrow> nat list" where
  "bytes s = map of_char s"

lemma strcmp_bytes: "strcmp a b \<le> 0 \<longleftrightarrow> bytes a \<le> bytes b"
proof (induction a b rule: strcmp.induct)
  case (4 c cs d ds)
  have "c \<noteq> d \<Longrightarrow> (of_char c :: nat) \<noteq> of_char d" by simp
  then show ?case using 4 by (cases "c = d") (auto simp: bytes_def le_neq_implies_less)
qed (simp_all add: bytes_def)

lemma str_cmp_strcmp: "rd_kafkap_str_cmp a b = strcmp a b"
proof (induction a b rule: strcmp.induct)
  case (4 c cs d ds)
  then show ?case by (auto simp: rd_kafkap_str_cmp_def Let_def of_nat_of_char)
qed (simp_all add: rd_kafkap_str_cmp_def)

text \<open>The name a member is sorted by, in a group where all members have an instance or none has.\<close>

definition member_key :: "group_member \<Rightarrow> cstr" where
  "member_key m = (case rkgm_group_instance_id m of Some i \<Rightarrow> i | None \<Rightarrow> rkgm_member_id m)"

definition uniform :: "group_member set \<Rightarrow> bool" where
  "uniform X \<longleftrightarrow> (\<forall>m\<in>X. rkgm_group_instance_id m = None) \<or> (\<forall>m\<in>X. rkgm_group_instance_id m \<noteq> None)"

lemma member_cmp_key:
  "uniform X \<Longrightarrow> a \<in> X \<Longrightarrow> b \<in> X \<Longrightarrow> rd_kafka_group_member_cmp a b = strcmp (member_key a) (member_key b)"
  by (auto simp: uniform_def rd_kafka_group_member_cmp_def member_key_def str_cmp_strcmp split: option.splits)

lemma strcmp_consistent: "consistent (\<lambda>a b. strcmp (f a) (f b)) X"
  unfolding consistent_def
proof (intro conjI ballI impI)
  show "sgn (strcmp (f b) (f a)) = - sgn (strcmp (f a) (f b))" for a b
    by (subst strcmp_flip) (rule sgn_minus)
  show "strcmp (f a) (f c) \<le> 0" if "strcmp (f a) (f b) \<le> 0" "strcmp (f b) (f c) \<le> 0" for a b c
    using that unfolding strcmp_bytes by (rule order_trans)
qed

lemma consistent_cong:
  assumes eq: "\<And>a b. a \<in> X \<Longrightarrow> b \<in> X \<Longrightarrow> cmp a b = cmp' a b" and c: "consistent cmp' X"
  shows "consistent cmp X"
  unfolding consistent_def
proof (intro conjI ballI impI)
  fix a b
  assume X: "a \<in> X" "b \<in> X"
  show "sgn (cmp b a) = - sgn (cmp a b)"
    unfolding eq [OF X] eq [OF X(2,1)] using c X unfolding consistent_def by blast
  fix d
  assume d: "d \<in> X" "cmp a b \<le> 0" "cmp b d \<le> 0"
  show "cmp a d \<le> 0"
    using consistent_trans [OF c X d(1)] d(2,3) unfolding eq [OF X] eq [OF X(2) d(1)] eq [OF X(1) d(1)] by blast
qed

lemma member_cmp_consistent:
  assumes "uniform X"
  shows "consistent rd_kafka_group_member_cmp X"
  by (rule consistent_cong [OF member_cmp_key [OF assms] strcmp_consistent])

lemma qsort_topics_sorted:
  assumes "qsort_documented srt"
  shows "mset (srt rd_kafka_assignor_topic_cmp ts) = mset ts"
    "sorted (map (\<lambda>t. bytes (name_of t)) (srt rd_kafka_assignor_topic_cmp ts))"
proof -
  have "consistent rd_kafka_assignor_topic_cmp (set ts)"
    using strcmp_consistent [of name_of "set ts"] unfolding consistent_def by (simp only: rd_kafka_assignor_topic_cmp_def)
  then have s: "mset (srt rd_kafka_assignor_topic_cmp ts) = mset ts"
    "sorted_wrt (\<lambda>a b. rd_kafka_assignor_topic_cmp a b \<le> 0) (srt rd_kafka_assignor_topic_cmp ts)"
    using assms unfolding qsort_documented_def by blast+
  show "mset (srt rd_kafka_assignor_topic_cmp ts) = mset ts" by (rule s(1))
  have "(\<lambda>a b. rd_kafka_assignor_topic_cmp a b \<le> 0) = (\<lambda>a b. bytes (name_of a) \<le> bytes (name_of b))"
    by (simp add: fun_eq_iff rd_kafka_assignor_topic_cmp_def strcmp_bytes)
  then show "sorted (map (\<lambda>t. bytes (name_of t)) (srt rd_kafka_assignor_topic_cmp ts))"
    using s(2) by (simp add: sorted_wrt_map)
qed

lemma qsort_members_sorted:
  assumes "qsort_documented srt" "uniform (set ms)"
  shows "mset (srt rd_kafka_group_member_cmp ms) = mset ms"
    "sorted (map (\<lambda>m. bytes (member_key m)) (srt rd_kafka_group_member_cmp ms))"
proof -
  define sm where "sm = srt rd_kafka_group_member_cmp ms"
  have s: "mset sm = mset ms" "sorted_wrt (\<lambda>a b. rd_kafka_group_member_cmp a b \<le> 0) sm"
    using assms(1) member_cmp_consistent [OF assms(2)] unfolding qsort_documented_def sm_def by blast+
  have "set sm = set ms" using mset_eq_setD [OF s(1)] .
  then have "bytes (member_key a) \<le> bytes (member_key b)" if "a \<in> set sm" "b \<in> set sm" "rd_kafka_group_member_cmp a b \<le> 0" for a b
    using that by (simp add: member_cmp_key [OF assms(2)] strcmp_bytes)
  then have "sorted_wrt (\<lambda>a b. bytes (member_key a) \<le> bytes (member_key b)) sm"
    using s(2) sorted_wrt_mono_rel [where xs = sm and P = "\<lambda>a b. rd_kafka_group_member_cmp a b \<le> 0"
      and Q = "\<lambda>a b. bytes (member_key a) \<le> bytes (member_key b)"] by blast
  then show "mset (srt rd_kafka_group_member_cmp ms) = mset ms"
    "sorted (map (\<lambda>m. bytes (member_key m)) (srt rd_kafka_group_member_cmp ms))"
    using s(1) by (simp_all add: sm_def sorted_wrt_map)
qed

text \<open>In a mixed group the comparison goes in a circle: the behaviour of \<open>qsort\<close> is undefined.\<close>

definition static_member :: "cstr option \<Rightarrow> cstr \<Rightarrow> group_member" where
  "static_member inst name =
     \<lparr>rkgm_member_id = name, rkgm_group_instance_id = inst, rkgm_subscription = [], rkgm_eligible = [], rkgm_assignment = []\<rparr>"

lemma member_cmp_circle:
  "rd_kafka_group_member_cmp (static_member (Some ''a'') ''z'') (static_member (Some ''b'') ''a'') < 0"
  "rd_kafka_group_member_cmp (static_member (Some ''b'') ''a'') (static_member None ''m'') < 0"
  "rd_kafka_group_member_cmp (static_member None ''m'') (static_member (Some ''a'') ''z'') < 0"
  by (simp_all add: static_member_def rd_kafka_group_member_cmp_def rd_kafkap_str_cmp_def)

subsection \<open>The round-robin assignment\<close>

lemma deal_same: "map (rkgm_assignment_update (\<lambda>_. [])) (deal m q xs ms) = map (rkgm_assignment_update (\<lambda>_. [])) ms"
proof (induction xs arbitrary: q ms)
  case (Cons x xs)
  have "map (rkgm_assignment_update (\<lambda>_. [])) (ms[k := (ms ! k)\<lparr>rkgm_assignment := a\<rparr>]) = map (rkgm_assignment_update (\<lambda>_. [])) ms" for k a
    by (cases "k < length ms") (simp_all add: map_update list_update_same_conv list_update_beyond)
  then show ?case using Cons.IH by simp
qed simp

lemma member_key_update: "member_key (m\<lparr>rkgm_assignment := a\<rparr>) = member_key m"
  by (cases "rkgm_group_instance_id m") (simp_all add: member_key_def)

text \<open>
  C31: When every member subscribes to every topic, and either all members have a group instance or
  none has, the round-robin assignor deals the partitions in turn: the topics are in the order of
  their names, the members in that of their instance or member names, both by bytes, and the member at
  a position has every partition that many places on.  The shares differ by at most one, and nothing
  else of the members changes.  The two calls of \<open>qsort\<close> are assumed to do what is documented.
\<close>

theorem roundrobin_uniform:
  fixes topics ms
  assumes "qsort_documented qsort_topics" "qsort_documented qsort_members" "uniform (set ms)" "ms \<noteq> []"
    and "\<forall>t\<in>set topics. subscribes regex (name_of t) ms \<and> length (at_members t) = length ms"
    and "\<forall>m\<in>set ms. rkgm_assignment m = []"
  shows "\<exists>ms' ts. rd_kafka_roundrobin_assignor_assign_cb regex qsort_topics qsort_members ms topics = Some ms' \<and>
    mset ts = mset topics \<and> sorted (map (\<lambda>t. bytes (name_of t)) ts) \<and>
    mset (map (rkgm_assignment_update (\<lambda>_. [])) ms') = mset ms \<and> sorted (map (\<lambda>m. bytes (member_key m)) ms') \<and>
    (let all = concat (map (\<lambda>t. map (Pair (name_of t)) [0..partition_cnt (at_metadata t) - 1]) ts) in
     \<forall>j<length ms. rkgm_assignment (ms' ! j) = map ((!) all) (filter (\<lambda>i. i mod length ms = j) [0..<length all]) \<and>
       length (rkgm_assignment (ms' ! j)) \<in> {length all div length ms, length all div length ms + 1})"
proof -
  define sm ts where "sm = qsort_members rd_kafka_group_member_cmp ms" and "ts = qsort_topics rd_kafka_assignor_topic_cmp topics"
  define all where "all = concat (map (\<lambda>t. map (Pair (name_of t)) [0..partition_cnt (at_metadata t) - 1]) ts)"
  note qt = qsort_topics_sorted [OF assms(1), of topics, folded ts_def]
    and qm = qsort_members_sorted [OF assms(2,3), folded sm_def]
  have s: "set sm = set ms" "length sm = length ms" "set ts = set topics"
    using mset_eq_setD [OF qm(1)] mset_eq_length [OF qm(1)] mset_eq_setD [OF qt(1)] by simp_all
  then have ne: "sm \<noteq> []" and m: "0 < length ms" using assms(4) by auto
  have t: "\<forall>t\<in>set ts. subscribes regex (name_of t) sm \<and> length (at_members t) = length sm"
    using assms(5) s by (simp add: subscribes_def)
  define ms' where "ms' = deal (length ms) 0 all sm"
  have r: "rd_kafka_roundrobin_assignor_assign_cb regex qsort_topics qsort_members ms topics = Some ms'"
    using topics_rr_loop_deal [OF t ne, of "- 1" 0]
    by (simp add: rd_kafka_roundrobin_assignor_assign_cb_def ts_def [symmetric] sm_def [symmetric] s(2) all_def ms'_def)
  have e: "rkgm_assignment m = []" if "m \<in> set sm" for m using assms(6) s(1) that by simp
  then have id: "map (rkgm_assignment_update (\<lambda>_. [])) sm = sm" by (simp add: map_idI)
  have ms': "map (rkgm_assignment_update (\<lambda>_. [])) ms' = sm" unfolding ms'_def deal_same id ..
  have "map (\<lambda>m. bytes (member_key m)) ms' = map (\<lambda>m. bytes (member_key m)) (map (rkgm_assignment_update (\<lambda>_. [])) ms')"
    by (simp add: member_key_update)
  then have so: "sorted (map (\<lambda>m. bytes (member_key m)) ms')" using qm(2) unfolding ms' by simp
  have d: "rkgm_assignment (ms' ! j) = map ((!) all) (filter (\<lambda>i. i mod length ms = j) [0..<length all])" if j: "j < length ms" for j
    using deal_nth [OF m s(2) [symmetric] j, of 0 all] e [of "sm ! j"] j s(2) by (simp add: ms'_def)
  then have "length (rkgm_assignment (ms' ! j)) \<in> {length all div length ms, length all div length ms + 1}" if "j < length ms" for j
    using deal_share [OF m that] that by simp
  with r qt qm(1) ms' so d show ?thesis
    unfolding Let_def all_def by (intro exI [of _ ms'] exI [of _ ts]) simp
qed

text \<open>The example of the comment in the source, with members and topics in another order.\<close>

definition rr_members :: "group_member list" where
  "rr_members = [plain_member ''C1'' [''t0'', ''t1''], plain_member ''C0'' [''t0'', ''t1'']]"

definition rr_topics :: "assignor_topic list" where
  "rr_topics = [\<lparr>at_metadata = \<lparr>topic_name = ''t1'', partition_cnt = 3\<rparr>, at_members = [0, 1]\<rparr>,
     \<lparr>at_metadata = \<lparr>topic_name = ''t0'', partition_cnt = 3\<rparr>, at_members = [0, 1]\<rparr>]"

lemma rr_example:
  "uniform (set rr_members)" "rr_members \<noteq> []" "\<forall>m\<in>set rr_members. rkgm_assignment m = []"
  "\<forall>t\<in>set rr_topics. subscribes (\<lambda>_ _. 0) (name_of t) rr_members \<and> length (at_members t) = length rr_members"
  by (simp_all add: rr_members_def rr_topics_def uniform_def plain_member_def subscribes_def
      rd_kafka_group_member_find_subscription_def rd_kafka_topic_partition_match_def)

theorem roundrobin_uniform_witness:
  "\<exists>ms' ts. rd_kafka_roundrobin_assignor_assign_cb (\<lambda>_ _. 0) cmp_sort cmp_sort rr_members rr_topics = Some ms' \<and>
     sorted (map (\<lambda>m. bytes (member_key m)) ms') \<and> sorted (map (\<lambda>t. bytes (name_of t)) ts) \<and> mset ts = mset rr_topics"
  using roundrobin_uniform [OF cmp_sort_documented cmp_sort_documented rr_example(1,2,4,3)] by blast

text \<open>
  When the first member in order does not subscribe to a topic, the index runs to the number of
  its subscribers and the assertion fails: the process aborts.
\<close>

theorem roundrobin_aborts:
  "rd_kafka_roundrobin_assignor_assign_cb (\<lambda>_ _. 0) cmp_sort cmp_sort
     [plain_member ''A'' [''t0''], plain_member ''B'' [''t1'']]
     [\<lparr>at_metadata = \<lparr>topic_name = ''t0'', partition_cnt = 1\<rparr>, at_members = [0]\<rparr>,
      \<lparr>at_metadata = \<lparr>topic_name = ''t1'', partition_cnt = 1\<rparr>, at_members = [1]\<rparr>] = None"
proof -
  let ?ms = "[plain_member ''A'' [''t0''], plain_member ''B'' [''t1'']]"
  let ?ts = "[\<lparr>at_metadata = \<lparr>topic_name = ''t0'', partition_cnt = 1\<rparr>, at_members = [0]\<rparr>,
      \<lparr>at_metadata = \<lparr>topic_name = ''t1'', partition_cnt = 1\<rparr>, at_members = [1]\<rparr>] :: assignor_topic list"
  have "cmp_sort rd_kafka_group_member_cmp ?ms = ?ms" "cmp_sort rd_kafka_assignor_topic_cmp ?ts = ?ts"
    by (simp_all add: rd_kafka_assignor_topic_cmp_def rd_kafka_group_member_cmp_def rd_kafkap_str_cmp_def plain_member_def)
  moreover have "topics_rr_loop (\<lambda>_ _. 0) ?ts (- 1) ?ms = None"
    by (simp add: partitions_loop.simps scan_loop.simps plain_member_def rd_kafka_group_member_find_subscription_def
        rd_kafka_topic_partition_match_def)
  ultimately show ?thesis unfolding rd_kafka_roundrobin_assignor_assign_cb_def Let_def by (simp only:)
qed

end
