(* ===== verification/RK_Avl.thy ===== *)
theory RK_Avl
  imports RB_Order RK_Base
begin

section \<open>The AVL tree of librdkafka\<close>

text \<open>
  \<open>rdavl.c\<close> and \<open>rdavl.h\<close>: a tree of nodes that each hold two children, the stored height
  of the sub-tree and the element.  A node is reached through one pointer only and every
  function returns the new sub-tree, so a tree is a datatype value and an assignment to a
  child is a new value.  \<open>None\<close> is a null pointer followed, or a recursion without end:
  balancing calls itself through rotation, and that it returns is a lemma here.

  \<open>rd_avl_insert\<close> clears the new node, so that a fresh leaf has the stored height 0, the
  height of an empty sub-tree, and not 1.  The invariant says what the code then keeps:
  stored heights differ by at most one, and the depth exceeds the stored height by at most
  one, so the depth is still logarithmic in the number of elements.
\<close>

datatype rd_avl_dir_t = RD_AVL_LEFT | RD_AVL_RIGHT

datatype 'a rd_avl_node_t = NullRan | Ran int "'a rd_avl_node_t" 'a "'a rd_avl_node_t"

text \<open>The lock of a tree; waiting for it for ever and misuse are \<open>None\<close>.\<close>

datatype rwlock_t = RwNone | RwReaders nat | RwWriter

record 'a rd_avl_t =
  ravl_root :: "'a rd_avl_node_t"
  ravl_cmp :: "'a \<Rightarrow> 'a \<Rightarrow> int"
  ravl_flags :: "32 word"
  ravl_rwlock :: rwlock_t

definition RD_AVL_F_LOCKS :: "32 word" where "RD_AVL_F_LOCKS = 0x1"
definition RD_AVL_F_OWNER :: "32 word" where "RD_AVL_F_OWNER = 0x2"
definition RD_DELTA_MAX :: int where "RD_DELTA_MAX = 1"

unbundle bit_operations_syntax

fun ran_p :: "rd_avl_dir_t \<Rightarrow> 'a rd_avl_node_t \<Rightarrow> 'a rd_avl_node_t option" where
  "ran_p d NullRan = None"
| "ran_p RD_AVL_LEFT (Ran h l x r) = Some l"
| "ran_p RD_AVL_RIGHT (Ran h l x r) = Some r"

fun set_ran_p :: "rd_avl_dir_t \<Rightarrow> 'a rd_avl_node_t \<Rightarrow> 'a rd_avl_node_t \<Rightarrow> 'a rd_avl_node_t option" where
  "set_ran_p d NullRan c = None"
| "set_ran_p RD_AVL_LEFT (Ran h l x r) c = Some (Ran h c x r)"
| "set_ran_p RD_AVL_RIGHT (Ran h l x r) c = Some (Ran h l x c)"

fun RD_AVL_NODE_HEIGHT :: "'a rd_avl_node_t \<Rightarrow> int" where
  "RD_AVL_NODE_HEIGHT NullRan = 0"
| "RD_AVL_NODE_HEIGHT (Ran h l x r) = h"

fun RD_AVL_NODE_DELTA :: "'a rd_avl_node_t \<Rightarrow> int option" where
  "RD_AVL_NODE_DELTA NullRan = None"
| "RD_AVL_NODE_DELTA (Ran h l x r) = Some (RD_AVL_NODE_HEIGHT l - RD_AVL_NODE_HEIGHT r)"

fun odirmap :: "rd_avl_dir_t \<Rightarrow> rd_avl_dir_t" where
  "odirmap RD_AVL_RIGHT = RD_AVL_LEFT"
| "odirmap RD_AVL_LEFT = RD_AVL_RIGHT"

subsection \<open>Balancing\<close>

text \<open>
  \<open>rd_avl_rotate\<close> and \<open>rd_avl_balance_node\<close> call each other: the rotation takes the
  balancing function as an argument and is then used with the one that is defined by it.
\<close>

definition rotate_by ::
    "('a rd_avl_node_t \<Rightarrow> 'a rd_avl_node_t option) \<Rightarrow> 'a rd_avl_node_t \<Rightarrow> rd_avl_dir_t \<Rightarrow> 'a rd_avl_node_t option" where
  "rotate_by balance node dir = do {
    n \<leftarrow> ran_p (odirmap dir) node;
    c \<leftarrow> ran_p dir n;
    node \<leftarrow> set_ran_p (odirmap dir) node c;
    b \<leftarrow> balance node;
    n \<leftarrow> set_ran_p dir n b;
    balance n
  }"

lemma rotate_by_mono [partial_function_mono]:
  "monotone (fun_ord option_ord) option_ord (\<lambda>f. rotate_by f node dir)"
  unfolding rotate_by_def by (intro partial_function_mono)

fun set_height :: "'a rd_avl_node_t \<Rightarrow> 'a rd_avl_node_t" where
  "set_height NullRan = NullRan"
| "set_height (Ran h l x r) =
    (let h = 0;
         h = (if RD_AVL_NODE_HEIGHT l > h then RD_AVL_NODE_HEIGHT l else h);
         h = (if RD_AVL_NODE_HEIGHT r > h then RD_AVL_NODE_HEIGHT r else h)
     in Ran (h + 1) l x r)"

partial_function (option) rd_avl_balance_node :: "'a rd_avl_node_t \<Rightarrow> 'a rd_avl_node_t option" where
  [code]: "rd_avl_balance_node node = do {
    d \<leftarrow> RD_AVL_NODE_DELTA node;
    if d < - RD_DELTA_MAX then do {
      right \<leftarrow> ran_p RD_AVL_RIGHT node;
      e \<leftarrow> RD_AVL_NODE_DELTA right;
      if e > 0 then do {
        right \<leftarrow> rotate_by rd_avl_balance_node right RD_AVL_RIGHT;
        node \<leftarrow> set_ran_p RD_AVL_RIGHT node right;
        rotate_by rd_avl_balance_node node RD_AVL_LEFT
      } else rotate_by rd_avl_balance_node node RD_AVL_LEFT
    } else if d > RD_DELTA_MAX then do {
      left \<leftarrow> ran_p RD_AVL_LEFT node;
      e \<leftarrow> RD_AVL_NODE_DELTA left;
      if e < 0 then do {
        left \<leftarrow> rotate_by rd_avl_balance_node left RD_AVL_LEFT;
        node \<leftarrow> set_ran_p RD_AVL_LEFT node left;
        rotate_by rd_avl_balance_node node RD_AVL_RIGHT
      } else rotate_by rd_avl_balance_node node RD_AVL_RIGHT
    } else Some (set_height node)
  }"

definition rd_avl_rotate :: "'a rd_avl_node_t \<Rightarrow> rd_avl_dir_t \<Rightarrow> 'a rd_avl_node_t option" where
  "rd_avl_rotate = rotate_by rd_avl_balance_node"

subsection \<open>Insertion, removal and search\<close>

text \<open>\<open>existing\<close> is the out parameter, null unless a node was replaced.\<close>

fun rd_avl_insert_node :: "('a \<Rightarrow> 'a \<Rightarrow> int) \<Rightarrow> 'a rd_avl_node_t \<Rightarrow> 'a rd_avl_node_t \<Rightarrow> 'a rd_avl_node_t \<Rightarrow>
    ('a rd_avl_node_t \<times> 'a rd_avl_node_t) option" where
  "rd_avl_insert_node cmp NullRan node existing = Some (node, existing)"
| "rd_avl_insert_node cmp (Ran h l x r) NullRan existing = None"
| "rd_avl_insert_node cmp (Ran h l x r) (Ran h' l' e r') existing =
    (let c = cmp e x in
     if c = 0 then Some (Ran h l e r, Ran h l x r)
     else if c < 0 then do {
       (l, existing) \<leftarrow> rd_avl_insert_node cmp l (Ran h' l' e r') existing;
       t \<leftarrow> rd_avl_balance_node (Ran h l x r);
       Some (t, existing)
     } else do {
       (r, existing) \<leftarrow> rd_avl_insert_node cmp r (Ran h' l' e r') existing;
       t \<leftarrow> rd_avl_balance_node (Ran h l x r);
       Some (t, existing)
     })"

fun rd_avl_move :: "'a rd_avl_node_t \<Rightarrow> 'a rd_avl_node_t \<Rightarrow> rd_avl_dir_t \<Rightarrow> 'a rd_avl_node_t option" where
  "rd_avl_move NullRan src dir = Some src"
| "rd_avl_move (Ran h l x r) src RD_AVL_LEFT = do {
    l \<leftarrow> rd_avl_move l src RD_AVL_LEFT;
    rd_avl_balance_node (Ran h l x r)
  }"
| "rd_avl_move (Ran h l x r) src RD_AVL_RIGHT = do {
    r \<leftarrow> rd_avl_move r src RD_AVL_RIGHT;
    rd_avl_balance_node (Ran h l x r)
  }"

fun rd_avl_remove_node0 :: "'a rd_avl_node_t \<Rightarrow> 'a rd_avl_node_t option" where
  "rd_avl_remove_node0 NullRan = None"
| "rd_avl_remove_node0 (Ran h l x r) = rd_avl_move l r RD_AVL_RIGHT"

fun rd_avl_remove_elm0 :: "('a \<Rightarrow> 'a \<Rightarrow> int) \<Rightarrow> 'a rd_avl_node_t \<Rightarrow> 'a \<Rightarrow> 'a rd_avl_node_t option" where
  "rd_avl_remove_elm0 cmp NullRan elm = Some NullRan"
| "rd_avl_remove_elm0 cmp (Ran h l x r) elm =
    (let c = cmp elm x in
     if c = 0 then rd_avl_remove_node0 (Ran h l x r)
     else if c < 0 then do {
       l \<leftarrow> rd_avl_remove_elm0 cmp l elm;
       rd_avl_balance_node (Ran h l x r)
     } else do {
       r \<leftarrow> rd_avl_remove_elm0 cmp r elm;
       rd_avl_balance_node (Ran h l x r)
     })"

fun rd_avl_find_node :: "('a \<Rightarrow> 'a \<Rightarrow> int) \<Rightarrow> 'a rd_avl_node_t \<Rightarrow> 'a \<Rightarrow> 'a rd_avl_node_t" where
  "rd_avl_find_node cmp NullRan elm = NullRan"
| "rd_avl_find_node cmp (Ran h l x r) elm =
    (let c = cmp elm x in
     if c = 0 then Ran h l x r
     else if c < 0 then rd_avl_find_node cmp l elm
     else rd_avl_find_node cmp r elm)"

subsection \<open>The public functions\<close>

fun rwlock_rdlock :: "rwlock_t \<Rightarrow> rwlock_t option" where
  "rwlock_rdlock (RwReaders n) = Some (RwReaders (Suc n))"
| "rwlock_rdlock _ = None"

fun rwlock_rdunlock :: "rwlock_t \<Rightarrow> rwlock_t option" where
  "rwlock_rdunlock (RwReaders (Suc n)) = Some (RwReaders n)"
| "rwlock_rdunlock _ = None"

fun rwlock_wrlock :: "rwlock_t \<Rightarrow> rwlock_t option" where
  "rwlock_wrlock (RwReaders 0) = Some RwWriter"
| "rwlock_wrlock _ = None"

fun rwlock_wrunlock :: "rwlock_t \<Rightarrow> rwlock_t option" where
  "rwlock_wrunlock RwWriter = Some (RwReaders 0)"
| "rwlock_wrunlock _ = None"

definition if_locks :: "(rwlock_t \<Rightarrow> rwlock_t option) \<Rightarrow> 'a rd_avl_t \<Rightarrow> 'a rd_avl_t option" where
  "if_locks f ravl =
    (if ravl_flags ravl AND RD_AVL_F_LOCKS \<noteq> 0
     then do { l \<leftarrow> f (ravl_rwlock ravl); Some (ravl\<lparr>ravl_rwlock := l\<rparr>) }
     else Some ravl)"

definition rd_avl_rdlock :: "'a rd_avl_t \<Rightarrow> 'a rd_avl_t option" where
  "rd_avl_rdlock = if_locks rwlock_rdlock"

definition rd_avl_wrlock :: "'a rd_avl_t \<Rightarrow> 'a rd_avl_t option" where
  "rd_avl_wrlock = if_locks rwlock_wrlock"

definition rd_avl_rdunlock :: "'a rd_avl_t \<Rightarrow> 'a rd_avl_t option" where
  "rd_avl_rdunlock = if_locks rwlock_rdunlock"

definition rd_avl_wrunlock :: "'a rd_avl_t \<Rightarrow> 'a rd_avl_t option" where
  "rd_avl_wrunlock = if_locks rwlock_wrunlock"

text \<open>\<open>given\<close>: the caller passed its own structure and not a null pointer.\<close>

definition rd_avl_init :: "bool \<Rightarrow> ('a \<Rightarrow> 'a \<Rightarrow> int) \<Rightarrow> 32 word \<Rightarrow> 'a rd_avl_t" where
  "rd_avl_init given cmp flags =
    (let flags = (if given then flags else flags OR RD_AVL_F_OWNER) in
     \<lparr>ravl_root = NullRan, ravl_cmp = cmp, ravl_flags = flags,
      ravl_rwlock = (if flags AND RD_AVL_F_LOCKS \<noteq> 0 then RwReaders 0 else RwNone)\<rparr>)"

text \<open>The structure after destruction, and whether it was freed.\<close>

definition rd_avl_destroy :: "'a rd_avl_t \<Rightarrow> ('a rd_avl_t \<times> bool) option" where
  "rd_avl_destroy ravl = do {
    ravl \<leftarrow> if_locks (\<lambda>l. if l = RwReaders 0 then Some RwNone else None) ravl;
    Some (ravl, ravl_flags ravl AND RD_AVL_F_OWNER \<noteq> 0)
  }"

fun ran_elm :: "'a rd_avl_node_t \<Rightarrow> 'a option" where
  "ran_elm NullRan = None"
| "ran_elm (Ran h l x r) = Some x"

definition rd_avl_insert :: "'a rd_avl_t \<Rightarrow> 'a \<Rightarrow> ('a option \<times> 'a rd_avl_t) option" where
  "rd_avl_insert ravl elm = do {
    ravl \<leftarrow> rd_avl_wrlock ravl;
    (root, existing) \<leftarrow> rd_avl_insert_node (ravl_cmp ravl) (ravl_root ravl) (Ran 0 NullRan elm NullRan) NullRan;
    ravl \<leftarrow> rd_avl_wrunlock (ravl\<lparr>ravl_root := root\<rparr>);
    Some (ran_elm existing, ravl)
  }"

definition rd_avl_remove_elm :: "'a rd_avl_t \<Rightarrow> 'a \<Rightarrow> 'a rd_avl_t option" where
  "rd_avl_remove_elm ravl elm = do {
    ravl \<leftarrow> rd_avl_wrlock ravl;
    root \<leftarrow> rd_avl_remove_elm0 (ravl_cmp ravl) (ravl_root ravl) elm;
    rd_avl_wrunlock (ravl\<lparr>ravl_root := root\<rparr>)
  }"

definition rd_avl_find :: "'a rd_avl_t \<Rightarrow> 'a \<Rightarrow> bool \<Rightarrow> ('a option \<times> 'a rd_avl_t) option" where
  "rd_avl_find ravl elm dolock = do {
    ravl \<leftarrow> (if dolock then rd_avl_rdlock ravl else Some ravl);
    let node = rd_avl_find_node (ravl_cmp ravl) (ravl_root ravl) elm;
    let ret = ran_elm node;
    ravl \<leftarrow> (if dolock then rd_avl_rdunlock ravl else Some ravl);
    Some (ret, ravl)
  }"

text \<open>The two calls in \<open>rd_avl_rotate\<close>, as the source writes them.\<close>

lemma rd_avl_rotate_step:
  "rd_avl_rotate (Ran h l x (Ran h' rl y rr)) RD_AVL_LEFT =
    do { b \<leftarrow> rd_avl_balance_node (Ran h l x rl); rd_avl_balance_node (Ran h' b y rr) }"
  "rd_avl_rotate (Ran h (Ran h' ll y lr) x r) RD_AVL_RIGHT =
    do { b \<leftarrow> rd_avl_balance_node (Ran h lr x r); rd_avl_balance_node (Ran h' ll y b) }"
  by (simp_all add: rd_avl_rotate_def rotate_by_def)

subsection \<open>Balancing returns\<close>

abbreviation "ht \<equiv> RD_AVL_NODE_HEIGHT"

fun ran_ok :: "'a rd_avl_node_t \<Rightarrow> bool" where
  "ran_ok NullRan = True"
| "ran_ok (Ran h l x r) \<longleftrightarrow> ran_ok l \<and> ran_ok r \<and> \<bar>ht l - ht r\<bar> \<le> 1 \<and>
    (h = 1 + max (ht l) (ht r) \<or> h = 0 \<and> l = NullRan \<and> r = NullRan)"

fun elms :: "'a rd_avl_node_t \<Rightarrow> 'a list" where
  "elms NullRan = []"
| "elms (Ran h l x r) = elms l @ x # elms r"

lemma ht_nonneg: "ran_ok t \<Longrightarrow> 0 \<le> ht t"
  by (induction t) auto

lemma balance_even:
  assumes "ran_ok l" "ran_ok r" "\<bar>ht l - ht r\<bar> \<le> 1"
  shows "rd_avl_balance_node (Ran h l x r) = Some (Ran (1 + max (ht l) (ht r)) l x r)"
  using assms ht_nonneg [OF assms(1)] ht_nonneg [OF assms(2)]
  by (subst rd_avl_balance_node.simps) (auto simp: RD_DELTA_MAX_def Let_def max_def)

lemma balance_right:
  assumes "h' - ht l > 1" "ht rl \<le> ht rr"
  shows "rd_avl_balance_node (Ran h l x (Ran h' rl y rr)) =
    do { b \<leftarrow> rd_avl_balance_node (Ran h l x rl); rd_avl_balance_node (Ran h' b y rr) }"
  using assms by (subst rd_avl_balance_node.simps) (simp add: RD_DELTA_MAX_def rotate_by_def)

lemma balance_right_left:
  assumes "h' - ht l > 1" "ht (Ran h'' a z b) > ht rr"
  shows "rd_avl_balance_node (Ran h l x (Ran h' (Ran h'' a z b) y rr)) = do {
    c \<leftarrow> rd_avl_balance_node (Ran h' b y rr);
    right \<leftarrow> rd_avl_balance_node (Ran h'' a z c);
    rd_avl_rotate (Ran h l x right) RD_AVL_LEFT }"
  using assms by (subst rd_avl_balance_node.simps) (simp add: RD_DELTA_MAX_def rotate_by_def rd_avl_rotate_def)

lemma balance_left_right:
  assumes "h' - ht r > 1" "ht (Ran h'' b z c) > ht ll"
  shows "rd_avl_balance_node (Ran h (Ran h' ll y (Ran h'' b z c)) x r) = do {
    a \<leftarrow> rd_avl_balance_node (Ran h' ll y b);
    left \<leftarrow> rd_avl_balance_node (Ran h'' a z c);
    rd_avl_rotate (Ran h left x r) RD_AVL_RIGHT }"
  using assms by (subst rd_avl_balance_node.simps) (simp add: RD_DELTA_MAX_def rotate_by_def rd_avl_rotate_def)

text \<open>Left and right are treated alike.\<close>

fun mirror :: "'a rd_avl_node_t \<Rightarrow> 'a rd_avl_node_t" where
  "mirror NullRan = NullRan"
| "mirror (Ran h l x r) = Ran h (mirror r) x (mirror l)"

lemma ht_mirror [simp]: "ht (mirror t) = ht t"
  by (cases t) simp_all

lemma mirror_mirror [simp]: "mirror (mirror t) = t"
  by (induction t) simp_all

lemma mirror_null [simp]: "mirror t = NullRan \<longleftrightarrow> t = NullRan"
  by (cases t) simp_all

lemma ran_ok_mirror [simp]: "ran_ok (mirror t) = ran_ok t"
  by (induction t) (auto simp: max.commute abs_minus_commute)

lemma elms_mirror [simp]: "elms (mirror t) = rev (elms t)"
  by (induction t) simp_all

lemma ran_p_mirror: "ran_p d (mirror t) = map_option mirror (ran_p (odirmap d) t)"
  by (cases t; cases d) simp_all

lemma set_ran_p_mirror: "set_ran_p d (mirror t) (mirror c) = map_option mirror (set_ran_p (odirmap d) t c)"
  by (cases t; cases d) simp_all

lemma delta_mirror: "RD_AVL_NODE_DELTA (mirror t) = map_option uminus (RD_AVL_NODE_DELTA t)"
  by (cases t) simp_all

lemma set_height_mirror: "set_height (mirror t) = mirror (set_height t)"
  by (cases t) (simp_all add: Let_def)

lemma odirmap_odirmap [simp]: "odirmap (odirmap d) = d"
  by (cases d) simp_all

lemma bind_SomeE:
  assumes "Option.bind m f = Some y"
  obtains x where "m = Some x" "f x = Some y"
  using assms by (auto simp: bind_eq_Some_conv)

lemma rotate_by_mirror:
  assumes "\<And>n t. f n = Some t \<Longrightarrow> rd_avl_balance_node (mirror n) = Some (mirror t)"
    and "rotate_by f n d = Some t"
  shows "rotate_by rd_avl_balance_node (mirror n) (odirmap d) = Some (mirror t)"
  using assms(2) unfolding rotate_by_def
  by (auto simp: ran_p_mirror set_ran_p_mirror elim!: bind_SomeE dest!: assms(1))

lemma balance_mirror:
  assumes "rd_avl_balance_node n = Some t"
  shows "rd_avl_balance_node (mirror n) = Some (mirror t)"
proof (rule rd_avl_balance_node.raw_induct
    [of "\<lambda>n t. rd_avl_balance_node (mirror n) = Some (mirror t)", OF _ assms], goal_cases)
  case (1 f n t)
  note rot = rotate_by_mirror [of f _ RD_AVL_LEFT, OF 1(1), simplified]
    rotate_by_mirror [of f _ RD_AVL_RIGHT, OF 1(1), simplified]
  from 1(2) show ?case
    by (subst rd_avl_balance_node.simps)
      (auto simp: ran_p_mirror set_ran_p_mirror delta_mirror set_height_mirror
        RD_DELTA_MAX_def split: if_splits elim!: bind_SomeE dest!: rot)
qed

text \<open>What balancing promises for two balanced sub-trees.\<close>

definition balances :: "'a rd_avl_node_t \<Rightarrow> 'a \<Rightarrow> 'a rd_avl_node_t \<Rightarrow> bool" where
  "balances l x r \<longleftrightarrow> (\<forall>h. \<exists>t. rd_avl_balance_node (Ran h l x r) = Some t \<and> ran_ok t \<and>
    elms t = elms l @ x # elms r \<and> ht t - max (ht l) (ht r) \<in> {0, 1})"

lemma balances_mirror: "balances (mirror r) x (mirror l) \<Longrightarrow> balances l x r"
  unfolding balances_def
proof
  fix h
  assume "\<forall>h. \<exists>t. rd_avl_balance_node (Ran h (mirror r) x (mirror l)) = Some t \<and> ran_ok t \<and>
    elms t = elms (mirror r) @ x # elms (mirror l) \<and> ht t - max (ht (mirror r)) (ht (mirror l)) \<in> {0, 1}"
  then obtain t where t: "rd_avl_balance_node (Ran h (mirror r) x (mirror l)) = Some t" "ran_ok t"
    "elms t = rev (elms r) @ x # rev (elms l)" "ht t - max (ht l) (ht r) \<in> {0, 1}"
    by (metis ht_mirror elms_mirror max.commute)
  then show "\<exists>t. rd_avl_balance_node (Ran h l x r) = Some t \<and> ran_ok t \<and>
    elms t = elms l @ x # elms r \<and> ht t - max (ht l) (ht r) \<in> {0, 1}"
    using balance_mirror [OF t(1)] by (intro exI [of _ "mirror t"]) simp
qed

lemma balances_even:
  assumes "ran_ok l" "ran_ok r" "\<bar>ht l - ht r\<bar> \<le> 1"
  shows "balances l x r"
  using assms by (simp add: balances_def balance_even [OF assms])

lemma balances_outer:
  assumes "ran_ok rl" "ran_ok rr" "ht l \<le> h - 2" "ht rr = h - 1" "ht rl \<in> {h - 2, h - 1}" "balances l x rl"
  shows "balances l x (Ran h rl y rr)"
  unfolding balances_def
proof
  fix h'
  from assms(6) obtain b where b: "rd_avl_balance_node (Ran h' l x rl) = Some b" "ran_ok b"
    "elms b = elms l @ x # elms rl" "ht b - max (ht l) (ht rl) \<in> {0, 1}"
    unfolding balances_def by blast
  have "max (ht l) (ht rl) = ht rl" using assms(3,5) by auto
  then have ev: "\<bar>ht b - ht rr\<bar> \<le> 1" using b(4) assms(4,5) by auto
  have "rd_avl_balance_node (Ran h' l x (Ran h rl y rr)) = Some (Ran (1 + max (ht b) (ht rr)) b y rr)"
    using assms(3-5) by (subst balance_right) (auto simp: b(1) balance_even [OF b(2) assms(2) ev])
  then show "\<exists>t. rd_avl_balance_node (Ran h' l x (Ran h rl y rr)) = Some t \<and> ran_ok t \<and>
      elms t = elms l @ x # elms (Ran h rl y rr) \<and> ht t - max (ht l) (ht (Ran h rl y rr)) \<in> {0, 1}"
    using b assms(2-5) ev by auto
qed

lemma balances_inner:
  assumes "ran_ok a" "ran_ok b" "ran_ok rr" "ht l \<le> h - 2" "ht rr = h - 2" "ht a = h - 2"
    "ht b \<in> {h - 3, h - 2}" "balances l x a"
  shows "balances l x (Ran h (Ran (h - 1) a z b) y rr)"
  unfolding balances_def
proof
  fix h'
  from assms(8) obtain e where e: "rd_avl_balance_node (Ran h' l x a) = Some e" "ran_ok e"
    "elms e = elms l @ x # elms a" "ht e - max (ht l) (ht a) \<in> {0, 1}"
    unfolding balances_def by blast
  let ?c = "Ran (h - 1) b y rr"
  have he: "ht e \<in> {h - 2, h - 1}" using e(4) assms(4,6) by auto
  have c: "rd_avl_balance_node (Ran h b y rr) = Some ?c"
    using assms(5,7) by (subst balance_even [OF assms(2,3)]) auto
  have okc: "ran_ok ?c" using assms(2,3,5,7) by auto
  have right: "rd_avl_balance_node (Ran (h - 1) a z ?c) = Some (Ran h a z ?c)"
    using assms(6) by (subst balance_even [OF assms(1) okc]) auto
  have top: "rd_avl_balance_node (Ran h e z ?c) = Some (Ran h e z ?c)"
    using he by (subst balance_even [OF e(2) okc]) auto
  have "rd_avl_balance_node (Ran h' l x (Ran h (Ran (h - 1) a z b) y rr)) = Some (Ran h e z ?c)"
    using assms(4,5) by (subst balance_right_left) (simp_all add: c right rd_avl_rotate_step e(1) top)
  then show "\<exists>t. rd_avl_balance_node (Ran h' l x (Ran h (Ran (h - 1) a z b) y rr)) = Some t \<and> ran_ok t \<and>
      elms t = elms l @ x # elms (Ran h (Ran (h - 1) a z b) y rr) \<and>
      ht t - max (ht l) (ht (Ran h (Ran (h - 1) a z b) y rr)) \<in> {0, 1}"
    using e(2,3) okc he assms(4) by auto
qed

text \<open>
  The third shape: the right child turns back into itself, and the rotation leaves a tree
  that is too high on the left.
\<close>

lemma balance_back:
  assumes "ran_ok a" "ran_ok b" "ran_ok rr" "ht l \<le> h - 2" "ht rr = h - 2" "ht a = h - 3" "ht b = h - 2"
  shows "rd_avl_balance_node (Ran h' l x (Ran h (Ran (h - 1) a z b) y rr)) = do {
    e \<leftarrow> rd_avl_balance_node (Ran h' l x (Ran (h - 1) a z b));
    rd_avl_balance_node (Ran h e y rr) }"
proof -
  let ?rl = "Ran (h - 1) a z b"
  have c: "rd_avl_balance_node (Ran h b y rr) = Some (Ran (h - 1) b y rr)"
    using assms(5,7) by (subst balance_even [OF assms(2,3)]) auto
  have rl: "rd_avl_balance_node ?rl = Some ?rl"
    using assms(6,7) by (subst balance_even [OF assms(1,2)]) auto
  have okrl: "ran_ok ?rl" using assms by auto
  have "rd_avl_balance_node (Ran (h - 1) ?rl y rr) = Some (Ran h ?rl y rr)"
    using assms(5) by (subst balance_even [OF okrl assms(3)]) auto
  then have "rd_avl_balance_node (Ran (h - 1) a z (Ran (h - 1) b y rr)) = Some (Ran h ?rl y rr)"
    using assms(5-7) by (subst balance_right) (simp_all add: rl)
  then show ?thesis
    using assms(4,5) by (subst balance_right_left) (simp_all add: c rd_avl_rotate_step)
qed

lemma balances_two_back:
  assumes "ran_ok l" "ran_ok a" "ran_ok b" "ran_ok rr" "ht l = h - 2" "ht rr = h - 2" "ht a = h - 3" "ht b = h - 2"
  shows "balances l x (Ran h (Ran (h - 1) a z b) y rr)"
  unfolding balances_def
proof
  fix h'
  let ?rl = "Ran (h - 1) a z b" and ?f = "Ran (h - 1) l x a" and ?g = "Ran (h - 1) b y rr"
  have ok: "ran_ok ?rl" "ran_ok ?f" "ran_ok ?g" using assms by auto
  have e: "rd_avl_balance_node (Ran h' l x ?rl) = Some (Ran h l x ?rl)"
    using assms(5) by (subst balance_even [OF assms(1) ok(1)]) auto
  have f: "rd_avl_balance_node (Ran h l x a) = Some ?f"
    using assms(5,7) by (subst balance_even [OF assms(1,2)]) auto
  have left: "rd_avl_balance_node (Ran (h - 1) ?f z b) = Some (Ran h ?f z b)"
    using assms(8) by (subst balance_even [OF ok(2) assms(3)]) auto
  have g: "rd_avl_balance_node (Ran h b y rr) = Some ?g"
    using assms(6,8) by (subst balance_even [OF assms(3,4)]) auto
  have top: "rd_avl_balance_node (Ran h ?f z ?g) = Some (Ran h ?f z ?g)"
    by (subst balance_even [OF ok(2,3)]) auto
  have "rd_avl_balance_node (Ran h (Ran h l x ?rl) y rr) = Some (Ran h ?f z ?g)"
    using assms(5,6) by (subst balance_left_right) (simp_all add: f left rd_avl_rotate_step g top)
  then have "rd_avl_balance_node (Ran h' l x (Ran h ?rl y rr)) = Some (Ran h ?f z ?g)"
    using assms by (subst balance_back) (simp_all add: e)
  then show "\<exists>t. rd_avl_balance_node (Ran h' l x (Ran h ?rl y rr)) = Some t \<and> ran_ok t \<and>
      elms t = elms l @ x # elms (Ran h ?rl y rr) \<and> ht t - max (ht l) (ht (Ran h ?rl y rr)) \<in> {0, 1}"
    using ok assms(5) by auto
qed

lemma balances_back:
  assumes "ran_ok a" "ran_ok b" "ran_ok rr" "ht l \<le> h - 2" "ht rr = h - 2" "ht a = h - 3" "ht b = h - 2"
    and "balances l x (Ran (h - 1) a z b)"
    and two: "\<And>e. ran_ok e \<Longrightarrow> ht e = ht rr + 2 \<Longrightarrow> balances e y rr"
  shows "balances l x (Ran h (Ran (h - 1) a z b) y rr)"
  unfolding balances_def
proof
  fix h'
  let ?rl = "Ran (h - 1) a z b"
  from assms(8) obtain e where e: "rd_avl_balance_node (Ran h' l x ?rl) = Some e" "ran_ok e"
    "elms e = elms l @ x # elms ?rl" "ht e - max (ht l) (ht ?rl) \<in> {0, 1}"
    unfolding balances_def by blast
  have step: "rd_avl_balance_node (Ran h' l x (Ran h ?rl y rr)) = rd_avl_balance_node (Ran h e y rr)"
    by (subst balance_back [OF assms(1-7)]) (simp add: e(1))
  have he: "ht e = h - 1 \<or> ht e = ht rr + 2" using e(4) assms(4,5) by auto
  then obtain t where t: "rd_avl_balance_node (Ran h e y rr) = Some t" "ran_ok t" "elms t = elms e @ y # elms rr"
    "ht t - h \<in> {0, 1}"
  proof
    assume "ht e = h - 1"
    then show thesis
      using that [of "Ran h e y rr"] balance_even [OF e(2) assms(3), of h y] e(2) assms(3,5) by auto
  next
    assume *: "ht e = ht rr + 2"
    from two [OF e(2) *] obtain t where "rd_avl_balance_node (Ran h e y rr) = Some t" "ran_ok t"
      "elms t = elms e @ y # elms rr" "ht t - max (ht e) (ht rr) \<in> {0, 1}"
      unfolding balances_def by blast
    then show thesis using that [of t] * assms(5) by auto
  qed
  then show "\<exists>t. rd_avl_balance_node (Ran h' l x (Ran h ?rl y rr)) = Some t \<and> ran_ok t \<and>
      elms t = elms l @ x # elms (Ran h ?rl y rr) \<and> ht t - max (ht l) (ht (Ran h ?rl y rr)) \<in> {0, 1}"
    using e(3) assms(4) unfolding step by auto
qed

lemma high_cases:
  assumes "ran_ok r" "ht r \<ge> 2"
  obtains (outer) h rl y rr where "r = Ran h rl y rr" "ran_ok rl" "ran_ok rr" "ht rr = h - 1" "ht rl \<in> {h - 2, h - 1}"
  | (inner) h a z b y rr where "r = Ran h (Ran (h - 1) a z b) y rr" "ran_ok a" "ran_ok b" "ran_ok rr"
      "ht rr = h - 2" "ht a = h - 2" "ht b \<in> {h - 3, h - 2}"
  | (turn) h a z b y rr where "r = Ran h (Ran (h - 1) a z b) y rr" "ran_ok a" "ran_ok b" "ran_ok rr"
      "ht rr = h - 2" "ht a = h - 3" "ht b = h - 2"
proof -
  from assms obtain h rl y rr where r: "r = Ran h rl y rr" "ran_ok rl" "ran_ok rr" "\<bar>ht rl - ht rr\<bar> \<le> 1"
    "h = 1 + max (ht rl) (ht rr)" "h \<ge> 2"
    by (cases r) auto
  show thesis
  proof (cases "ht rl \<le> ht rr")
    case True
    then have "ht rr = h - 1" "ht rl = h - 2 \<or> ht rl = h - 1" using r(4,5) by auto
    then show thesis using outer [OF r(1-3)] by simp
  next
    case False
    then have hts: "ht rl = h - 1" "ht rr = h - 2" using r(4,5) by auto
    then obtain a z b where rl: "rl = Ran (h - 1) a z b" "ran_ok a" "ran_ok b" "\<bar>ht a - ht b\<bar> \<le> 1"
      "h - 1 = 1 + max (ht a) (ht b)"
      using r(2,6) by (cases rl) auto
    show thesis
    proof (cases "ht a = h - 2")
      case True
      with rl(4,5) have "ht b \<in> {h - 3, h - 2}" by auto
      with True show thesis using inner [OF _ rl(2,3) r(3) hts(2)] r(1) rl(1) by blast
    next
      case False
      with rl(4,5) have "ht a = h - 3" "ht b = h - 2" by auto
      then show thesis using turn [OF _ rl(2,3) r(3) hts(2)] r(1) rl(1) by blast
    qed
  qed
qed

lemma balances_two:
  assumes "ran_ok l" "ran_ok r" "ht r = ht l + 2"
  shows "balances l x r"
proof -
  have "ht r \<ge> 2" using ht_nonneg [OF assms(1)] assms(3) by simp
  with assms(2) show ?thesis
  proof (cases rule: high_cases)
    case (outer h rl y rr)
    have l: "ht l = h - 2" using assms(3) outer(1) by simp
    have "balances l x rl"
      by (rule balances_even [OF assms(1) outer(2)]) (use outer(5) l in auto)
    then show ?thesis unfolding outer(1)
      by (rule balances_outer [OF outer(2,3) eq_refl [OF l] outer(4,5)])
  next
    case (inner h a z b y rr)
    have l: "ht l = h - 2" using assms(3) inner(1) by simp
    have "balances l x a"
      by (rule balances_even [OF assms(1) inner(2)]) (use inner(6) l in auto)
    then show ?thesis unfolding inner(1)
      by (rule balances_inner [OF inner(2-4) eq_refl [OF l] inner(5-7)])
  next
    case (turn h a z b y rr)
    have l: "ht l = h - 2" using assms(3) turn(1) by simp
    show ?thesis unfolding turn(1) by (rule balances_two_back [OF assms(1) turn(2-4) l turn(5-7)])
  qed
qed

lemma balances_two_left: "ran_ok l \<Longrightarrow> ran_ok r \<Longrightarrow> ht l = ht r + 2 \<Longrightarrow> balances l x r"
  by (rule balances_mirror, rule balances_two) simp_all

lemma balances_right: "ran_ok l \<Longrightarrow> ran_ok r \<Longrightarrow> ht l - ht r \<le> 1 \<Longrightarrow> balances l x r"
proof (induction "size r" arbitrary: r x rule: less_induct)
  case less
  show ?case
  proof (cases "ht r - ht l \<le> 1")
    case True
    then show ?thesis using less.prems by (intro balances_even) auto
  next
    case False
    then have low: "ht l \<le> ht r - 2" and "ht r \<ge> 2" using ht_nonneg [OF less.prems(1)] by auto
    from less.prems(2) this(2) show ?thesis
    proof (cases rule: high_cases)
      case (outer h rl y rr)
      have low': "ht l \<le> h - 2" using low outer(1) by simp
      have "balances l x rl"
        by (rule less.hyps [OF _ less.prems(1) outer(2)]) (use outer(1,5) low' in auto)
      then show ?thesis unfolding outer(1) by (rule balances_outer [OF outer(2,3) low' outer(4,5)])
    next
      case (inner h a z b y rr)
      have low': "ht l \<le> h - 2" using low inner(1) by simp
      have "balances l x a"
        by (rule less.hyps [OF _ less.prems(1) inner(2)]) (use inner(1,6) low' in auto)
      then show ?thesis unfolding inner(1) by (rule balances_inner [OF inner(2-4) low' inner(5-7)])
    next
      case (turn h a z b y rr)
      have low': "ht l \<le> h - 2" using low turn(1) by simp
      have ok: "ran_ok (Ran (h - 1) a z b)" using turn by auto
      have rl: "balances l x (Ran (h - 1) a z b)"
        by (rule less.hyps [OF _ less.prems(1) ok]) (use turn(1) low' in auto)
      show ?thesis unfolding turn(1)
        by (rule balances_back [OF turn(2-4) low' turn(5-7) rl]) (rule balances_two_left [OF _ turn(4)])
    qed
  qed
qed

theorem balances_ok:
  assumes "ran_ok l" "ran_ok r"
  shows "balances l x r"
proof (cases "ht l - ht r \<le> 1")
  case True
  then show ?thesis using assms by (intro balances_right)
next
  case False
  then have "balances (mirror r) x (mirror l)" using assms by (intro balances_right) auto
  then show ?thesis by (rule balances_mirror)
qed

lemma balance_ok:
  assumes "ran_ok l" "ran_ok r"
  obtains t where "rd_avl_balance_node (Ran h l x r) = Some t" "ran_ok t" "elms t = elms l @ x # elms r"
  using balances_ok [OF assms, of x] unfolding balances_def by blast

subsection \<open>Elements in the order of the comparator\<close>

definition ascending :: "('a \<Rightarrow> 'a \<Rightarrow> int) \<Rightarrow> 'a list \<Rightarrow> bool" where
  "ascending cmp xs \<longleftrightarrow> sorted_wrt (\<lambda>x y. cmp x y < 0) xs"

definition upsert :: "('a \<Rightarrow> 'a \<Rightarrow> int) \<Rightarrow> 'a \<Rightarrow> 'a list \<Rightarrow> 'a list" where
  "upsert cmp e xs = filter (\<lambda>x. cmp e x > 0) xs @ e # filter (\<lambda>x. cmp e x < 0) xs"

lemma ascending_mid:
  "ascending cmp (xs @ x # ys) \<longleftrightarrow> ascending cmp xs \<and> ascending cmp ys \<and>
    (\<forall>y \<in> set xs. cmp y x < 0) \<and> (\<forall>y \<in> set ys. cmp x y < 0) \<and> (\<forall>y \<in> set xs. \<forall>z \<in> set ys. cmp y z < 0)"
  by (auto simp: ascending_def sorted_wrt_append)

lemma find_all_False: "\<forall>x \<in> set xs. \<not> P x \<Longrightarrow> find P xs = None"
  by (auto simp: find_None_iff)

lemma find_append: "find P (xs @ ys) = (case find P xs of None \<Rightarrow> find P ys | Some x \<Rightarrow> Some x)"
  by (induction xs) simp_all

lemma filter_all: "\<forall>x \<in> set xs. P x \<Longrightarrow> filter P xs = xs" "\<forall>x \<in> set xs. \<not> P x \<Longrightarrow> filter P xs = []"
  by (simp_all add: filter_id_conv filter_empty_conv)

lemma move_ok:
  assumes "ran_ok dst" "ran_ok src"
  shows "\<exists>t. rd_avl_move dst src RD_AVL_RIGHT = Some t \<and> ran_ok t \<and> elms t = elms dst @ elms src"
  using assms
proof (induction dst)
  case (Ran h l x r)
  then obtain r' where r': "rd_avl_move r src RD_AVL_RIGHT = Some r'" "ran_ok r'" "elms r' = elms r @ elms src"
    by auto
  obtain t where "rd_avl_balance_node (Ran h l x r') = Some t" "ran_ok t" "elms t = elms l @ x # elms r'"
    by (rule balance_ok [of l r' h x]) (use Ran.prems r'(2) in auto)
  then show ?case by (simp add: r')
qed simp

context keycmp_order
begin

lemma cmp_below: "cmp e x \<le> 0 \<Longrightarrow> cmp x y < 0 \<Longrightarrow> cmp e y < 0"
  using cmp_trans [of x e y] cmp_flip(1) [of x e] by linarith

lemma cmp_above: "cmp e x \<ge> 0 \<Longrightarrow> cmp y x < 0 \<Longrightarrow> cmp e y > 0"
  using cmp_trans [of y e x] cmp_flip(1) [of y e] by linarith

lemma sides:
  assumes "ascending cmp (xs @ x # ys)"
  shows "cmp e x \<le> 0 \<Longrightarrow> \<forall>y \<in> set ys. cmp e y < 0" "cmp e x \<ge> 0 \<Longrightarrow> \<forall>y \<in> set xs. cmp e y > 0"
  using assms cmp_below [of e x] cmp_above [of e x] by (auto simp: ascending_mid)

lemma split_eq:
  assumes "ascending cmp (xs @ x # ys)" "cmp e x = 0"
  shows "upsert cmp e (xs @ x # ys) = xs @ e # ys" "find (\<lambda>x. cmp e x = 0) (xs @ x # ys) = Some x"
    "filter (\<lambda>x. cmp e x \<noteq> 0) (xs @ x # ys) = xs @ ys"
proof -
  have *: "\<forall>y \<in> set ys. cmp e y < 0" "\<forall>y \<in> set xs. cmp e y > 0"
    using sides [OF assms(1)] assms(2) by auto
  have "\<forall>y \<in> set ys. \<not> cmp e y > 0" "\<forall>y \<in> set xs. \<not> cmp e y < 0" "\<forall>y \<in> set xs. \<not> cmp e y = 0"
    "\<forall>y \<in> set xs. cmp e y \<noteq> 0" "\<forall>y \<in> set ys. cmp e y \<noteq> 0"
    using * by fastforce+
  with * assms(2) show "upsert cmp e (xs @ x # ys) = xs @ e # ys"
    "find (\<lambda>x. cmp e x = 0) (xs @ x # ys) = Some x" "filter (\<lambda>x. cmp e x \<noteq> 0) (xs @ x # ys) = xs @ ys"
    by (simp_all add: upsert_def filter_all find_append find_all_False)
qed

lemma split_less:
  assumes "ascending cmp (xs @ x # ys)" "cmp e x < 0"
  shows "upsert cmp e (xs @ x # ys) = upsert cmp e xs @ x # ys"
    "find (\<lambda>x. cmp e x = 0) (xs @ x # ys) = find (\<lambda>x. cmp e x = 0) xs"
    "filter (\<lambda>x. cmp e x \<noteq> 0) (xs @ x # ys) = filter (\<lambda>x. cmp e x \<noteq> 0) xs @ x # ys"
proof -
  have *: "\<forall>y \<in> set ys. cmp e y < 0" using sides(1) [OF assms(1)] assms(2) by auto
  then have "\<forall>y \<in> set ys. \<not> cmp e y > 0" "\<forall>y \<in> set ys. \<not> cmp e y = 0" "\<forall>y \<in> set ys. cmp e y \<noteq> 0"
    by fastforce+
  with * assms(2) show "upsert cmp e (xs @ x # ys) = upsert cmp e xs @ x # ys"
    "find (\<lambda>x. cmp e x = 0) (xs @ x # ys) = find (\<lambda>x. cmp e x = 0) xs"
    "filter (\<lambda>x. cmp e x \<noteq> 0) (xs @ x # ys) = filter (\<lambda>x. cmp e x \<noteq> 0) xs @ x # ys"
    by (simp_all add: upsert_def filter_all find_append find_all_False split: option.split)
qed

lemma split_greater:
  assumes "ascending cmp (xs @ x # ys)" "cmp e x > 0"
  shows "upsert cmp e (xs @ x # ys) = xs @ x # upsert cmp e ys"
    "find (\<lambda>x. cmp e x = 0) (xs @ x # ys) = find (\<lambda>x. cmp e x = 0) ys"
    "filter (\<lambda>x. cmp e x \<noteq> 0) (xs @ x # ys) = xs @ x # filter (\<lambda>x. cmp e x \<noteq> 0) ys"
proof -
  have *: "\<forall>y \<in> set xs. cmp e y > 0" using sides(2) [OF assms(1)] assms(2) by auto
  then have "\<forall>y \<in> set xs. \<not> cmp e y < 0" "\<forall>y \<in> set xs. \<not> cmp e y = 0" "\<forall>y \<in> set xs. cmp e y \<noteq> 0"
    by fastforce+
  with * assms(2) show "upsert cmp e (xs @ x # ys) = xs @ x # upsert cmp e ys"
    "find (\<lambda>x. cmp e x = 0) (xs @ x # ys) = find (\<lambda>x. cmp e x = 0) ys"
    "filter (\<lambda>x. cmp e x \<noteq> 0) (xs @ x # ys) = xs @ x # filter (\<lambda>x. cmp e x \<noteq> 0) ys"
    by (simp_all add: upsert_def filter_all find_append find_all_False)
qed

lemma upsert_ascending:
  assumes "ascending cmp xs"
  shows "ascending cmp (upsert cmp e xs)"
proof -
  have "cmp y e < 0" if "cmp e y > 0" for y using that cmp_flip(2) [of e y] by simp
  moreover have "cmp y z < 0" if "cmp e y > 0" "cmp e z < 0" for y z
    using that cmp_below [of y e z] cmp_flip(2) [of e y] by simp
  ultimately show ?thesis
    using assms by (auto simp: upsert_def ascending_def sorted_wrt_append intro: sorted_wrt_filter)
qed

lemma find_node_ok:
  assumes "ascending cmp (elms t)"
  shows "ran_elm (rd_avl_find_node cmp t e) = find (\<lambda>x. cmp e x = 0) (elms t)"
  using assms
proof (induction t)
  case (Ran h l x r)
  then have sub: "ascending cmp (elms l)" "ascending cmp (elms r)" by (simp_all add: ascending_mid)
  consider "cmp e x = 0" | "cmp e x < 0" | "cmp e x > 0" by linarith
  then show ?case
    using Ran sub by cases (simp_all add: Let_def split_eq split_less split_greater)
qed simp

lemma insert_node_ok:
  assumes "ran_ok t" "ascending cmp (elms t)"
  shows "\<exists>t' ex. rd_avl_insert_node cmp t (Ran 0 NullRan e NullRan) NullRan = Some (t', ex) \<and> ran_ok t' \<and>
    elms t' = upsert cmp e (elms t) \<and> ran_elm ex = find (\<lambda>x. cmp e x = 0) (elms t)"
  using assms
proof (induction t)
  case NullRan
  then show ?case by (simp add: upsert_def)
next
  case (Ran h l x r)
  then have sub: "ascending cmp (elms l)" "ascending cmp (elms r)" "ran_ok l" "ran_ok r"
    and asc: "ascending cmp (elms l @ x # elms r)" by (simp_all add: ascending_mid)
  consider "cmp e x = 0" | "cmp e x < 0" | "cmp e x > 0" by linarith
  then show ?case
  proof cases
    case 1
    then show ?thesis using Ran.prems split_eq [OF asc 1] by auto
  next
    case 2
    obtain l' ex where l': "rd_avl_insert_node cmp l (Ran 0 NullRan e NullRan) NullRan = Some (l', ex)" "ran_ok l'"
      "elms l' = upsert cmp e (elms l)" "ran_elm ex = find (\<lambda>x. cmp e x = 0) (elms l)"
      using Ran.IH(1) [OF sub(3,1)] by blast
    obtain t where "rd_avl_balance_node (Ran h l' x r) = Some t" "ran_ok t" "elms t = elms l' @ x # elms r"
      by (rule balance_ok [OF l'(2) sub(4)])
    then show ?thesis using 2 l' split_less [OF asc 2] by (simp add: Let_def)
  next
    case 3
    obtain r' ex where r': "rd_avl_insert_node cmp r (Ran 0 NullRan e NullRan) NullRan = Some (r', ex)" "ran_ok r'"
      "elms r' = upsert cmp e (elms r)" "ran_elm ex = find (\<lambda>x. cmp e x = 0) (elms r)"
      using Ran.IH(2) [OF sub(4,2)] by blast
    obtain t where "rd_avl_balance_node (Ran h l x r') = Some t" "ran_ok t" "elms t = elms l @ x # elms r'"
      by (rule balance_ok [OF sub(3) r'(2)])
    then show ?thesis using 3 r' split_greater [OF asc 3] by (simp add: Let_def)
  qed
qed

lemma remove_elm0_ok:
  assumes "ran_ok t" "ascending cmp (elms t)"
  shows "\<exists>t'. rd_avl_remove_elm0 cmp t e = Some t' \<and> ran_ok t' \<and> elms t' = filter (\<lambda>x. cmp e x \<noteq> 0) (elms t)"
  using assms
proof (induction t)
  case (Ran h l x r)
  then have sub: "ascending cmp (elms l)" "ascending cmp (elms r)" "ran_ok l" "ran_ok r"
    and asc: "ascending cmp (elms l @ x # elms r)" by (simp_all add: ascending_mid)
  consider "cmp e x = 0" | "cmp e x < 0" | "cmp e x > 0" by linarith
  then show ?case
  proof cases
    case 1
    then show ?thesis using move_ok [OF sub(3,4)] split_eq(3) [OF asc 1] by auto
  next
    case 2
    obtain l' where l': "rd_avl_remove_elm0 cmp l e = Some l'" "ran_ok l'"
      "elms l' = filter (\<lambda>x. cmp e x \<noteq> 0) (elms l)"
      using Ran.IH(1) [OF sub(3,1)] by blast
    obtain t where "rd_avl_balance_node (Ran h l' x r) = Some t" "ran_ok t" "elms t = elms l' @ x # elms r"
      by (rule balance_ok [OF l'(2) sub(4)])
    then show ?thesis using 2 l' split_less(3) [OF asc 2] by (simp add: Let_def)
  next
    case 3
    obtain r' where r': "rd_avl_remove_elm0 cmp r e = Some r'" "ran_ok r'"
      "elms r' = filter (\<lambda>x. cmp e x \<noteq> 0) (elms r)"
      using Ran.IH(2) [OF sub(4,2)] by blast
    obtain t where "rd_avl_balance_node (Ran h l x r') = Some t" "ran_ok t" "elms t = elms l @ x # elms r'"
      by (rule balance_ok [OF sub(3) r'(2)])
    then show ?thesis using 3 r' split_greater(3) [OF asc 3] by (simp add: Let_def)
  qed
qed simp

end

subsection \<open>The public functions keep the invariant\<close>

definition ravl_ok :: "'a rd_avl_t \<Rightarrow> bool" where
  "ravl_ok ravl \<longleftrightarrow> ran_ok (ravl_root ravl) \<and> ascending (ravl_cmp ravl) (elms (ravl_root ravl)) \<and>
    (ravl_flags ravl AND RD_AVL_F_LOCKS \<noteq> 0 \<longrightarrow> ravl_rwlock ravl = RwReaders 0)"

definition ravl_elms :: "'a rd_avl_t \<Rightarrow> 'a list" where
  "ravl_elms ravl = elms (ravl_root ravl)"

lemma with_wrlock:
  assumes "ravl_ok ravl"
  obtains ravl' where "rd_avl_wrlock ravl = Some ravl'" "ravl_root ravl' = ravl_root ravl" "ravl_cmp ravl' = ravl_cmp ravl"
    "\<forall>t. rd_avl_wrunlock (ravl'\<lparr>ravl_root := t\<rparr>) = Some (ravl\<lparr>ravl_root := t\<rparr>)"
proof (cases "ravl_flags ravl AND RD_AVL_F_LOCKS = 0")
  case True
  then show thesis using that [of ravl] by (simp add: rd_avl_wrlock_def rd_avl_wrunlock_def if_locks_def)
next
  case False
  then have "ravl_rwlock ravl = RwReaders 0" using assms by (simp add: ravl_ok_def)
  with False show thesis
    using that [of "ravl\<lparr>ravl_rwlock := RwWriter\<rparr>"] by (simp add: rd_avl_wrlock_def rd_avl_wrunlock_def if_locks_def)
qed

lemma with_rdlock:
  assumes "ravl_ok ravl"
  obtains ravl' where "rd_avl_rdlock ravl = Some ravl'" "ravl_root ravl' = ravl_root ravl" "ravl_cmp ravl' = ravl_cmp ravl"
    "rd_avl_rdunlock ravl' = Some ravl"
proof (cases "ravl_flags ravl AND RD_AVL_F_LOCKS = 0")
  case True
  then show thesis using that [of ravl] by (simp add: rd_avl_rdlock_def rd_avl_rdunlock_def if_locks_def)
next
  case False
  then have "ravl_rwlock ravl = RwReaders 0" using assms by (simp add: ravl_ok_def)
  with False show thesis
    using that [of "ravl\<lparr>ravl_rwlock := RwReaders 1\<rparr>"] by (simp add: rd_avl_rdlock_def rd_avl_rdunlock_def if_locks_def)
qed

lemma avl_insert_ok:
  assumes "keycmp_order (ravl_cmp ravl)" "ravl_ok ravl"
  shows "\<exists>t. rd_avl_insert ravl e = Some (find (\<lambda>x. ravl_cmp ravl e x = 0) (ravl_elms ravl), ravl\<lparr>ravl_root := t\<rparr>) \<and>
    ravl_ok (ravl\<lparr>ravl_root := t\<rparr>) \<and> elms t = upsert (ravl_cmp ravl) e (ravl_elms ravl)"
proof -
  from assms(2) obtain ravl' where w: "rd_avl_wrlock ravl = Some ravl'" "ravl_root ravl' = ravl_root ravl"
    "ravl_cmp ravl' = ravl_cmp ravl" "\<forall>t. rd_avl_wrunlock (ravl'\<lparr>ravl_root := t\<rparr>) = Some (ravl\<lparr>ravl_root := t\<rparr>)"
    by (rule with_wrlock)
  have inv: "ran_ok (ravl_root ravl)" "ascending (ravl_cmp ravl) (elms (ravl_root ravl))"
    using assms(2) by (simp_all add: ravl_ok_def)
  from keycmp_order.insert_node_ok [OF assms(1) inv, of e] obtain t ex where
    "rd_avl_insert_node (ravl_cmp ravl) (ravl_root ravl) (Ran 0 NullRan e NullRan) NullRan = Some (t, ex)" "ran_ok t"
    "elms t = upsert (ravl_cmp ravl) e (elms (ravl_root ravl))"
    "ran_elm ex = find (\<lambda>x. ravl_cmp ravl e x = 0) (elms (ravl_root ravl))"
    by blast
  with assms(2) w keycmp_order.upsert_ascending [OF assms(1) inv(2), of e] show ?thesis
    by (intro exI [of _ t]) (simp add: rd_avl_insert_def ravl_elms_def ravl_ok_def)
qed

lemma avl_remove_ok:
  assumes "keycmp_order (ravl_cmp ravl)" "ravl_ok ravl"
  shows "\<exists>t. rd_avl_remove_elm ravl e = Some (ravl\<lparr>ravl_root := t\<rparr>) \<and>
    ravl_ok (ravl\<lparr>ravl_root := t\<rparr>) \<and> elms t = filter (\<lambda>x. ravl_cmp ravl e x \<noteq> 0) (ravl_elms ravl)"
proof -
  from assms(2) obtain ravl' where w: "rd_avl_wrlock ravl = Some ravl'" "ravl_root ravl' = ravl_root ravl"
    "ravl_cmp ravl' = ravl_cmp ravl" "\<forall>t. rd_avl_wrunlock (ravl'\<lparr>ravl_root := t\<rparr>) = Some (ravl\<lparr>ravl_root := t\<rparr>)"
    by (rule with_wrlock)
  have inv: "ran_ok (ravl_root ravl)" "ascending (ravl_cmp ravl) (elms (ravl_root ravl))"
    using assms(2) by (simp_all add: ravl_ok_def)
  from keycmp_order.remove_elm0_ok [OF assms(1) inv, of e] obtain t where
    "rd_avl_remove_elm0 (ravl_cmp ravl) (ravl_root ravl) e = Some t" "ran_ok t"
    "elms t = filter (\<lambda>x. ravl_cmp ravl e x \<noteq> 0) (elms (ravl_root ravl))"
    by blast
  with assms(2) w inv(2) show ?thesis
    by (intro exI [of _ t]) (simp add: rd_avl_remove_elm_def ravl_elms_def ravl_ok_def ascending_def sorted_wrt_filter)
qed

lemma avl_find_ok:
  assumes "keycmp_order (ravl_cmp ravl)" "ravl_ok ravl"
  shows "rd_avl_find ravl e dolock = Some (find (\<lambda>x. ravl_cmp ravl e x = 0) (ravl_elms ravl), ravl)"
proof -
  have f: "ran_elm (rd_avl_find_node (ravl_cmp ravl) (ravl_root ravl) e) = find (\<lambda>x. ravl_cmp ravl e x = 0) (ravl_elms ravl)"
    unfolding ravl_elms_def
    by (rule keycmp_order.find_node_ok [OF assms(1)]) (use assms(2) in \<open>simp add: ravl_ok_def\<close>)
  from assms(2) obtain ravl' where "rd_avl_rdlock ravl = Some ravl'" "ravl_root ravl' = ravl_root ravl"
    "ravl_cmp ravl' = ravl_cmp ravl" "rd_avl_rdunlock ravl' = Some ravl"
    by (rule with_rdlock)
  with f show ?thesis by (cases dolock) (simp_all add: rd_avl_find_def)
qed

subsection \<open>Depth\<close>

fun ran_depth :: "'a rd_avl_node_t \<Rightarrow> nat" where
  "ran_depth NullRan = 0"
| "ran_depth (Ran h l x r) = Suc (max (ran_depth l) (ran_depth r))"

lemma depth_ht: "ran_ok t \<Longrightarrow> int (ran_depth t) \<le> ht t + 1"
proof (induction t)
  case (Ran h l x r)
  then have ih: "int (ran_depth l) \<le> ht l + 1" "int (ran_depth r) \<le> ht r + 1" by auto
  from Ran.prems consider "h = 1 + max (ht l) (ht r)" | "h = 0" "l = NullRan" "r = NullRan" by auto
  then show ?case
  proof cases
    case 1
    then show ?thesis using ih by simp
  next
    case 2
    then show ?thesis by simp
  qed
qed simp

lemma pow_half: "(2 :: nat) ^ (Suc (Suc n) div 2) = 2 * 2 ^ (n div 2)"
  by simp

lemma ht_elms: "ran_ok t \<Longrightarrow> 2 ^ (nat (ht t) div 2) \<le> length (elms t) + 1"
proof (induction t)
  case (Ran h l x r)
  show ?case
  proof (cases "h \<ge> 2")
    case True
    with Ran.prems have h: "h = 1 + max (ht l) (ht r)" "\<bar>ht l - ht r\<bar> \<le> 1" by auto
    have low: "h - 2 \<le> ht l" "h - 2 \<le> ht r"
      using h by (cases "ht l \<le> ht r"; simp add: max_def)+
    then have "(2 :: nat) ^ (nat (h - 2) div 2) \<le> 2 ^ (nat (ht l) div 2)"
      "(2 :: nat) ^ (nat (h - 2) div 2) \<le> 2 ^ (nat (ht r) div 2)"
      by (auto intro!: power_increasing div_le_mono nat_mono)
    then have le: "(2 :: nat) ^ (nat (h - 2) div 2) \<le> length (elms l) + 1"
      "(2 :: nat) ^ (nat (h - 2) div 2) \<le> length (elms r) + 1"
      using Ran.IH Ran.prems by (meson le_trans ran_ok.simps(2))+
    have "nat h = Suc (Suc (nat (h - 2)))" using True by linarith
    then have "2 ^ (nat h div 2) = 2 * (2 :: nat) ^ (nat (h - 2) div 2)"
      by (simp only: pow_half)
    then show ?thesis using add_mono [OF le] by simp
  next
    case False
    then have "nat h div 2 = 0" by auto
    then show ?thesis by simp
  qed
qed simp

end
