(* ===== verification/RK_Txn.thy ===== *)
theory RK_Txn
  imports RK_Avl
begin

section \<open>Aborted transactions of a fetch response\<close>

text \<open>
  The collection of aborted transactions of \<open>rdkafka_msgset_reader.c\<close>, the client of the
  AVL tree: one node per producer id with the start offsets of its aborted transactions, in
  the tree for look-up and in a list for traversal.  The consumer skips what lies inside an
  aborted transaction, and moves on to the next start offset at each abort marker.

  An element of the tree is a pointer to a node.  The nodes live in a store, because they
  change behind the tree and behind the list; the pointer carries the \<open>pid\<close> of its node,
  which is written before the node is inserted and never again, so that the comparator is a
  function of its two arguments.  An \<open>int64_t\<close> that is only copied and compared is an
  integer.  An assertion that fails is \<open>None\<close>.
\<close>

subsection \<open>Comparators\<close>

definition rd_kafka_offset_cmp :: "int \<Rightarrow> int \<Rightarrow> int" where
  "rd_kafka_offset_cmp a b = of_bool (a > b) - of_bool (a < b)"

datatype txn_ptr = TxnPtr (ptr_pid: int) (ptr_addr: nat)

definition rd_kafka_aborted_txn_cmp_by_pid :: "txn_ptr \<Rightarrow> txn_ptr \<Rightarrow> int" where
  "rd_kafka_aborted_txn_cmp_by_pid a b = of_bool (ptr_pid a > ptr_pid b) - of_bool (ptr_pid a < ptr_pid b)"

interpretation offset_keys: keycmp_order rd_kafka_offset_cmp
  by unfold_locales (auto simp: rd_kafka_offset_cmp_def of_bool_def split: if_splits)

interpretation pid_keys: keycmp_order rd_kafka_aborted_txn_cmp_by_pid
  by unfold_locales (auto simp: rd_kafka_aborted_txn_cmp_by_pid_def of_bool_def split: if_splits)

lemma cmp_by_pid_eq: "rd_kafka_aborted_txn_cmp_by_pid a b = 0 \<longleftrightarrow> ptr_pid a = ptr_pid b"
  by (auto simp: rd_kafka_aborted_txn_cmp_by_pid_def of_bool_def)

lemma cmp_by_pid_less: "rd_kafka_aborted_txn_cmp_by_pid a b < 0 \<longleftrightarrow> ptr_pid a < ptr_pid b"
  by (auto simp: rd_kafka_aborted_txn_cmp_by_pid_def of_bool_def)

subsection \<open>The AVL tree as a sorted collection\<close>

text \<open>
  C6: For a comparator that is a total order, every public function of the AVL tree returns:
  insertion puts the element at its place in the order and hands back the element it
  replaces, removal deletes the matching element, search finds it, and all three keep the
  balance of the tree and leave its lock as it was.
\<close>

theorem rd_avl_refines:
  assumes "keycmp_order (ravl_cmp ravl)" "ravl_ok ravl"
  shows "(\<exists>t. rd_avl_insert ravl e =
        Some (find (\<lambda>x. ravl_cmp ravl e x = 0) (ravl_elms ravl), ravl\<lparr>ravl_root := t\<rparr>) \<and>
      ravl_ok (ravl\<lparr>ravl_root := t\<rparr>) \<and> elms t = upsert (ravl_cmp ravl) e (ravl_elms ravl)) \<and>
    (\<exists>t. rd_avl_remove_elm ravl e = Some (ravl\<lparr>ravl_root := t\<rparr>) \<and>
      ravl_ok (ravl\<lparr>ravl_root := t\<rparr>) \<and> elms t = filter (\<lambda>x. ravl_cmp ravl e x \<noteq> 0) (ravl_elms ravl)) \<and>
    rd_avl_find ravl e dolock = Some (find (\<lambda>x. ravl_cmp ravl e x = 0) (ravl_elms ravl), ravl)"
  using avl_insert_ok [OF assms] avl_remove_ok [OF assms] avl_find_ok [OF assms] by blast

definition two_offsets :: "int rd_avl_t" where
  "two_offsets = \<lparr>ravl_root = Ran 1 (Ran 0 NullRan 3 NullRan) 5 NullRan, ravl_cmp = rd_kafka_offset_cmp,
    ravl_flags = RD_AVL_F_LOCKS, ravl_rwlock = RwReaders 0\<rparr>"

lemma two_offsets_ok: "keycmp_order (ravl_cmp two_offsets)" "ravl_ok two_offsets"
  by (simp_all add: two_offsets_def offset_keys.keycmp_order_axioms ravl_ok_def ascending_def rd_kafka_offset_cmp_def)

theorem rd_avl_refines_witness:
  "\<exists>t. rd_avl_insert two_offsets 1 = Some (None, two_offsets\<lparr>ravl_root := t\<rparr>) \<and> elms t = [1, 3, 5]"
  using rd_avl_refines [OF two_offsets_ok, of 1 True]
  by (auto simp: two_offsets_def ravl_elms_def upsert_def rd_kafka_offset_cmp_def)

text \<open>The trees a program can have: initialised, then changed by insertions and removals.\<close>

inductive avl_reach :: "('a \<Rightarrow> 'a \<Rightarrow> int) \<Rightarrow> 'a rd_avl_t \<Rightarrow> bool" for cmp where
  avl_reach_init: "avl_reach cmp (rd_avl_init given cmp flags)"
| avl_reach_insert: "avl_reach cmp a \<Longrightarrow> rd_avl_insert a e = Some (old, b) \<Longrightarrow> avl_reach cmp b"
| avl_reach_remove: "avl_reach cmp a \<Longrightarrow> rd_avl_remove_elm a e = Some b \<Longrightarrow> avl_reach cmp b"

lemma avl_reach_ok:
  assumes "avl_reach cmp a" "keycmp_order cmp"
  shows "ravl_ok a \<and> ravl_cmp a = cmp"
  using assms(1)
proof induction
  case (avl_reach_init given flags)
  then show ?case by (simp add: ravl_ok_def rd_avl_init_def ascending_def Let_def)
next
  case (avl_reach_insert a e old b)
  then show ?case using avl_insert_ok [of a e] assms(2) by auto
next
  case (avl_reach_remove a e b)
  then show ?case using avl_remove_ok [of a e] assms(2) by auto
qed

text \<open>
  C15: In every tree that insertions and removals build, a search, an insertion or a removal goes
  through a number of nodes that is logarithmic in the number of elements, although a fresh
  leaf is stored with the height of an empty tree.
\<close>

theorem rd_avl_depth:
  assumes "keycmp_order cmp" "avl_reach cmp ravl"
  shows "2 ^ ((ran_depth (ravl_root ravl) - 1) div 2) \<le> length (ravl_elms ravl) + 1"
proof -
  have ok: "ran_ok (ravl_root ravl)" using avl_reach_ok [OF assms(2,1)] by (simp add: ravl_ok_def)
  have "ran_depth (ravl_root ravl) - 1 \<le> nat (ht (ravl_root ravl))" using depth_ht [OF ok] by simp
  then have "(2 :: nat) ^ ((ran_depth (ravl_root ravl) - 1) div 2) \<le> 2 ^ (nat (ht (ravl_root ravl)) div 2)"
    by (intro power_increasing div_le_mono) simp_all
  then show ?thesis unfolding ravl_elms_def by (rule le_trans [OF _ ht_elms [OF ok]])
qed

lemma one_offset_reach:
  "avl_reach rd_kafka_offset_cmp ((rd_avl_init True rd_kafka_offset_cmp 0)\<lparr>ravl_root := Ran 0 NullRan 5 NullRan\<rparr>)"
  by (rule avl_reach_insert [OF avl_reach_init [of rd_kafka_offset_cmp True 0], where e = 5 and old = None])
    (simp add: rd_avl_insert_def rd_avl_init_def rd_avl_wrlock_def rd_avl_wrunlock_def if_locks_def)

theorem rd_avl_depth_witness:
  "(2 :: nat) ^ ((ran_depth (Ran 0 NullRan (5 :: int) NullRan) - 1) div 2) \<le> 1 + 1"
  using rd_avl_depth [OF offset_keys.keycmp_order_axioms one_offset_reach] by (simp add: ravl_elms_def)

text \<open>
  Three insertions in ascending order leave a chain: the fresh leaf is stored with height 0,
  so the root looks balanced while its right sub-tree is two levels deeper than its left.
\<close>

lemma rd_avl_chain:
  "(do { (_, a) \<leftarrow> rd_avl_insert (rd_avl_init True rd_kafka_offset_cmp 0) 1;
         (_, a) \<leftarrow> rd_avl_insert a 2; (_, a) \<leftarrow> rd_avl_insert a 3; Some (ravl_root a) }) =
    Some (Ran 2 NullRan 1 (Ran 1 NullRan 2 (Ran 0 NullRan 3 NullRan)))"
  by (simp add: rd_avl_insert_def rd_avl_init_def rd_avl_wrlock_def rd_avl_wrunlock_def if_locks_def
      rd_kafka_offset_cmp_def Let_def balance_even)

subsection \<open>Lists\<close>

text \<open>
  The lists of \<open>rdlist.c\<close>: the elements up to \<open>rl_cnt\<close>, the allocated size and the flags.  A
  list with preallocated elements has its slots filled by \<open>rd_list_add(rl, NULL)\<close> and the
  assignment through the pointer it returns; the two are one step here.
\<close>

record 'a rd_list_t =
  rl_size :: int
  rl_elems :: "'a list"
  rl_flags :: "32 word"

definition RD_LIST_F_SORTED :: "32 word" where "RD_LIST_F_SORTED = 0x2"
definition RD_LIST_F_FIXED_SIZE :: "32 word" where "RD_LIST_F_FIXED_SIZE = 0x4"

definition rd_list_cnt :: "'a rd_list_t \<Rightarrow> int" where
  "rd_list_cnt rl = int (length (rl_elems rl))"

definition rd_list_grow :: "'a rd_list_t \<Rightarrow> int \<Rightarrow> 'a rd_list_t option" where
  "rd_list_grow rl sz =
    (if rl_flags rl AND RD_LIST_F_FIXED_SIZE \<noteq> 0 then None
     else Some (rl\<lparr>rl_size := rl_size rl + sz\<rparr>))"

definition rd_list_init :: "int \<Rightarrow> 'a rd_list_t option" where
  "rd_list_init initial_size =
    (let rl = \<lparr>rl_size = 0, rl_elems = [], rl_flags = 0\<rparr> in
     if initial_size > 0 then rd_list_grow rl initial_size else Some rl)"

definition rd_list_prealloc_elems :: "'a rd_list_t \<Rightarrow> int \<Rightarrow> 'a rd_list_t option" where
  "rd_list_prealloc_elems rl cnt =
    (if rl_size rl \<noteq> 0 then None
     else Some \<lparr>rl_size = cnt, rl_elems = [], rl_flags = rl_flags rl OR RD_LIST_F_FIXED_SIZE\<rparr>)"

definition rd_list_add :: "'a rd_list_t \<Rightarrow> 'a \<Rightarrow> 'a rd_list_t option" where
  "rd_list_add rl elem = do {
    rl \<leftarrow> (if rd_list_cnt rl = rl_size rl
           then rd_list_grow rl (if rl_size rl \<noteq> 0 then rl_size rl * 2 else 16)
           else Some rl);
    Some (rl\<lparr>rl_flags := rl_flags rl AND NOT RD_LIST_F_SORTED, rl_elems := rl_elems rl @ [elem]\<rparr>)
  }"

definition rd_list_elem :: "'a rd_list_t \<Rightarrow> int \<Rightarrow> 'a option" where
  "rd_list_elem rl idx =
    (if 0 \<le> idx \<and> idx < rd_list_cnt rl then Some (rl_elems rl ! nat idx) else None)"

text \<open>\<open>rd_list_sort\<close> with \<open>rd_kafka_offset_cmp\<close>: \<open>qsort\<close> leaves the ascending arrangement.\<close>

definition rd_list_sort :: "int rd_list_t \<Rightarrow> int rd_list_t" where
  "rd_list_sort rl =
    (if rl_size rl = 0 then rl
     else rl\<lparr>rl_elems := sort (rl_elems rl), rl_flags := rl_flags rl OR RD_LIST_F_SORTED\<rparr>)"

subsection \<open>The collection\<close>

record rd_kafka_aborted_txn_start_offsets_t =
  pid :: int
  offsets_idx :: int
  offsets :: "int rd_list_t"

text \<open>\<open>txn_mem\<close> and \<open>txn_brk\<close> are the store of the nodes and its next free address.\<close>

record rd_kafka_aborted_txns_t =
  avl :: "txn_ptr rd_avl_t"
  txn_list :: "txn_ptr rd_list_t"
  txn_cnt :: int
  txn_mem :: "nat \<rightharpoonup> rd_kafka_aborted_txn_start_offsets_t"
  txn_brk :: nat

definition rd_kafka_aborted_txns_new :: "int \<Rightarrow> rd_kafka_aborted_txns_t option" where
  "rd_kafka_aborted_txns_new cnt = do {
    l \<leftarrow> rd_list_init cnt;
    Some \<lparr>avl = rd_avl_init True rd_kafka_aborted_txn_cmp_by_pid 0, txn_list = l, txn_cnt = cnt,
      txn_mem = Map.empty, txn_brk = 1\<rparr>
  }"

definition rd_kafka_aborted_txns_offsets_for_pid ::
    "rd_kafka_aborted_txns_t \<Rightarrow> int \<Rightarrow> (txn_ptr option \<times> rd_kafka_aborted_txns_t) option" where
  "rd_kafka_aborted_txns_offsets_for_pid txns PID = do {
    (node_ptr, a) \<leftarrow> rd_avl_find (avl txns) (TxnPtr PID 0) True;
    Some (node_ptr, txns\<lparr>avl := a\<rparr>)
  }"

definition rd_kafka_aborted_txns_next_offset ::
    "rd_kafka_aborted_txns_t \<Rightarrow> int \<Rightarrow> bool \<Rightarrow> (int \<times> rd_kafka_aborted_txns_t) option" where
  "rd_kafka_aborted_txns_next_offset txns PID increment_idx = do {
    (node_ptr, txns) \<leftarrow> rd_kafka_aborted_txns_offsets_for_pid txns PID;
    case node_ptr of
      None \<Rightarrow> Some (- 1, txns)
    | Some p \<Rightarrow> do {
        n \<leftarrow> txn_mem txns (ptr_addr p);
        if offsets_idx n \<ge> rd_list_cnt (offsets n) then Some (- 1, txns)
        else do {
          abort_start_offset \<leftarrow> rd_list_elem (offsets n) (offsets_idx n);
          let txns = (if increment_idx
                      then txns\<lparr>txn_mem := (txn_mem txns)(ptr_addr p \<mapsto> n\<lparr>offsets_idx := offsets_idx n + 1\<rparr>)\<rparr>
                      else txns);
          Some (abort_start_offset, txns)
        }
      }
  }"

definition rd_kafka_aborted_txns_pop_offset ::
    "rd_kafka_aborted_txns_t \<Rightarrow> int \<Rightarrow> (int \<times> rd_kafka_aborted_txns_t) option" where
  "rd_kafka_aborted_txns_pop_offset txns PID = rd_kafka_aborted_txns_next_offset txns PID True"

definition rd_kafka_aborted_txns_get_offset ::
    "rd_kafka_aborted_txns_t \<Rightarrow> int \<Rightarrow> (int \<times> rd_kafka_aborted_txns_t) option" where
  "rd_kafka_aborted_txns_get_offset txns PID = rd_kafka_aborted_txns_next_offset txns PID False"

definition new_node :: "rd_kafka_aborted_txns_t \<Rightarrow> int \<Rightarrow> (txn_ptr \<times> rd_kafka_aborted_txns_t) option" where
  "new_node txns PID = do {
    let p = TxnPtr PID (txn_brk txns);
    l \<leftarrow> rd_list_init 0;
    l \<leftarrow> rd_list_prealloc_elems l (txn_cnt txns);
    let n = \<lparr>pid = PID, offsets_idx = 0, offsets = l\<rparr>;
    (_, a) \<leftarrow> rd_avl_insert (avl txns) p;
    tl \<leftarrow> rd_list_add (txn_list txns) p;
    Some (p, txns\<lparr>avl := a, txn_list := tl, txn_mem := (txn_mem txns)(txn_brk txns \<mapsto> n),
      txn_brk := Suc (txn_brk txns)\<rparr>)
  }"

definition rd_kafka_aborted_txns_add ::
    "rd_kafka_aborted_txns_t \<Rightarrow> int \<Rightarrow> int \<Rightarrow> rd_kafka_aborted_txns_t option" where
  "rd_kafka_aborted_txns_add txns PID first_offset = do {
    (node_ptr, txns) \<leftarrow> rd_kafka_aborted_txns_offsets_for_pid txns PID;
    (p, txns) \<leftarrow> (case node_ptr of None \<Rightarrow> new_node txns PID | Some p \<Rightarrow> Some (p, txns));
    n \<leftarrow> txn_mem txns (ptr_addr p);
    l \<leftarrow> rd_list_add (offsets n) first_offset;
    Some (txns\<lparr>txn_mem := (txn_mem txns)(ptr_addr p \<mapsto> n\<lparr>offsets := l\<rparr>)\<rparr>)
  }"

fun sort_nodes :: "txn_ptr list \<Rightarrow> rd_kafka_aborted_txns_t \<Rightarrow> rd_kafka_aborted_txns_t option" where
  "sort_nodes [] txns = Some txns"
| "sort_nodes (p # ps) txns = do {
    n \<leftarrow> txn_mem txns (ptr_addr p);
    sort_nodes ps (txns\<lparr>txn_mem := (txn_mem txns)(ptr_addr p \<mapsto> n\<lparr>offsets := rd_list_sort (offsets n)\<rparr>)\<rparr>)
  }"

definition rd_kafka_aborted_txns_sort :: "rd_kafka_aborted_txns_t \<Rightarrow> rd_kafka_aborted_txns_t option" where
  "rd_kafka_aborted_txns_sort txns = sort_nodes (rl_elems (txn_list txns)) txns"

text \<open>The nodes are freed through the list; freeing a node twice is \<open>None\<close>.\<close>

fun free_nodes :: "txn_ptr list \<Rightarrow> (nat \<rightharpoonup> rd_kafka_aborted_txn_start_offsets_t) \<Rightarrow>
    (nat \<rightharpoonup> rd_kafka_aborted_txn_start_offsets_t) option" where
  "free_nodes [] m = Some m"
| "free_nodes (p # ps) m = do { _ \<leftarrow> m (ptr_addr p); free_nodes ps (m(ptr_addr p := None)) }"

text \<open>What is left in the store.\<close>

definition rd_kafka_aborted_txns_destroy ::
    "rd_kafka_aborted_txns_t \<Rightarrow> (nat \<rightharpoonup> rd_kafka_aborted_txn_start_offsets_t) option" where
  "rd_kafka_aborted_txns_destroy txns = do {
    m \<leftarrow> free_nodes (rl_elems (txn_list txns)) (txn_mem txns);
    _ \<leftarrow> rd_avl_destroy (avl txns);
    Some m
  }"

text \<open>The part of the fetch response handler that fills the collection.\<close>

fun add_all :: "(int \<times> int) list \<Rightarrow> rd_kafka_aborted_txns_t \<Rightarrow> rd_kafka_aborted_txns_t option" where
  "add_all [] txns = Some txns"
| "add_all ((PID, FirstOffset) # rest) txns = do {
    txns \<leftarrow> rd_kafka_aborted_txns_add txns PID FirstOffset;
    add_all rest txns
  }"

definition read_aborted_txns :: "(int \<times> int) list \<Rightarrow> rd_kafka_aborted_txns_t option" where
  "read_aborted_txns entries = do {
    txns \<leftarrow> rd_kafka_aborted_txns_new (int (length entries));
    txns \<leftarrow> add_all entries txns;
    rd_kafka_aborted_txns_sort txns
  }"

subsection \<open>Invariant and abstraction\<close>

definition node_ok :: "int \<Rightarrow> rd_kafka_aborted_txn_start_offsets_t \<Rightarrow> bool" where
  "node_ok c n \<longleftrightarrow> rl_size (offsets n) = c \<and> rd_list_cnt (offsets n) \<le> c \<and>
    rl_flags (offsets n) AND RD_LIST_F_FIXED_SIZE \<noteq> 0 \<and> 0 \<le> offsets_idx n \<and> offsets_idx n \<le> rd_list_cnt (offsets n)"

definition txns_ok :: "rd_kafka_aborted_txns_t \<Rightarrow> bool" where
  "txns_ok t \<longleftrightarrow> ravl_ok (avl t) \<and> ravl_cmp (avl t) = rd_kafka_aborted_txn_cmp_by_pid \<and> ravl_flags (avl t) = 0 \<and>
    set (rl_elems (txn_list t)) = set (ravl_elms (avl t)) \<and> distinct (map ptr_addr (rl_elems (txn_list t))) \<and>
    rl_flags (txn_list t) AND RD_LIST_F_FIXED_SIZE = 0 \<and>
    dom (txn_mem t) = ptr_addr ` set (ravl_elms (avl t)) \<and>
    (\<forall>a n. txn_mem t a = Some n \<longrightarrow> node_ok (txn_cnt t) n \<and> a < txn_brk t)"

text \<open>The collection as a function: the offsets of a producer and how many are used up.\<close>

definition view :: "rd_kafka_aborted_txns_t \<Rightarrow> int \<Rightarrow> int list \<times> nat" where
  "view t p = (case find (\<lambda>r. ptr_pid r = p) (ravl_elms (avl t)) of
      None \<Rightarrow> ([], 0)
    | Some r \<Rightarrow> (case txn_mem t (ptr_addr r) of
        None \<Rightarrow> ([], 0)
      | Some n \<Rightarrow> (rl_elems (offsets n), nat (offsets_idx n))))"

lemma ascending_pids: "ascending rd_kafka_aborted_txn_cmp_by_pid rs \<Longrightarrow> sorted_wrt (<) (map ptr_pid rs)"
  by (simp add: ascending_def cmp_by_pid_less sorted_wrt_map)

lemma find_pid:
  assumes "txns_ok t"
  shows "find (\<lambda>r. ptr_pid r = p) (ravl_elms (avl t)) = Some r \<longleftrightarrow> r \<in> set (ravl_elms (avl t)) \<and> ptr_pid r = p"
proof -
  have "ascending rd_kafka_aborted_txn_cmp_by_pid (ravl_elms (avl t))"
    using assms unfolding txns_ok_def ravl_ok_def ravl_elms_def by metis
  from ascending_pids [OF this] have "distinct (map ptr_pid (ravl_elms (avl t)))"
    by (simp add: strict_sorted_iff)
  then have inj: "inj_on ptr_pid (set (ravl_elms (avl t)))" by (simp add: distinct_map)
  have "r \<in> set (ravl_elms (avl t)) \<and> ptr_pid r = p" if "find (\<lambda>r. ptr_pid r = p) (ravl_elms (avl t)) = Some r"
    using that by (auto simp: find_Some_iff)
  moreover have "find (\<lambda>r. ptr_pid r = p) (ravl_elms (avl t)) = Some r" if "r \<in> set (ravl_elms (avl t))" "ptr_pid r = p"
  proof (cases "find (\<lambda>r. ptr_pid r = p) (ravl_elms (avl t))")
    case None
    then show ?thesis using that by (auto simp: find_None_iff)
  next
    case (Some r')
    then have "r' \<in> set (ravl_elms (avl t))" "ptr_pid r' = p" by (auto simp: find_Some_iff)
    then show ?thesis using that Some inj by (auto dest: inj_onD)
  qed
  ultimately show ?thesis by blast
qed

lemma lookup_pid:
  assumes "txns_ok t"
  shows "rd_kafka_aborted_txns_offsets_for_pid t p = Some (find (\<lambda>r. ptr_pid r = p) (ravl_elms (avl t)), t)"
proof -
  have "keycmp_order (ravl_cmp (avl t))" "ravl_ok (avl t)" "ravl_cmp (avl t) = rd_kafka_aborted_txn_cmp_by_pid"
    using assms pid_keys.keycmp_order_axioms by (simp_all add: txns_ok_def)
  from avl_find_ok [OF this(1,2), of "TxnPtr p 0" True] this(3) show ?thesis
    by (simp add: rd_kafka_aborted_txns_offsets_for_pid_def cmp_by_pid_eq eq_commute [of p])
qed

lemma view_at:
  assumes "txns_ok t" "r \<in> set (ravl_elms (avl t))" "txn_mem t (ptr_addr r) = Some n"
  shows "view t (ptr_pid r) = (rl_elems (offsets n), nat (offsets_idx n))"
  using find_pid [OF assms(1), of "ptr_pid r" r] assms(2,3) by (simp add: view_def)

lemma addr_inj:
  assumes "txns_ok t" "r \<in> set (ravl_elms (avl t))" "r' \<in> set (ravl_elms (avl t))" "ptr_addr r = ptr_addr r'"
  shows "r = r'"
proof -
  have "inj_on ptr_addr (set (ravl_elms (avl t)))"
    using assms(1) by (auto simp: txns_ok_def distinct_map)
  then show ?thesis using assms(2-4) by (auto dest: inj_onD)
qed

lemma write_node:
  assumes "txns_ok t" "r \<in> set (ravl_elms (avl t))" "node_ok (txn_cnt t) n"
  shows "txns_ok (t\<lparr>txn_mem := (txn_mem t)(ptr_addr r \<mapsto> n)\<rparr>) \<and>
    view (t\<lparr>txn_mem := (txn_mem t)(ptr_addr r \<mapsto> n)\<rparr>) =
      (view t)(ptr_pid r := (rl_elems (offsets n), nat (offsets_idx n)))"
proof -
  let ?t = "t\<lparr>txn_mem := (txn_mem t)(ptr_addr r \<mapsto> n)\<rparr>"
  have dom: "dom (txn_mem t) = ptr_addr ` set (ravl_elms (avl t))" using assms(1) by (simp add: txns_ok_def)
  then have "ptr_addr r \<in> dom (txn_mem t)" using assms(2) by simp
  then have "ptr_addr r < txn_brk t" using assms(1) by (auto simp: txns_ok_def)
  then have ok: "txns_ok ?t" using assms dom by (auto simp: txns_ok_def)
  have "view ?t p = view t p" if "p \<noteq> ptr_pid r" for p
  proof (cases "find (\<lambda>r. ptr_pid r = p) (ravl_elms (avl t))")
    case None
    then show ?thesis by (simp add: view_def)
  next
    case (Some r')
    then have "r' \<in> set (ravl_elms (avl t))" "ptr_pid r' = p" using find_pid [OF assms(1)] by simp_all
    then have "ptr_addr r' \<noteq> ptr_addr r" using addr_inj [OF assms(1,2)] that by metis
    then show ?thesis using Some by (simp add: view_def)
  qed
  moreover have "view ?t (ptr_pid r) = (rl_elems (offsets n), nat (offsets_idx n))"
    using view_at [OF ok, of r n] assms(2) by simp
  ultimately show ?thesis using ok by auto
qed

subsection \<open>The operations on the abstraction\<close>

lemma next_offset_ok:
  assumes "txns_ok t" "view t p = (os, i)"
  shows "if i < length os
    then \<exists>t'. rd_kafka_aborted_txns_next_offset t p inc = Some (os ! i, t') \<and> txns_ok t' \<and>
      view t' = (if inc then (view t)(p := (os, Suc i)) else view t) \<and> (\<not> inc \<longrightarrow> t' = t)
    else rd_kafka_aborted_txns_next_offset t p inc = Some (- 1, t)"
proof (cases "find (\<lambda>r. ptr_pid r = p) (ravl_elms (avl t))")
  case None
  then show ?thesis
    using assms(2) by (auto simp: view_def rd_kafka_aborted_txns_next_offset_def lookup_pid [OF assms(1)])
next
  case (Some r)
  then have r: "r \<in> set (ravl_elms (avl t))" "ptr_pid r = p" using find_pid [OF assms(1)] by simp_all
  then have "ptr_addr r \<in> dom (txn_mem t)" using assms(1) by (auto simp: txns_ok_def)
  then obtain n where n: "txn_mem t (ptr_addr r) = Some n" by auto
  then have ok: "node_ok (txn_cnt t) n" using assms(1) by (simp add: txns_ok_def)
  have v: "os = rl_elems (offsets n)" "offsets_idx n = int i"
    using view_at [OF assms(1) r(1) n] r(2) assms(2) ok by (auto simp: node_ok_def)
  show ?thesis
  proof (cases "i < length os")
    case True
    then have ok': "node_ok (txn_cnt t) (n\<lparr>offsets_idx := offsets_idx n + 1\<rparr>)"
      using ok v by (auto simp: node_ok_def rd_list_cnt_def)
    have "rd_list_elem (offsets n) (int i) = Some (os ! i)" "\<not> rd_list_cnt (offsets n) \<le> int i"
      using True v by (auto simp: rd_list_elem_def rd_list_cnt_def)
    then show ?thesis
      using True write_node [OF assms(1) r(1) ok'] assms(1) v r(2)
      by (cases inc) (simp_all add: rd_kafka_aborted_txns_next_offset_def lookup_pid [OF assms(1)] Some n nat_add_distrib)
  next
    case False
    then have "rd_list_cnt (offsets n) \<le> offsets_idx n" using v by (simp add: rd_list_cnt_def)
    then show ?thesis using False
      by (simp add: rd_kafka_aborted_txns_next_offset_def lookup_pid [OF assms(1)] Some n)
  qed
qed

lemma list_flags:
  "(f AND NOT RD_LIST_F_SORTED) AND RD_LIST_F_FIXED_SIZE = f AND RD_LIST_F_FIXED_SIZE"
  "(f OR RD_LIST_F_SORTED) AND RD_LIST_F_FIXED_SIZE = f AND RD_LIST_F_FIXED_SIZE"
  by (simp_all add: RD_LIST_F_SORTED_def RD_LIST_F_FIXED_SIZE_def and.assoc bit.conj_disj_distrib2)

lemma set_upsert: "\<forall>x \<in> set xs. cmp e x \<noteq> 0 \<Longrightarrow> set (upsert cmp e xs) = insert e (set xs)"
  by (auto simp: upsert_def)

lemma list_add_grow:
  assumes "rl_flags l AND RD_LIST_F_FIXED_SIZE = 0"
  shows "\<exists>l'. rd_list_add l x = Some l' \<and> rl_elems l' = rl_elems l @ [x] \<and> rl_flags l' AND RD_LIST_F_FIXED_SIZE = 0"
  using assms by (simp add: rd_list_add_def rd_list_grow_def list_flags)

lemma list_add_fixed:
  assumes "rd_list_cnt l < rl_size l"
  shows "\<exists>l'. rd_list_add l x = Some l' \<and> rl_elems l' = rl_elems l @ [x] \<and> rl_size l' = rl_size l \<and>
    rl_flags l' AND RD_LIST_F_FIXED_SIZE = rl_flags l AND RD_LIST_F_FIXED_SIZE"
  using assms by (simp add: rd_list_add_def list_flags)

lemma option_eqI: "(\<And>x. a = Some x \<longleftrightarrow> b = Some x) \<Longrightarrow> a = b"
  by (cases a; cases b) auto

lemma fresh_node_view:
  assumes "txns_ok t" "txns_ok t'" "find (\<lambda>r. ptr_pid r = p) (ravl_elms (avl t)) = None"
    and el: "set (ravl_elms (avl t')) = insert (TxnPtr p a) (set (ravl_elms (avl t)))"
    and mem: "txn_mem t' = (txn_mem t)(a \<mapsto> n)" "rl_elems (offsets n) = []" "offsets_idx n = 0"
    and low: "\<And>r. r \<in> set (ravl_elms (avl t)) \<Longrightarrow> ptr_addr r < a"
  shows "view t' = view t"
proof
  fix q
  show "view t' q = view t q"
  proof (cases "q = p")
    case True
    then show ?thesis
      using view_at [OF assms(2), of "TxnPtr p a" n] el mem assms(3) by (simp add: view_def)
  next
    case False
    have same: "find (\<lambda>r. ptr_pid r = q) (ravl_elms (avl t')) = find (\<lambda>r. ptr_pid r = q) (ravl_elms (avl t))"
      using find_pid [OF assms(2), of q] find_pid [OF assms(1), of q] el False
      by (intro option_eqI) auto
    show ?thesis
    proof (cases "find (\<lambda>r. ptr_pid r = q) (ravl_elms (avl t))")
      case None
      then show ?thesis using same by (simp add: view_def)
    next
      case (Some r)
      then have "ptr_addr r < a" using low find_pid [OF assms(1), of q] by simp
      then have "txn_mem t' (ptr_addr r) = txn_mem t (ptr_addr r)" by (simp add: mem)
      then show ?thesis using same Some by (simp add: view_def)
    qed
  qed
qed

lemma new_node_ok:
  assumes "txns_ok t" "find (\<lambda>r. ptr_pid r = p) (ravl_elms (avl t)) = None" "0 \<le> txn_cnt t"
  shows "\<exists>t' n. new_node t p = Some (TxnPtr p (txn_brk t), t') \<and> txns_ok t' \<and> txn_cnt t' = txn_cnt t \<and>
    TxnPtr p (txn_brk t) \<in> set (ravl_elms (avl t')) \<and> txn_mem t' (txn_brk t) = Some n \<and> view t' = view t"
proof -
  let ?p = "TxnPtr p (txn_brk t)"
  let ?n = "\<lparr>pid = p, offsets_idx = 0, offsets = \<lparr>rl_size = txn_cnt t, rl_elems = [], rl_flags = 0 OR RD_LIST_F_FIXED_SIZE\<rparr>\<rparr>"
  have inv: "keycmp_order (ravl_cmp (avl t))" "ravl_ok (avl t)" "ravl_cmp (avl t) = rd_kafka_aborted_txn_cmp_by_pid"
    "rl_flags (txn_list t) AND RD_LIST_F_FIXED_SIZE = 0"
    using assms(1) pid_keys.keycmp_order_axioms by (simp_all add: txns_ok_def)
  have new: "ptr_pid r \<noteq> p" if "r \<in> set (ravl_elms (avl t))" for r
    using assms(2) that by (auto simp: find_None_iff)
  from avl_insert_ok [OF inv(1,2), of ?p] obtain u where u:
    "rd_avl_insert (avl t) ?p = Some (find (\<lambda>x. ravl_cmp (avl t) ?p x = 0) (ravl_elms (avl t)), (avl t)\<lparr>ravl_root := u\<rparr>)"
    "ravl_ok ((avl t)\<lparr>ravl_root := u\<rparr>)" "elms u = upsert (ravl_cmp (avl t)) ?p (ravl_elms (avl t))" by blast
  have el: "set (elms u) = insert ?p (set (ravl_elms (avl t)))"
    unfolding u(3) inv(3) by (rule set_upsert) (use new in \<open>auto simp: cmp_by_pid_eq\<close>)
  from list_add_grow [OF inv(4), of ?p] obtain l where l: "rd_list_add (txn_list t) ?p = Some l"
    "rl_elems l = rl_elems (txn_list t) @ [?p]" "rl_flags l AND RD_LIST_F_FIXED_SIZE = 0" by blast
  define t' where "t' = t\<lparr>avl := (avl t)\<lparr>ravl_root := u\<rparr>, txn_list := l, txn_mem := (txn_mem t)(txn_brk t \<mapsto> ?n),
    txn_brk := Suc (txn_brk t)\<rparr>"
  have dom: "dom (txn_mem t) = ptr_addr ` set (ravl_elms (avl t))" "\<And>a n. txn_mem t a = Some n \<Longrightarrow> a < txn_brk t"
    using assms(1) by (auto simp: txns_ok_def)
  have low: "ptr_addr r < txn_brk t" if "r \<in> set (ravl_elms (avl t))" for r
    using dom that by (metis domD imageI)
  then have free: "txn_brk t \<notin> ptr_addr ` set (ravl_elms (avl t))" by (metis image_iff less_irrefl)
  have call: "new_node t p = Some (?p, t')"
    by (simp add: new_node_def rd_list_init_def rd_list_prealloc_elems_def u(1) l(1) t'_def)
  have "node_ok (txn_cnt t) ?n"
    using assms(3) by (simp add: node_ok_def rd_list_cnt_def RD_LIST_F_FIXED_SIZE_def)
  then have ok: "txns_ok t'"
    using assms(1) u(2) l(2,3) el free dom(1)
    by (auto simp: txns_ok_def t'_def ravl_elms_def less_Suc_eq)
  have "view t' = view t"
    by (rule fresh_node_view [OF assms(1) ok assms(2), of "txn_brk t" ?n])
      (use el low in \<open>auto simp: t'_def ravl_elms_def\<close>)
  with call ok el show ?thesis by (auto simp: t'_def ravl_elms_def)
qed

lemma add_ok:
  assumes "txns_ok t" "int (length (fst (view t p))) < txn_cnt t"
  shows "\<exists>t'. rd_kafka_aborted_txns_add t p x = Some t' \<and> txns_ok t' \<and> txn_cnt t' = txn_cnt t \<and>
    view t' = (view t)(p := (fst (view t p) @ [x], snd (view t p)))"
proof -
  obtain r u n where u: "(case find (\<lambda>r. ptr_pid r = p) (ravl_elms (avl t)) of None \<Rightarrow> new_node t p | Some r \<Rightarrow> Some (r, t)) = Some (r, u)"
    "txns_ok u" "txn_cnt u = txn_cnt t" "r \<in> set (ravl_elms (avl u))" "ptr_pid r = p" "txn_mem u (ptr_addr r) = Some n" "view u = view t"
  proof (cases "find (\<lambda>r. ptr_pid r = p) (ravl_elms (avl t))")
    case None
    have "0 \<le> txn_cnt t" using assms(2) by simp
    from new_node_ok [OF assms(1) None this] show thesis using that None by auto
  next
    case (Some r)
    then have r: "r \<in> set (ravl_elms (avl t))" "ptr_pid r = p" using find_pid [OF assms(1)] by simp_all
    then have "ptr_addr r \<in> dom (txn_mem t)" using assms(1) by (auto simp: txns_ok_def)
    then show thesis using that [of r t] Some r assms(1) by auto
  qed
  have ok: "node_ok (txn_cnt u) n" using u(2,6) by (simp add: txns_ok_def)
  have v: "view t p = (rl_elems (offsets n), nat (offsets_idx n))" using view_at [OF u(2,4,6)] u(5,7) by simp
  have "rd_list_cnt (offsets n) < rl_size (offsets n)"
    using assms(2) v ok u(3) by (simp add: node_ok_def rd_list_cnt_def)
  from list_add_fixed [OF this, of x] obtain l where l: "rd_list_add (offsets n) x = Some l"
    "rl_elems l = rl_elems (offsets n) @ [x]" "rl_size l = rl_size (offsets n)"
    "rl_flags l AND RD_LIST_F_FIXED_SIZE = rl_flags (offsets n) AND RD_LIST_F_FIXED_SIZE" by blast
  have "node_ok (txn_cnt u) (n\<lparr>offsets := l\<rparr>)"
    using ok l assms(2) u(3) v by (simp add: node_ok_def rd_list_cnt_def)
  from write_node [OF u(2,4) this] show ?thesis
    using u v l by (simp add: rd_kafka_aborted_txns_add_def lookup_pid [OF assms(1)])
qed

abbreviation of_pid :: "int \<Rightarrow> (int \<times> int) list \<Rightarrow> int list" where
  "of_pid p es \<equiv> map snd (filter (\<lambda>e. fst e = p) es)"

lemma add_all_ok:
  assumes "txns_ok t" "\<forall>p. int (length (fst (view t p)) + length es) \<le> txn_cnt t"
  shows "\<exists>t'. add_all es t = Some t' \<and> txns_ok t' \<and> view t' = (\<lambda>p. (fst (view t p) @ of_pid p es, snd (view t p)))"
  using assms
proof (induction es arbitrary: t)
  case (Cons e es)
  obtain p x where e: "e = (p, x)" by (cases e)
  have "int (length (fst (view t p)) + length (e # es)) \<le> txn_cnt t" using Cons.prems(2) by blast
  then have "int (length (fst (view t p))) < txn_cnt t" by simp
  from add_ok [OF Cons.prems(1) this, of x] obtain u where u: "rd_kafka_aborted_txns_add t p x = Some u" "txns_ok u"
    "txn_cnt u = txn_cnt t" "view u = (view t)(p := (fst (view t p) @ [x], snd (view t p)))" by blast
  have "\<forall>q. int (length (fst (view u q)) + length es) \<le> txn_cnt u"
  proof
    fix q
    have "int (length (fst (view t q)) + length (e # es)) \<le> txn_cnt t" using Cons.prems(2) by blast
    then show "int (length (fst (view u q)) + length es) \<le> txn_cnt u" using u(3,4) by (cases "q = p") simp_all
  qed
  from Cons.IH [OF u(2) this] show ?case using u e by (auto simp: fun_eq_iff)
qed simp

lemma sort_elems: "rd_list_cnt l \<le> rl_size l \<Longrightarrow> rl_elems (rd_list_sort l) = sort (rl_elems l)"
  by (auto simp: rd_list_sort_def rd_list_cnt_def)

lemma sort_size: "rl_size (rd_list_sort l) = rl_size l"
    "rl_flags (rd_list_sort l) AND RD_LIST_F_FIXED_SIZE = rl_flags l AND RD_LIST_F_FIXED_SIZE"
  by (simp_all add: rd_list_sort_def list_flags)

lemma sort_nodes_ok:
  assumes "txns_ok t" "set rs \<subseteq> set (ravl_elms (avl t))"
  shows "\<exists>t'. sort_nodes rs t = Some t' \<and> txns_ok t' \<and> ravl_elms (avl t') = ravl_elms (avl t) \<and>
    view t' = (\<lambda>p. if p \<in> ptr_pid ` set rs then (sort (fst (view t p)), snd (view t p)) else view t p)"
  using assms
proof (induction rs arbitrary: t)
  case (Cons r rs)
  then have r: "r \<in> set (ravl_elms (avl t))" by simp
  then have "ptr_addr r \<in> dom (txn_mem t)" using Cons.prems(1) by (auto simp: txns_ok_def)
  then obtain n where n: "txn_mem t (ptr_addr r) = Some n" by auto
  then have ok: "node_ok (txn_cnt t) n" using Cons.prems(1) by (simp add: txns_ok_def)
  then have el: "rl_elems (rd_list_sort (offsets n)) = sort (rl_elems (offsets n))"
    by (intro sort_elems) (simp add: node_ok_def)
  have "node_ok (txn_cnt t) (n\<lparr>offsets := rd_list_sort (offsets n)\<rparr>)"
    using ok el by (simp add: node_ok_def sort_size rd_list_cnt_def)
  note w = write_node [OF Cons.prems(1) r this]
  from Cons.IH [OF conjunct1 [OF w]] Cons.prems(2) show ?case
    using n el view_at [OF Cons.prems(1) r n] conjunct2 [OF w] by (auto simp: fun_eq_iff sorted_sort_id)
qed simp

lemma sort_ok:
  assumes "txns_ok t"
  shows "\<exists>t'. rd_kafka_aborted_txns_sort t = Some t' \<and> txns_ok t' \<and> view t' = (\<lambda>p. (sort (fst (view t p)), snd (view t p)))"
proof -
  have el: "set (rl_elems (txn_list t)) = set (ravl_elms (avl t))" using assms by (simp add: txns_ok_def)
  have "view t p = ([], 0)" if "p \<notin> ptr_pid ` set (ravl_elms (avl t))" for p
  proof -
    have "find (\<lambda>r. ptr_pid r = p) (ravl_elms (avl t)) = None" using that by (auto simp: find_None_iff)
    then show ?thesis by (simp add: view_def)
  qed
  then show ?thesis
    using sort_nodes_ok [OF assms, of "rl_elems (txn_list t)"] el
    by (auto simp: rd_kafka_aborted_txns_sort_def fun_eq_iff)
qed

lemma new_ok:
  "\<exists>t. rd_kafka_aborted_txns_new c = Some t \<and> txns_ok t \<and> txn_cnt t = c \<and> view t = (\<lambda>p. ([], 0))"
  by (auto simp: rd_kafka_aborted_txns_new_def rd_list_init_def rd_list_grow_def txns_ok_def ravl_ok_def rd_avl_init_def
      ravl_elms_def ascending_def view_def Let_def fun_eq_iff)

lemma free_nodes_ok:
  "distinct (map ptr_addr rs) \<Longrightarrow> dom m = ptr_addr ` set rs \<Longrightarrow> free_nodes rs m = Some Map.empty"
proof (induction rs arbitrary: m)
  case (Cons r rs)
  then have "ptr_addr r \<in> dom m" by simp
  then obtain n where "m (ptr_addr r) = Some n" by auto
  moreover have "dom (m(ptr_addr r := None)) = ptr_addr ` set rs" using Cons.prems by auto
  ultimately show ?case using Cons by auto
qed simp

subsection \<open>What a fetch response leaves\<close>

lemma read_txns_ok:
  "\<exists>t. read_aborted_txns es = Some t \<and> txns_ok t \<and> view t = (\<lambda>p. (sort (of_pid p es), 0))"
proof -
  from new_ok [of "int (length es)"] obtain t where t: "rd_kafka_aborted_txns_new (int (length es)) = Some t" "txns_ok t"
    "txn_cnt t = int (length es)" "view t = (\<lambda>p. ([], 0))" by blast
  then obtain u where u: "add_all es t = Some u" "txns_ok u" "view u = (\<lambda>p. (of_pid p es, 0))"
    using add_all_ok [OF t(2), of es] by auto
  from sort_ok [OF u(2)] show ?thesis using t(1) u(1,3) by (auto simp: read_aborted_txns_def)
qed

text \<open>
  Reading the aborted transactions of a fetch response succeeds, within the slots that
  are allocated for each producer, and leaves for every producer id exactly the start
  offsets that the response lists for it, in ascending order and none used up.
\<close>

theorem read_aborted_txns_correct:
  "\<exists>t. read_aborted_txns es = Some t \<and> txns_ok t \<and> (\<forall>p. view t p = (sort (of_pid p es), 0))"
  using read_txns_ok [of es] by auto

text \<open>
  C14: Asking for the start offset of a producer gives the first that is not used up, or -1,
  and changes nothing; taking it gives the same and uses up exactly that one, for that
  producer only.  Destroying the collection frees every node once.
\<close>

theorem aborted_txns_offsets:
  assumes "txns_ok t" "view t p = (os, i)"
  shows "rd_kafka_aborted_txns_get_offset t p = Some (if i < length os then os ! i else - 1, t) \<and>
    (\<exists>t'. rd_kafka_aborted_txns_pop_offset t p = Some (if i < length os then os ! i else - 1, t') \<and> txns_ok t' \<and>
      view t' = (view t)(p := (os, if i < length os then Suc i else i))) \<and>
    rd_kafka_aborted_txns_destroy t = Some Map.empty"
proof -
  have "free_nodes (rl_elems (txn_list t)) (txn_mem t) = Some Map.empty"
    by (rule free_nodes_ok) (use assms(1) in \<open>auto simp: txns_ok_def\<close>)
  moreover have "ravl_flags (avl t) = 0" using assms(1) by (simp add: txns_ok_def)
  ultimately have "rd_kafka_aborted_txns_destroy t = Some Map.empty"
    by (simp add: rd_kafka_aborted_txns_destroy_def rd_avl_destroy_def if_locks_def)
  moreover have "(view t)(p := (os, i)) = view t" using assms(2) by auto
  ultimately show ?thesis
    using next_offset_ok [OF assms, of False] next_offset_ok [OF assms, of True] assms(1)
    by (cases "i < length os") (auto simp: rd_kafka_aborted_txns_get_offset_def rd_kafka_aborted_txns_pop_offset_def)
qed

theorem aborted_txns_offsets_witness:
  "\<exists>t t'. rd_kafka_aborted_txns_new 7 \<bind> (\<lambda>t. rd_kafka_aborted_txns_add t 1 42) = Some t \<and>
    rd_kafka_aborted_txns_get_offset t 1 = Some (42, t) \<and> rd_kafka_aborted_txns_pop_offset t 1 = Some (42, t')"
proof -
  from new_ok [of 7] obtain t where t: "rd_kafka_aborted_txns_new 7 = Some t" "txns_ok t" "txn_cnt t = 7"
    "view t = (\<lambda>p. ([], 0))" by blast
  then obtain u where "rd_kafka_aborted_txns_add t 1 42 = Some u" "txns_ok u" "view u 1 = ([42], 0)"
    using add_ok [OF t(2), of 1 42] by auto
  with t(1) aborted_txns_offsets [of u 1 "[42]" 0] show ?thesis by auto
qed

end
