(* ===== verification/RK_Reader.thy ===== *)
theory RK_Reader
  imports RK_Txn
begin

section \<open>Reading transactional message sets\<close>

text \<open>
  The reader of message sets of version 2 in \<open>rdkafka_msgset_reader.c\<close>, from the point where
  the bytes of a set are parsed: its header fields and its records, decompressed where they
  were compressed.  A control record has the fields of its key.  The state has the
  collection of aborted transactions, the operations queued for the application and what is
  logged; a parse failure ends the reading.
\<close>

datatype rd_kafka_isolation_level_t = RD_KAFKA_READ_UNCOMMITTED | RD_KAFKA_READ_COMMITTED

definition RD_KAFKA_MSG_ATTR_COMPRESSION_MASK :: "16 word" where
  "RD_KAFKA_MSG_ATTR_COMPRESSION_MASK = 0x7"
definition RD_KAFKA_MSGSET_V2_ATTR_TRANSACTIONAL :: "16 word" where
  "RD_KAFKA_MSGSET_V2_ATTR_TRANSACTIONAL = push_bit 4 1"
definition RD_KAFKA_MSGSET_V2_ATTR_CONTROL :: "16 word" where
  "RD_KAFKA_MSGSET_V2_ATTR_CONTROL = push_bit 5 1"
definition RD_KAFKA_CTRL_MSG_ABORT :: int where "RD_KAFKA_CTRL_MSG_ABORT = 0"
definition RD_KAFKA_CTRL_MSG_COMMIT :: int where "RD_KAFKA_CTRL_MSG_COMMIT = 1"

record v2_msg =
  OffsetDelta :: int
  KeySize :: int
  Version :: int
  Type :: int

record msgset_v2 =
  BaseOffset :: int
  Attributes :: "16 word"
  LastOffsetDelta :: int
  PID :: int
  records :: "v2_msg list"

datatype rd_kafka_op_t = FetchMsg int | CtrlMsg int

datatype reader_log = AbortBadOrder int int | AbortUnknownTxn int int | UnsupportedCtrl int int

record rd_kafka_msgset_reader_t =
  isolation_level :: rd_kafka_isolation_level_t
  fetch_offset :: int
  msetr_aborted_txns :: "rd_kafka_aborted_txns_t option"
  msetr_rkq :: "rd_kafka_op_t list"
  msetr_msgcnt :: int
  msetr_ctrl_cnt :: int
  msetr_next_offset :: int
  msetr_log :: "reader_log list"

definition rd_kafka_msgset_reader_init ::
    "rd_kafka_isolation_level_t \<Rightarrow> int \<Rightarrow> rd_kafka_aborted_txns_t option \<Rightarrow> rd_kafka_msgset_reader_t" where
  "rd_kafka_msgset_reader_init isolation offset aborted_txns =
    \<lparr>isolation_level = isolation, fetch_offset = offset, msetr_aborted_txns = aborted_txns, msetr_rkq = [],
     msetr_msgcnt = 0, msetr_ctrl_cnt = 0, msetr_next_offset = 0, msetr_log = []\<rparr>"

definition logs :: "reader_log \<Rightarrow> rd_kafka_msgset_reader_t \<Rightarrow> rd_kafka_msgset_reader_t" where
  "logs l msetr = msetr\<lparr>msetr_log := msetr_log msetr @ [l]\<rparr>"

definition enq :: "rd_kafka_op_t \<Rightarrow> rd_kafka_msgset_reader_t \<Rightarrow> rd_kafka_msgset_reader_t" where
  "enq rko msetr = msetr\<lparr>msetr_rkq := msetr_rkq msetr @ [rko], msetr_msgcnt := msetr_msgcnt msetr + 1\<rparr>"

text \<open>The cases of the switch on the type of a control record.\<close>

definition ctrl_switch :: "msgset_v2 \<Rightarrow> int \<Rightarrow> int \<Rightarrow> rd_kafka_msgset_reader_t \<Rightarrow> rd_kafka_msgset_reader_t option" where
  "ctrl_switch hdr type offset msetr =
    (if type = RD_KAFKA_CTRL_MSG_COMMIT then Some msetr
     else if type = RD_KAFKA_CTRL_MSG_ABORT then
       (if isolation_level msetr \<noteq> RD_KAFKA_READ_COMMITTED then Some msetr
        else case msetr_aborted_txns msetr of
          None \<Rightarrow> Some (logs (AbortUnknownTxn (PID hdr) offset) msetr)
        | Some txns \<Rightarrow> do {
            (aborted_txn_start_offset, txns) \<leftarrow> rd_kafka_aborted_txns_pop_offset txns (PID hdr);
            let msetr = msetr\<lparr>msetr_aborted_txns := Some txns\<rparr>;
            Some (if aborted_txn_start_offset = - 1 then logs (AbortUnknownTxn (PID hdr) offset) msetr
                  else if aborted_txn_start_offset > offset
                  then logs (AbortBadOrder offset aborted_txn_start_offset) msetr
                  else msetr)
          })
     else Some (logs (UnsupportedCtrl type offset) msetr))"

text \<open>One record; \<open>True\<close> is a parse failure.\<close>

definition rd_kafka_msgset_reader_msg_v2 ::
    "msgset_v2 \<Rightarrow> v2_msg \<Rightarrow> rd_kafka_msgset_reader_t \<Rightarrow> (bool \<times> rd_kafka_msgset_reader_t) option" where
  "rd_kafka_msgset_reader_msg_v2 hdr m msetr =
    (let offset = BaseOffset hdr + OffsetDelta m in
     if offset < fetch_offset msetr then Some (False, msetr)
     else if Attributes hdr AND RD_KAFKA_MSGSET_V2_ATTR_CONTROL \<noteq> 0 then
       (if KeySize m < 2 then Some (True, msetr)
        else if Version m \<noteq> 0 then Some (False, msetr)
        else if KeySize m \<noteq> 4 then Some (True, msetr)
        else do {
          msetr \<leftarrow> ctrl_switch hdr (Type m) offset msetr;
          Some (False, enq (CtrlMsg offset) msetr)
        })
     else Some (False, enq (FetchMsg offset) msetr))"

fun rd_kafka_msgset_reader_msgs_v2 ::
    "msgset_v2 \<Rightarrow> v2_msg list \<Rightarrow> rd_kafka_msgset_reader_t \<Rightarrow> (bool \<times> rd_kafka_msgset_reader_t) option" where
  "rd_kafka_msgset_reader_msgs_v2 hdr [] msetr = Some (False, msetr)"
| "rd_kafka_msgset_reader_msgs_v2 hdr (m # ms) msetr = do {
    (err, msetr) \<leftarrow> rd_kafka_msgset_reader_msg_v2 hdr m msetr;
    if err then Some (True, msetr) else rd_kafka_msgset_reader_msgs_v2 hdr ms msetr
  }"

text \<open>Whether an uncompressed message set is part of an aborted transaction.\<close>

definition msgset_aborted ::
    "msgset_v2 \<Rightarrow> rd_kafka_msgset_reader_t \<Rightarrow> (bool \<times> rd_kafka_msgset_reader_t) option" where
  "msgset_aborted hdr msetr =
    (case msetr_aborted_txns msetr of
       None \<Rightarrow> Some (False, msetr)
     | Some txns \<Rightarrow>
         if Attributes hdr AND (RD_KAFKA_MSGSET_V2_ATTR_TRANSACTIONAL OR RD_KAFKA_MSGSET_V2_ATTR_CONTROL) =
            RD_KAFKA_MSGSET_V2_ATTR_TRANSACTIONAL
         then do {
           (txn_start_offset, txns) \<leftarrow> rd_kafka_aborted_txns_get_offset txns (PID hdr);
           Some (txn_start_offset \<noteq> - 1 \<and> BaseOffset hdr \<ge> txn_start_offset,
             msetr\<lparr>msetr_aborted_txns := Some txns\<rparr>)
         } else Some (False, msetr))"

definition rd_kafka_msgset_reader_v2 ::
    "msgset_v2 \<Rightarrow> rd_kafka_msgset_reader_t \<Rightarrow> (bool \<times> rd_kafka_msgset_reader_t) option" where
  "rd_kafka_msgset_reader_v2 hdr msetr =
    (let LastOffset = BaseOffset hdr + LastOffsetDelta hdr in
     if LastOffset < fetch_offset msetr then Some (False, msetr\<lparr>msetr_next_offset := LastOffset + 1\<rparr>)
     else do {
       let msetr = (if Attributes hdr AND RD_KAFKA_MSGSET_V2_ATTR_CONTROL \<noteq> 0
                    then msetr\<lparr>msetr_ctrl_cnt := msetr_ctrl_cnt msetr + 1\<rparr> else msetr);
       (err, msetr) \<leftarrow>
         (if Attributes hdr AND RD_KAFKA_MSG_ATTR_COMPRESSION_MASK \<noteq> 0
          then rd_kafka_msgset_reader_msgs_v2 hdr (records hdr) msetr
          else do {
            (skip, msetr) \<leftarrow> msgset_aborted hdr msetr;
            if skip then Some (False, msetr)
            else rd_kafka_msgset_reader_msgs_v2 hdr (records hdr) msetr
          });
       Some (err, if err then msetr else msetr\<lparr>msetr_next_offset := LastOffset + 1\<rparr>)
     })"

text \<open>The message sets of a response one after the other.\<close>

fun read_msgsets :: "msgset_v2 list \<Rightarrow> rd_kafka_msgset_reader_t \<Rightarrow> (bool \<times> rd_kafka_msgset_reader_t) option" where
  "read_msgsets [] msetr = Some (False, msetr)"
| "read_msgsets (b # bs) msetr = do {
    (err, msetr) \<leftarrow> rd_kafka_msgset_reader_v2 b msetr;
    if err then Some (True, msetr) else read_msgsets bs msetr
  }"

subsection \<open>Logs of transactions\<close>











fun fetched :: "rd_kafka_op_t list \<Rightarrow> int list" where
  "fetched [] = []"
| "fetched (FetchMsg n # q) = n # fetched q"
| "fetched (CtrlMsg n # q) = fetched q"

lemma fetched_append [simp]: "fetched (q @ r) = fetched q @ fetched r"
  by (induction q rule: fetched.induct) simp_all

lemma fetched_map [simp]: "fetched (map FetchMsg ns) = ns"
  by (induction ns) simp_all




definition offs_left :: "rd_kafka_aborted_txns_t \<Rightarrow> int \<Rightarrow> int list" where
  "offs_left t p = drop (snd (view t p)) (fst (view t p))"

lemma get_left:
  assumes "txns_ok t"
  shows "rd_kafka_aborted_txns_get_offset t p = Some (case offs_left t p of [] \<Rightarrow> - 1 | s # _ \<Rightarrow> s, t)"
proof -
  obtain os i where v: "view t p = (os, i)" by (cases "view t p")
  show ?thesis
    using next_offset_ok [OF assms v, of False] v
    by (cases "i < length os") (auto simp: offs_left_def rd_kafka_aborted_txns_get_offset_def Cons_nth_drop_Suc [symmetric])
qed

lemma pop_left:
  assumes "txns_ok t"
  shows "\<exists>t'. rd_kafka_aborted_txns_pop_offset t p = Some (case offs_left t p of [] \<Rightarrow> - 1 | s # _ \<Rightarrow> s, t') \<and> txns_ok t' \<and>
    offs_left t' = (offs_left t)(p := tl (offs_left t p))"
proof -
  obtain os i where v: "view t p = (os, i)" by (cases "view t p")
  show ?thesis
    using next_offset_ok [OF assms v, of True] v assms
    by (cases "i < length os")
      (auto simp: offs_left_def rd_kafka_aborted_txns_pop_offset_def Cons_nth_drop_Suc [symmetric] fun_eq_iff drop_Suc tl_drop)
qed


subsection \<open>The reader follows the log\<close>















text \<open>
  Producer 7 has a transaction open when the response begins, which is aborted, then commits one;
  producer 8 begins one whose abort marker is behind the response.
\<close>

definition demo_set :: "int \<Rightarrow> int \<Rightarrow> 16 word \<Rightarrow> int \<Rightarrow> msgset_v2" where
  "demo_set p offset attrs type = \<lparr>BaseOffset = offset, Attributes = attrs, LastOffsetDelta = 0, PID = p,
    records = [\<lparr>OffsetDelta = 0, KeySize = 4, Version = 0, Type = type\<rparr>]\<rparr>"



lemmas attr_defs = RD_KAFKA_MSGSET_V2_ATTR_TRANSACTIONAL_def RD_KAFKA_MSGSET_V2_ATTR_CONTROL_def
  RD_KAFKA_MSG_ATTR_COMPRESSION_MASK_def RD_KAFKA_CTRL_MSG_ABORT_def RD_KAFKA_CTRL_MSG_COMMIT_def



text \<open>
  The entry of an empty aborted transaction is needed: without it the marker at offset 9 takes the entry
  of the transaction behind it, whose message at offset 10 is then delivered.
\<close>

lemma empty_aborted_txn_delivers:
  "\<exists>t st. read_aborted_txns [(7, 10)] = Some t \<and>
    read_msgsets [demo_set 7 9 48 0, demo_set 7 10 16 0, demo_set 7 11 48 0]
      (rd_kafka_msgset_reader_init RD_KAFKA_READ_COMMITTED 0 (Some t)) = Some (False, st) \<and>
    fetched (msetr_rkq st) = [10]"
proof -
  obtain t where t: "read_aborted_txns [(7, 10)] = Some t" "txns_ok t" "view t = (\<lambda>p. (sort (of_pid p [(7, 10)]), 0))"
    using read_txns_ok [of "[(7, 10)]"] by blast
  have "offs_left t 7 = [10]" using t(3) by (simp add: offs_left_def)
  then obtain u where u: "rd_kafka_aborted_txns_pop_offset t 7 = Some (10, u)" "txns_ok u" "offs_left u 7 = []"
    using pop_left [OF t(2), of 7] by auto
  obtain v where v: "rd_kafka_aborted_txns_pop_offset u 7 = Some (- 1, v)"
    using pop_left [OF u(2), of 7] u(3) by auto
  have "rd_kafka_aborted_txns_get_offset u 7 = Some (- 1, u)" using get_left [OF u(2), of 7] u(3) by simp
  with t(1) u(1) v show ?thesis
    by (simp add: rd_kafka_msgset_reader_v2_def rd_kafka_msgset_reader_msg_v2_def rd_kafka_msgset_reader_init_def
        msgset_aborted_def ctrl_switch_def logs_def demo_set_def attr_defs enq_def Let_def)
qed

text \<open>
  A compressed message set is not compared with the aborted transactions: the message at
  offset 10, in a transaction that is aborted, is delivered to a consumer of committed messages.
\<close>

lemma compressed_aborted_delivered:
  "\<exists>t st. read_aborted_txns [(7, 10)] = Some t \<and> rd_kafka_aborted_txns_get_offset t 7 = Some (10, t) \<and>
    rd_kafka_msgset_reader_v2 (demo_set 7 10 17 0) (rd_kafka_msgset_reader_init RD_KAFKA_READ_COMMITTED 0 (Some t)) = Some (False, st) \<and>
    fetched (msetr_rkq st) = [10]"
proof -
  obtain t where t: "read_aborted_txns [(7, 10)] = Some t" "txns_ok t" "view t = (\<lambda>p. (sort (of_pid p [(7, 10)]), 0))"
    using read_txns_ok [of "[(7, 10)]"] by blast
  have "rd_kafka_aborted_txns_get_offset t 7 = Some (10, t)"
    using get_left [OF t(2), of 7] t(3) by (simp add: offs_left_def)
  with t(1) show ?thesis
    by (simp add: rd_kafka_msgset_reader_v2_def rd_kafka_msgset_reader_msg_v2_def rd_kafka_msgset_reader_init_def
        demo_set_def attr_defs enq_def Let_def)
qed

end
