(* ===== verification/RK_Msgq.thy ===== *)
theory RK_Msgq
  imports KT_Prelude "HOL-Library.Multiset"
begin

section \<open>Message queues\<close>

text \<open>
  The queues of messages of a partition, \<open>rdkafka_msg.h\<close>, \<open>rdkafka_msg.c\<close> and \<open>rdkafka_partition.c\<close>
  of \<open>src/librdkafka-1.4.2/src\<close>: a doubly linked list with counters of its messages and bytes.
  The list is a list here, a pointer to a message of a queue is its index, and the macros of
  \<open>rdsysqueue.h\<close> are the list operations they perform.  \<open>None\<close> is a failed assertion or the use of
  a null pointer.
\<close>

datatype rd_kafka_msg_status_t =
  RD_KAFKA_MSG_STATUS_NOT_PERSISTED | RD_KAFKA_MSG_STATUS_POSSIBLY_PERSISTED | RD_KAFKA_MSG_STATUS_PERSISTED

record rd_kafka_msg =
  rkm_len :: nat
  rkm_key_len :: nat
  rkm_partition :: int
  rkm_offset :: int
  rkm_timestamp :: int
  rkm_log_append :: bool
  rkm_status :: rd_kafka_msg_status_t
  ts_timeout :: int
  ts_backoff :: int
  msgid :: nat
  retries :: int

record rd_kafka_msgq =
  rkmq_msgs :: "rd_kafka_msg list"
  rkmq_msg_cnt :: int
  rkmq_msg_bytes :: int

type_synonym order_cmp = "rd_kafka_msg \<Rightarrow> rd_kafka_msg \<Rightarrow> int"

definition msg_size :: "rd_kafka_msg \<Rightarrow> int" where
  "msg_size rkm = int (rkm_len rkm + rkm_key_len rkm)"

subsection \<open>Operations of the header\<close>

definition rd_kafka_msgq_init :: rd_kafka_msgq where
  "rd_kafka_msgq_init = \<lparr>rkmq_msgs = [], rkmq_msg_cnt = 0, rkmq_msg_bytes = 0\<rparr>"

text \<open>Destination and source afterwards.\<close>

definition rd_kafka_msgq_concat :: "rd_kafka_msgq \<Rightarrow> rd_kafka_msgq \<Rightarrow> rd_kafka_msgq \<times> rd_kafka_msgq" where
  "rd_kafka_msgq_concat dst src =
     (\<lparr>rkmq_msgs = rkmq_msgs dst @ rkmq_msgs src, rkmq_msg_cnt = rkmq_msg_cnt dst + rkmq_msg_cnt src,
       rkmq_msg_bytes = rkmq_msg_bytes dst + rkmq_msg_bytes src\<rparr>, rd_kafka_msgq_init)"

definition rd_kafka_msgq_move :: "rd_kafka_msgq \<Rightarrow> rd_kafka_msgq \<times> rd_kafka_msgq" where
  "rd_kafka_msgq_move src = (src, rd_kafka_msgq_init)"

definition rd_kafka_msgq_prepend :: "rd_kafka_msgq \<Rightarrow> rd_kafka_msgq \<Rightarrow> rd_kafka_msgq \<times> rd_kafka_msgq" where
  "rd_kafka_msgq_prepend dst src =
     (let (src, dst) = rd_kafka_msgq_concat src dst in rd_kafka_msgq_move src)"

definition rd_kafka_msgq_deq :: "rd_kafka_msgq \<Rightarrow> nat \<Rightarrow> bool \<Rightarrow> (rd_kafka_msg \<times> rd_kafka_msgq) option" where
  "rd_kafka_msgq_deq q i do_count =
     (if i \<ge> length (rkmq_msgs q) then None
      else
        (let rkm = rkmq_msgs q ! i;
             rest = take i (rkmq_msgs q) @ drop (i + 1) (rkmq_msgs q) in
         if do_count then
           if \<not> rkmq_msg_cnt q > 0 \<or> \<not> rkmq_msg_bytes q \<ge> msg_size rkm then None
           else Some (rkm, \<lparr>rkmq_msgs = rest, rkmq_msg_cnt = rkmq_msg_cnt q - 1,
                  rkmq_msg_bytes = rkmq_msg_bytes q - msg_size rkm\<rparr>)
         else Some (rkm, q\<lparr>rkmq_msgs := rest\<rparr>)))"

definition rd_kafka_msgq_first :: "rd_kafka_msgq \<Rightarrow> rd_kafka_msg option" where
  "rd_kafka_msgq_first q = (case rkmq_msgs q of [] \<Rightarrow> None | m # _ \<Rightarrow> Some m)"

definition rd_kafka_msgq_last :: "rd_kafka_msgq \<Rightarrow> rd_kafka_msg option" where
  "rd_kafka_msgq_last q = (if rkmq_msgs q = [] then None else Some (last (rkmq_msgs q)))"

definition rd_kafka_msgq_pop :: "rd_kafka_msgq \<Rightarrow> (rd_kafka_msg option \<times> rd_kafka_msgq) option" where
  "rd_kafka_msgq_pop q =
     (case rd_kafka_msgq_first q of
        None \<Rightarrow> Some (None, q)
      | Some rkm \<Rightarrow> do { (m, q) \<leftarrow> rd_kafka_msgq_deq q 0 True; Some (Some rkm, q) })"

definition rd_kafka_msgq_first_msgid :: "rd_kafka_msgq \<Rightarrow> nat" where
  "rd_kafka_msgq_first_msgid q = (case rd_kafka_msgq_first q of Some rkm \<Rightarrow> msgid rkm | None \<Rightarrow> 0)"

definition RD_CMP :: "nat \<Rightarrow> nat \<Rightarrow> int" where
  "RD_CMP a b = (if a < b then - 1 else if a > b then 1 else 0)"

definition rd_kafka_msg_cmp_msgid :: order_cmp where
  "rd_kafka_msg_cmp_msgid a b = RD_CMP (msgid a) (msgid b)"

definition rd_kafka_msg_cmp_msgid_lifo :: order_cmp where
  "rd_kafka_msg_cmp_msgid_lifo a b = RD_CMP (msgid b) (msgid a)"

definition rd_kafka_msgq_insert :: "rd_kafka_msgq \<Rightarrow> rd_kafka_msg \<Rightarrow> rd_kafka_msgq" where
  "rd_kafka_msgq_insert q rkm =
     \<lparr>rkmq_msgs = rkm # rkmq_msgs q, rkmq_msg_cnt = rkmq_msg_cnt q + 1, rkmq_msg_bytes = rkmq_msg_bytes q + msg_size rkm\<rparr>"

definition rd_kafka_msgq_enq :: "rd_kafka_msgq \<Rightarrow> rd_kafka_msg \<Rightarrow> rd_kafka_msgq" where
  "rd_kafka_msgq_enq q rkm =
     \<lparr>rkmq_msgs = rkmq_msgs q @ [rkm], rkmq_msg_cnt = rkmq_msg_cnt q + 1, rkmq_msg_bytes = rkmq_msg_bytes q + msg_size rkm\<rparr>"

definition rd_kafka_msgq_overlap :: "rd_kafka_msgq \<Rightarrow> rd_kafka_msgq \<Rightarrow> bool" where
  "rd_kafka_msgq_overlap a b =
     (case (rd_kafka_msgq_first a, rd_kafka_msgq_last a, rd_kafka_msgq_first b, rd_kafka_msgq_last b) of
        (Some fa, Some la, Some fb, Some lb) \<Rightarrow> msgid fa \<le> msgid lb \<and> msgid fb \<le> msgid la
      | _ \<Rightarrow> False)"

subsection \<open>Sorted insertion, search and splitting\<close>

fun tailq_insert_sorted :: "('a \<Rightarrow> 'a \<Rightarrow> int) \<Rightarrow> 'a \<Rightarrow> 'a list \<Rightarrow> 'a list" where
  "tailq_insert_sorted cmp elm [] = [elm]"
| "tailq_insert_sorted cmp elm (t # ts) =
     (if cmp elm t < 0 then elm # t # ts
      else if ts = [] then [t, elm]
      else t # tailq_insert_sorted cmp elm ts)"

definition rd_kafka_msgq_enq_sorted0 :: "rd_kafka_msgq \<Rightarrow> rd_kafka_msg \<Rightarrow> order_cmp \<Rightarrow> rd_kafka_msgq" where
  "rd_kafka_msgq_enq_sorted0 q rkm cmp =
     \<lparr>rkmq_msgs = tailq_insert_sorted cmp rkm (rkmq_msgs q), rkmq_msg_cnt = rkmq_msg_cnt q + 1,
      rkmq_msg_bytes = rkmq_msg_bytes q + msg_size rkm\<rparr>"

text \<open>The index in the queue, with the number of messages passed and the bytes counted for them.\<close>

fun find_pos_loop :: "order_cmp \<Rightarrow> rd_kafka_msg \<Rightarrow> rd_kafka_msg list \<Rightarrow> nat \<Rightarrow> int \<Rightarrow> int \<Rightarrow> (nat \<times> int \<times> int) option" where
  "find_pos_loop cmp rkm [] i cnt bytes = None"
| "find_pos_loop cmp rkm (cur # ms) i cnt bytes =
     (if cmp rkm cur < 0 then Some (i, cnt, bytes)
      else find_pos_loop cmp rkm ms (i + 1) (cnt + 1) (bytes + msg_size rkm))"

definition rd_kafka_msgq_find_pos ::
    "rd_kafka_msgq \<Rightarrow> nat option \<Rightarrow> rd_kafka_msg \<Rightarrow> order_cmp \<Rightarrow> (nat \<times> int \<times> int) option" where
  "rd_kafka_msgq_find_pos q start_pos rkm cmp =
     (let i = (case start_pos of Some i \<Rightarrow> i | None \<Rightarrow> 0) in find_pos_loop cmp rkm (drop i (rkmq_msgs q)) i 0 0)"

definition rd_kafka_msgq_split :: "rd_kafka_msgq \<Rightarrow> nat \<Rightarrow> int \<Rightarrow> int \<Rightarrow> (rd_kafka_msgq \<times> rd_kafka_msgq) option" where
  "rd_kafka_msgq_split leftq first_right cnt bytes =
     (if first_right = 0 then None
      else Some
        (\<lparr>rkmq_msgs = take first_right (rkmq_msgs leftq), rkmq_msg_cnt = cnt, rkmq_msg_bytes = bytes\<rparr>,
         \<lparr>rkmq_msgs = drop first_right (rkmq_msgs leftq), rkmq_msg_cnt = rkmq_msg_cnt leftq - cnt,
          rkmq_msg_bytes = rkmq_msg_bytes leftq - bytes\<rparr>))"

subsection \<open>Merging\<close>

definition rd_kafka_msgq_insert_msgq_before ::
    "rd_kafka_msgq \<Rightarrow> nat option \<Rightarrow> rd_kafka_msgq \<Rightarrow> order_cmp \<Rightarrow> (rd_kafka_msgq \<times> rd_kafka_msgq) option" where
  "rd_kafka_msgq_insert_msgq_before destq insert_before srcq cmp =
     (case insert_before of
        None \<Rightarrow> Some (rd_kafka_msgq_concat destq srcq)
      | Some i \<Rightarrow> do {
          slast \<leftarrow> rd_kafka_msgq_last srcq;
          let before = rkmq_msgs destq ! i;
          (srcq, tmpq) \<leftarrow>
            (if cmp slast before > 0 then do {
               (new_sfirst, cnt, bytes) \<leftarrow> rd_kafka_msgq_find_pos srcq None before cmp;
               rd_kafka_msgq_split srcq new_sfirst cnt bytes }
             else Some (srcq, rd_kafka_msgq_init));
          Some
            (\<lparr>rkmq_msgs = take i (rkmq_msgs destq) @ rkmq_msgs srcq @ drop i (rkmq_msgs destq),
              rkmq_msg_cnt = rkmq_msg_cnt destq + rkmq_msg_cnt srcq,
              rkmq_msg_bytes = rkmq_msg_bytes destq + rkmq_msg_bytes srcq\<rparr>,
             fst (rd_kafka_msgq_move tmpq)) })"

text \<open>
  A pointer to a message stays valid when messages are put in front of it: its index grows by
  their number.
\<close>

partial_function (option) insert_msgq_loop ::
    "order_cmp \<Rightarrow> nat option \<Rightarrow> rd_kafka_msgq \<Rightarrow> rd_kafka_msgq \<Rightarrow> (rd_kafka_msgq \<times> rd_kafka_msgq) option" where
  "insert_msgq_loop cmp start_pos destq srcq =
     (case rd_kafka_msgq_first srcq of
        None \<Rightarrow> Some (destq, srcq)
      | Some sfirst \<Rightarrow> do {
          let insert_before = map_option fst (rd_kafka_msgq_find_pos destq start_pos sfirst cmp);
          (destq', srcq') \<leftarrow> rd_kafka_msgq_insert_msgq_before destq insert_before srcq cmp;
          insert_msgq_loop cmp
            (map_option (\<lambda>i. i + (length (rkmq_msgs destq') - length (rkmq_msgs destq))) insert_before) destq' srcq' })"

definition rd_kafka_msgq_insert_msgq ::
    "rd_kafka_msgq \<Rightarrow> rd_kafka_msgq \<Rightarrow> order_cmp \<Rightarrow> (rd_kafka_msgq \<times> rd_kafka_msgq) option" where
  "rd_kafka_msgq_insert_msgq destq srcq cmp =
     (case (rd_kafka_msgq_first srcq, rd_kafka_msgq_last destq) of
        (None, _) \<Rightarrow> Some (destq, srcq)
      | (Some sfirst, None) \<Rightarrow> Some (rd_kafka_msgq_move srcq)
      | (Some sfirst, Some dlast) \<Rightarrow>
          if cmp dlast sfirst < 0 then Some (rd_kafka_msgq_concat destq srcq)
          else do {
            (destq, srcq) \<leftarrow> insert_msgq_loop cmp None destq srcq;
            if rkmq_msgs srcq \<noteq> [] then None else Some (destq, srcq) })"

subsection \<open>The remaining operations\<close>

text \<open>The loops over a queue that take messages out as they go: \<open>i\<close> is the message looked at.\<close>

definition retry_msg :: "int \<Rightarrow> int \<Rightarrow> rd_kafka_msg_status_t \<Rightarrow> rd_kafka_msg \<Rightarrow> rd_kafka_msg" where
  "retry_msg incr_retry backoff status rkm =
     (let rkm = rkm\<lparr>ts_backoff := backoff, retries := retries rkm + incr_retry\<rparr> in
      if \<not> (status = RD_KAFKA_MSG_STATUS_NOT_PERSISTED \<and> rkm_status rkm \<noteq> RD_KAFKA_MSG_STATUS_NOT_PERSISTED)
      then rkm\<lparr>rkm_status := status\<rparr> else rkm)"

fun retry_loop ::
    "int \<Rightarrow> int \<Rightarrow> int \<Rightarrow> rd_kafka_msg_status_t \<Rightarrow> nat \<Rightarrow> nat \<Rightarrow> rd_kafka_msgq \<Rightarrow> rd_kafka_msgq \<Rightarrow>
      (rd_kafka_msgq \<times> rd_kafka_msgq) option" where
  "retry_loop incr_retry max_retries backoff status 0 i srcq retryable = Some (srcq, retryable)"
| "retry_loop incr_retry max_retries backoff status (Suc n) i srcq retryable =
     (if retries (rkmq_msgs srcq ! i) + incr_retry > max_retries
      then retry_loop incr_retry max_retries backoff status n (i + 1) srcq retryable
      else do {
        (rkm, srcq) \<leftarrow> rd_kafka_msgq_deq srcq i True;
        retry_loop incr_retry max_retries backoff status n i srcq
          (rd_kafka_msgq_enq retryable (retry_msg incr_retry backoff status rkm)) })"

definition rd_kafka_retry_msgq ::
    "rd_kafka_msgq \<Rightarrow> rd_kafka_msgq \<Rightarrow> int \<Rightarrow> int \<Rightarrow> int \<Rightarrow> rd_kafka_msg_status_t \<Rightarrow> order_cmp \<Rightarrow>
      (int \<times> rd_kafka_msgq \<times> rd_kafka_msgq) option" where
  "rd_kafka_retry_msgq destq srcq incr_retry max_retries backoff status cmp = do {
     (srcq, retryable) \<leftarrow> retry_loop incr_retry max_retries backoff status (length (rkmq_msgs srcq)) 0 srcq rd_kafka_msgq_init;
     if rkmq_msgs retryable = [] then Some (0, destq, srcq)
     else do {
       (destq, retryable) \<leftarrow> rd_kafka_msgq_insert_msgq destq retryable cmp;
       Some (1, destq, srcq) } }"

fun set_metadata_loop :: "int \<Rightarrow> int \<Rightarrow> rd_kafka_msg_status_t \<Rightarrow> rd_kafka_msg list \<Rightarrow> rd_kafka_msg list" where
  "set_metadata_loop base_offset timestamp status [] = []"
| "set_metadata_loop base_offset timestamp status (rkm # ms) =
     (let rkm = rkm\<lparr>rkm_offset := base_offset\<rparr>;
          rkm = (if timestamp \<noteq> - 1 then rkm\<lparr>rkm_timestamp := timestamp, rkm_log_append := True\<rparr> else rkm);
          rkm = (if status = RD_KAFKA_MSG_STATUS_NOT_PERSISTED \<and> rkm_status rkm \<noteq> RD_KAFKA_MSG_STATUS_NOT_PERSISTED
                 then rkm else rkm\<lparr>rkm_status := status\<rparr>) in
      rkm # set_metadata_loop (base_offset + 1) timestamp status ms)"

definition rd_kafka_msgq_set_metadata :: "rd_kafka_msgq \<Rightarrow> int \<Rightarrow> int \<Rightarrow> rd_kafka_msg_status_t \<Rightarrow> rd_kafka_msgq" where
  "rd_kafka_msgq_set_metadata q base_offset timestamp status =
     q\<lparr>rkmq_msgs := set_metadata_loop base_offset timestamp status (rkmq_msgs q)\<rparr>"

fun move_acked_loop ::
    "nat \<Rightarrow> rd_kafka_msg_status_t \<Rightarrow> nat \<Rightarrow> rd_kafka_msgq \<Rightarrow> rd_kafka_msgq \<Rightarrow> (rd_kafka_msgq \<times> rd_kafka_msgq) option" where
  "move_acked_loop last_msgid status 0 dest src = Some (dest, src)"
| "move_acked_loop last_msgid status (Suc n) dest src =
     (case rd_kafka_msgq_first src of
        None \<Rightarrow> Some (dest, src)
      | Some rkm \<Rightarrow>
          if msgid rkm \<le> last_msgid then do {
            (rkm, src) \<leftarrow> rd_kafka_msgq_deq src 0 True;
            move_acked_loop last_msgid status n (rd_kafka_msgq_enq dest (rkm\<lparr>rkm_status := status\<rparr>)) src }
          else Some (dest, src))"

text \<open>Every round takes a message out of \<open>src\<close>: there are at most as many as it has messages.\<close>

definition rd_kafka_msgq_move_acked ::
    "rd_kafka_msgq \<Rightarrow> rd_kafka_msgq \<Rightarrow> nat \<Rightarrow> rd_kafka_msg_status_t \<Rightarrow> (rd_kafka_msgq \<times> rd_kafka_msgq) option" where
  "rd_kafka_msgq_move_acked dest src last_msgid status =
     move_acked_loop last_msgid status (length (rkmq_msgs src)) dest src"

fun age_scan_loop ::
    "int \<Rightarrow> nat \<Rightarrow> rd_kafka_msgq \<Rightarrow> rd_kafka_msgq \<Rightarrow> (int \<times> rd_kafka_msgq \<times> rd_kafka_msgq) option" where
  "age_scan_loop now 0 q timedout = Some (0, q, timedout)"
| "age_scan_loop now (Suc n) q timedout =
     (case rd_kafka_msgq_first q of
        None \<Rightarrow> Some (0, q, timedout)
      | Some rkm \<Rightarrow>
          if ts_timeout rkm > now then Some (ts_timeout rkm, q, timedout)
          else do {
            (rkm, q) \<leftarrow> rd_kafka_msgq_deq q 0 True;
            age_scan_loop now n q (rd_kafka_msgq_enq timedout rkm) })"

text \<open>The number timed out, the next time out, and the two queues.\<close>

definition rd_kafka_msgq_age_scan ::
    "rd_kafka_msgq \<Rightarrow> rd_kafka_msgq \<Rightarrow> int \<Rightarrow> (int \<times> int \<times> rd_kafka_msgq \<times> rd_kafka_msgq) option" where
  "rd_kafka_msgq_age_scan q timedout now = do {
     let cnt = rkmq_msg_cnt timedout;
     (abs_next_timeout, q, timedout) \<leftarrow> age_scan_loop now (length (rkmq_msgs q)) q timedout;
     Some (rkmq_msg_cnt timedout - cnt, abs_next_timeout, q, timedout) }"

subsection \<open>The counters\<close>

abbreviation sizes :: "rd_kafka_msg list \<Rightarrow> int" where "sizes ms \<equiv> sum_list (map msg_size ms)"

definition msgq_ok :: "rd_kafka_msgq \<Rightarrow> bool" where
  "msgq_ok q \<longleftrightarrow> rkmq_msg_cnt q = int (length (rkmq_msgs q)) \<and> rkmq_msg_bytes q = sizes (rkmq_msgs q)"

lemma msg_size_nonneg [simp]: "0 \<le> msg_size m"
  by (simp add: msg_size_def)

lemma sizes_nonneg [simp]: "0 \<le> sizes ms"
  by (induction ms) simp_all

lemma msgq_ok_eq: "msgq_ok q \<longleftrightarrow> q = \<lparr>rkmq_msgs = rkmq_msgs q, rkmq_msg_cnt = int (length (rkmq_msgs q)), rkmq_msg_bytes = sizes (rkmq_msgs q)\<rparr>"
  by (cases q) (simp add: msgq_ok_def)

lemma deq_ok:
  assumes "msgq_ok q" "rkmq_msgs q = xs @ m # ys"
  shows "\<exists>q'. rd_kafka_msgq_deq q (length xs) True = Some (m, q') \<and> rkmq_msgs q' = xs @ ys \<and> msgq_ok q'"
  using assms by (simp add: rd_kafka_msgq_deq_def msgq_ok_def Let_def)

lemma enq_ok: "msgq_ok q \<Longrightarrow> msgq_ok (rd_kafka_msgq_enq q m) \<and> rkmq_msgs (rd_kafka_msgq_enq q m) = rkmq_msgs q @ [m]"
  by (simp add: rd_kafka_msgq_enq_def msgq_ok_def)

lemma init_ok [simp]: "msgq_ok rd_kafka_msgq_init" "rkmq_msgs rd_kafka_msgq_init = []"
  by (simp_all add: rd_kafka_msgq_init_def msgq_ok_def)

lemma retry_loop_ok:
  assumes "msgq_ok q" "msgq_ok r" "rkmq_msgs q = xs @ ys"
  shows "\<exists>q' r'. retry_loop incr mx backoff status (length ys) (length xs) q r = Some (q', r') \<and> msgq_ok q' \<and> msgq_ok r' \<and>
    rkmq_msgs q' = xs @ filter (\<lambda>m. retries m + incr > mx) ys \<and>
    rkmq_msgs r' = rkmq_msgs r @ map (retry_msg incr backoff status) (filter (\<lambda>m. retries m + incr \<le> mx) ys)"
  using assms
proof (induction ys arbitrary: q r xs)
  case (Cons m ys)
  show ?case
  proof (cases "retries m + incr > mx")
    case True
    then show ?thesis using Cons.IH [of q r "xs @ [m]"] Cons.prems by simp
  next
    case False
    obtain q1 where q1: "rd_kafka_msgq_deq q (length xs) True = Some (m, q1)" "rkmq_msgs q1 = xs @ ys" "msgq_ok q1"
      using deq_ok [OF Cons.prems(1,3)] by blast
    show ?thesis
      using Cons.IH [OF q1(3) conjunct1 [OF enq_ok [OF Cons.prems(2), of "retry_msg incr backoff status m"]] q1(2)] q1(1)
        enq_ok [OF Cons.prems(2), of "retry_msg incr backoff status m"] False Cons.prems(3)
      by simp
  qed
qed simp

lemma move_acked_loop_ok:
  assumes "msgq_ok d" "msgq_ok s" "length (rkmq_msgs s) \<le> n"
  shows "\<exists>d' s'. move_acked_loop last_id status n d s = Some (d', s') \<and> msgq_ok d' \<and> msgq_ok s' \<and>
    rkmq_msgs d' = rkmq_msgs d @ map (\<lambda>m. m\<lparr>rkm_status := status\<rparr>) (takeWhile (\<lambda>m. msgid m \<le> last_id) (rkmq_msgs s)) \<and>
    rkmq_msgs s' = dropWhile (\<lambda>m. msgid m \<le> last_id) (rkmq_msgs s)"
  using assms
proof (induction n arbitrary: d s)
  case (Suc n)
  show ?case
  proof (cases "rkmq_msgs s")
    case (Cons m ms)
    obtain s1 where s1: "rd_kafka_msgq_deq s 0 True = Some (m, s1)" "rkmq_msgs s1 = ms" "msgq_ok s1"
      using deq_ok [OF Suc.prems(2), of "[]" m ms] Cons by auto
    note e = enq_ok [OF Suc.prems(1), of "m\<lparr>rkm_status := status\<rparr>"]
    from Suc.IH [OF conjunct1 [OF e] s1(3)] Suc.prems Cons s1 e show ?thesis
      by (cases "msgid m \<le> last_id") (auto simp: rd_kafka_msgq_first_def)
  qed (use Suc.prems in \<open>simp add: rd_kafka_msgq_first_def\<close>)
qed simp

lemma move_acked_ok:
  assumes "msgq_ok d" "msgq_ok s"
  shows "\<exists>d' s'. rd_kafka_msgq_move_acked d s last_id status = Some (d', s') \<and> msgq_ok d' \<and> msgq_ok s' \<and>
    rkmq_msgs d' = rkmq_msgs d @ map (\<lambda>m. m\<lparr>rkm_status := status\<rparr>) (takeWhile (\<lambda>m. msgid m \<le> last_id) (rkmq_msgs s)) \<and>
    rkmq_msgs s' = dropWhile (\<lambda>m. msgid m \<le> last_id) (rkmq_msgs s)"
  unfolding rd_kafka_msgq_move_acked_def by (rule move_acked_loop_ok [OF assms le_refl])

lemma age_scan_loop_ok:
  assumes "msgq_ok q" "msgq_ok t" "length (rkmq_msgs q) \<le> n"
  shows "\<exists>nxt q' t'. age_scan_loop now n q t = Some (nxt, q', t') \<and> msgq_ok q' \<and> msgq_ok t' \<and>
    rkmq_msgs t' = rkmq_msgs t @ takeWhile (\<lambda>m. ts_timeout m \<le> now) (rkmq_msgs q) \<and>
    rkmq_msgs q' = dropWhile (\<lambda>m. ts_timeout m \<le> now) (rkmq_msgs q) \<and>
    nxt = (case rkmq_msgs q' of [] \<Rightarrow> 0 | m # _ \<Rightarrow> ts_timeout m)"
  using assms
proof (induction n arbitrary: q t)
  case (Suc n)
  show ?case
  proof (cases "rkmq_msgs q")
    case (Cons m ms)
    obtain q1 where q1: "rd_kafka_msgq_deq q 0 True = Some (m, q1)" "rkmq_msgs q1 = ms" "msgq_ok q1"
      using deq_ok [OF Suc.prems(1), of "[]" m ms] Cons by auto
    note e = enq_ok [OF Suc.prems(2), of m]
    from Suc.IH [OF q1(3) conjunct1 [OF e]] Suc.prems Cons q1 e show ?thesis
      by (cases "ts_timeout m \<le> now") (auto simp: rd_kafka_msgq_first_def)
  qed (use Suc.prems in \<open>simp add: rd_kafka_msgq_first_def\<close>)
qed simp

lemma age_scan_ok:
  assumes "msgq_ok q" "msgq_ok t"
  shows "\<exists>nxt q' t'. rd_kafka_msgq_age_scan q t now =
      Some (int (length (takeWhile (\<lambda>m. ts_timeout m \<le> now) (rkmq_msgs q))), nxt, q', t') \<and> msgq_ok q' \<and> msgq_ok t' \<and>
    rkmq_msgs t' = rkmq_msgs t @ takeWhile (\<lambda>m. ts_timeout m \<le> now) (rkmq_msgs q) \<and>
    rkmq_msgs q' = dropWhile (\<lambda>m. ts_timeout m \<le> now) (rkmq_msgs q)"
  using age_scan_loop_ok [OF assms le_refl, of now] assms(2) by (auto simp: rd_kafka_msgq_age_scan_def msgq_ok_def)

subsection \<open>Merging keeps the order\<close>

definition msgs_sorted :: "order_cmp \<Rightarrow> rd_kafka_msg list \<Rightarrow> bool" where
  "msgs_sorted cmp ms \<longleftrightarrow> sorted_wrt (\<lambda>a b. cmp a b \<le> 0) ms"

lemma find_pos_loop_eq:
  "find_pos_loop cmp rkm ms i cnt bytes =
     (let k = length (takeWhile (\<lambda>m. \<not> cmp rkm m < 0) ms) in
      if k = length ms then None else Some (i + k, cnt + int k, bytes + int k * msg_size rkm))"
  by (induction ms arbitrary: i cnt bytes) (auto simp: Let_def algebra_simps)

lemma sorted_wrt_last: "sorted_wrt P xs \<Longrightarrow> x \<in> set xs \<Longrightarrow> x = last xs \<or> P x (last xs)"
  by (induction xs) auto

text \<open>Two queues in the middle of a merge: the bytes are right only in sum.\<close>

definition merging :: "rd_kafka_msgq \<Rightarrow> rd_kafka_msgq \<Rightarrow> bool" where
  "merging d s \<longleftrightarrow> rkmq_msg_cnt d = int (length (rkmq_msgs d)) \<and> rkmq_msg_cnt s = int (length (rkmq_msgs s)) \<and>
     rkmq_msg_bytes d + rkmq_msg_bytes s = sizes (rkmq_msgs d) + sizes (rkmq_msgs s) \<and>
     (rkmq_msgs s = [] \<longrightarrow> rkmq_msg_bytes s = 0)"

lemma insert_loop_init: "insert_msgq_loop cmp st d rd_kafka_msgq_init = Some (d, rd_kafka_msgq_init)"
  by (subst insert_msgq_loop.simps) (simp add: rd_kafka_msgq_first_def)

locale msg_order =
  fixes cmp :: order_cmp
  assumes cmp_swap: "cmp a b < 0 \<longleftrightarrow> cmp b a > 0"
    and cmp_trans: "cmp a b \<le> 0 \<Longrightarrow> cmp b c \<le> 0 \<Longrightarrow> cmp a c \<le> 0"
begin

lemma cmp_not_less: "\<not> cmp a b < 0 \<longleftrightarrow> cmp b a \<le> 0"
  using cmp_swap [of a b] by linarith

lemma tailq_insert_sorted_ok:
  "msgs_sorted cmp ms \<Longrightarrow> msgs_sorted cmp (tailq_insert_sorted cmp m ms) \<and> mset (tailq_insert_sorted cmp m ms) = add_mset m (mset ms)"
proof (induction ms)
  case (Cons t ts)
  have eq: "tailq_insert_sorted cmp m (t # ts) = (if cmp m t < 0 then m # t # ts else t # tailq_insert_sorted cmp m ts)"
    by (cases ts) simp_all
  have IH: "msgs_sorted cmp (tailq_insert_sorted cmp m ts)" "mset (tailq_insert_sorted cmp m ts) = add_mset m (mset ts)"
    using Cons by (simp_all add: msgs_sorted_def)
  have set: "set (tailq_insert_sorted cmp m ts) = insert m (set ts)"
    using IH(2) by (metis set_mset_add_mset_insert set_mset_mset)
  show ?case
  proof (cases "cmp m t < 0")
    case True
    then show ?thesis using Cons.prems cmp_trans [of m t] by (auto simp: eq msgs_sorted_def)
  next
    case False
    then show ?thesis using Cons.prems IH cmp_not_less [of m t] by (auto simp: eq msgs_sorted_def set)
  qed
qed (simp add: msgs_sorted_def)

text \<open>The part of the source that goes before a message of the destination.\<close>

lemma insert_before_ok:
  assumes "merging d s" "rkmq_msgs d = P @ x # Q" "rkmq_msgs s = a # S" "msgs_sorted cmp (a # S)" "cmp a x < 0"
  shows "\<exists>L R d' s'. a # S = L @ R \<and> L \<noteq> [] \<and> (\<forall>l\<in>set L. cmp l x \<le> 0) \<and> (\<forall>r\<in>set R. cmp x r \<le> 0) \<and>
    rd_kafka_msgq_insert_msgq_before d (Some (length P)) s cmp = Some (d', s') \<and>
    rkmq_msgs d' = P @ L @ x # Q \<and> rkmq_msgs s' = R \<and> merging d' s'"
proof (cases "cmp (last (a # S)) x > 0")
  case True
  define L where "L = takeWhile (\<lambda>m. \<not> cmp x m < 0) (a # S)"
  define R where "R = dropWhile (\<lambda>m. \<not> cmp x m < 0) (a # S)"
  have LR: "a # S = L @ R" by (simp add: L_def R_def)
  have a: "\<not> cmp x a < 0" using assms(5) cmp_not_less [of x a] by linarith
  then have L: "L \<noteq> []" by (simp add: L_def)
  have "cmp x (last (a # S)) < 0" using True cmp_swap by blast
  then have "R \<noteq> []" unfolding R_def by (metis dropWhile_eq_Nil_conv last_in_set list.distinct(1))
  then obtain r R' where R: "R = r # R'" by (cases R) auto
  have r: "cmp x r < 0" using R unfolding R_def by (metis dropWhile_eq_Cons_conv)
  have srt: "\<forall>r'\<in>set R'. cmp r r' \<le> 0" using assms(4) unfolding LR R by (simp add: msgs_sorted_def sorted_wrt_append)
  have Rx: "\<forall>r\<in>set R. cmp x r \<le> 0" using r srt cmp_trans [of x r] unfolding R by auto
  have Lx: "\<forall>l\<in>set L. cmp l x \<le> 0" unfolding L_def using cmp_not_less by (metis set_takeWhileD)
  have len: "length L \<noteq> length (a # S)" using LR R by simp
  have fp: "rd_kafka_msgq_find_pos s None x cmp = Some (length L, int (length L), int (length L) * msg_size x)"
    using len a by (simp add: rd_kafka_msgq_find_pos_def find_pos_loop_eq assms(3) L_def Let_def)
  have td: "take (length L) (a # S) = L" "drop (length L) (a # S) = R" unfolding LR by simp_all
  have bef: "rd_kafka_msgq_insert_msgq_before d (Some (length P)) s cmp = Some
    (\<lparr>rkmq_msgs = P @ L @ x # Q, rkmq_msg_cnt = rkmq_msg_cnt d + int (length L),
       rkmq_msg_bytes = rkmq_msg_bytes d + int (length L) * msg_size x\<rparr>,
     \<lparr>rkmq_msgs = R, rkmq_msg_cnt = rkmq_msg_cnt s - int (length L),
       rkmq_msg_bytes = rkmq_msg_bytes s - int (length L) * msg_size x\<rparr>)"
    using True L td by (simp add: rd_kafka_msgq_insert_msgq_before_def rd_kafka_msgq_last_def assms(2,3) fp
        rd_kafka_msgq_split_def rd_kafka_msgq_move_def del: last.simps)
  have "int (length (a # S)) = int (length L) + int (length R)" "sizes (a # S) = sizes L + sizes R"
    unfolding LR by simp_all
  then show ?thesis
    using bef LR L Lx Rx R assms(1) unfolding merging_def assms(2,3)
    by (intro exI [of _ L] exI [of _ R]) auto
next
  case False
  have "\<forall>l\<in>set (a # S). cmp l x \<le> 0"
  proof
    fix l assume "l \<in> set (a # S)"
    then have "l = last (a # S) \<or> cmp l (last (a # S)) \<le> 0"
      using assms(4) unfolding msgs_sorted_def by (rule sorted_wrt_last [rotated])
    then show "cmp l x \<le> 0" using False cmp_trans [of l "last (a # S)" x] by auto
  qed
  then show ?thesis
    using False assms(1) unfolding merging_def assms(2,3)
    by (intro exI [of _ "a # S"] exI [of _ "[]"])
      (simp add: rd_kafka_msgq_insert_msgq_before_def rd_kafka_msgq_last_def assms(2,3) rd_kafka_msgq_move_def
        rd_kafka_msgq_init_def del: last.simps)
qed

lemma chunk_sorted:
  assumes "msgs_sorted cmp (A @ x # Q)" "msgs_sorted cmp (L @ R)" "\<forall>y\<in>set A. \<forall>b\<in>set (L @ R). cmp y b \<le> 0"
    "\<forall>l\<in>set L. cmp l x \<le> 0"
  shows "msgs_sorted cmp ((A @ L) @ x # Q)" "\<forall>y\<in>set (A @ L). \<forall>r\<in>set R. cmp y r \<le> 0"
proof -
  have "\<forall>l\<in>set L. \<forall>q\<in>set (x # Q). cmp l q \<le> 0"
    using assms(1,4) cmp_trans [of _ x] by (auto simp: msgs_sorted_def sorted_wrt_append)
  then show "msgs_sorted cmp ((A @ L) @ x # Q)"
    using assms(1-3) by (auto simp: msgs_sorted_def sorted_wrt_append)
  show "\<forall>y\<in>set (A @ L). \<forall>r\<in>set R. cmp y r \<le> 0"
    using assms(2,3) by (auto simp: msgs_sorted_def sorted_wrt_append)
qed

lemma insert_loop_ok:
  assumes "merging d s" "rkmq_msgs d = A @ B" "start = Some (length A) \<or> start = None \<and> A = []"
    "msgs_sorted cmp (A @ B)" "msgs_sorted cmp (rkmq_msgs s)" "\<forall>a\<in>set A. \<forall>b\<in>set (rkmq_msgs s). cmp a b \<le> 0"
  shows "\<exists>d'. insert_msgq_loop cmp start d s = Some (d', rd_kafka_msgq_init) \<and> msgq_ok d' \<and>
    msgs_sorted cmp (rkmq_msgs d') \<and> mset (rkmq_msgs d') = mset (A @ B) + mset (rkmq_msgs s)"
  using assms
proof (induction "length (rkmq_msgs s)" arbitrary: d s A B start rule: less_induct)
  case less
  show ?case
  proof (cases "rkmq_msgs s")
    case Nil
    then have "s = rd_kafka_msgq_init" "msgq_ok d"
      using less.prems(1) by (auto simp: merging_def msgq_ok_def rd_kafka_msgq_init_def intro: rd_kafka_msgq.equality)
    then show ?thesis
      using less.prems(2,4) by (subst insert_msgq_loop.simps) (simp add: rd_kafka_msgq_first_def)
  next
    case (Cons a S)
    define B1 where "B1 = takeWhile (\<lambda>m. \<not> cmp a m < 0) B"
    have B1: "\<forall>b\<in>set B1. cmp b a \<le> 0" unfolding B1_def using cmp_not_less by (metis set_takeWhileD)
    have aS: "\<forall>b\<in>set S. cmp a b \<le> 0" using less.prems(5) unfolding Cons by (simp add: msgs_sorted_def)
    have drp: "drop (length A) (rkmq_msgs d) = B" "(case start of Some i \<Rightarrow> i | None \<Rightarrow> 0) = length A"
      using less.prems(2,3) by auto
    have low: "\<forall>y\<in>set (A @ B1). \<forall>b\<in>set (a # S). cmp y b \<le> 0"
      using B1 aS less.prems(6) cmp_trans [of _ a] unfolding Cons by auto
    have full: "length B1 = length B \<longleftrightarrow> B1 = B"
      unfolding B1_def by (metis order_refl takeWhile_eq_take take_all_iff)
    have pos: "map_option fst (rd_kafka_msgq_find_pos d start a cmp) = (if B1 = B then None else Some (length (A @ B1)))"
      unfolding rd_kafka_msgq_find_pos_def drp(2) Let_def unfolding drp(1) find_pos_loop_eq Let_def B1_def [symmetric]
      by (simp add: full)
    show ?thesis
    proof (cases "B1 = B")
      case True
      then have "msgs_sorted cmp ((A @ B) @ a # S)"
        using less.prems(4,5) low unfolding Cons msgs_sorted_def by (subst sorted_wrt_append) blast
      moreover have "insert_msgq_loop cmp start d s = Some (rd_kafka_msgq_concat d s)"
        using pos True
        by (subst insert_msgq_loop.simps)
          (simp add: rd_kafka_msgq_first_def Cons rd_kafka_msgq_insert_msgq_before_def rd_kafka_msgq_concat_def insert_loop_init)
      ultimately show ?thesis
        using less.prems(1,2) Cons by (simp add: rd_kafka_msgq_concat_def msgq_ok_def merging_def)
    next
      case False
      have dw: "B = B1 @ dropWhile (\<lambda>m. \<not> cmp a m < 0) B" by (simp add: B1_def)
      then obtain x Q where xQ: "dropWhile (\<lambda>m. \<not> cmp a m < 0) B = x # Q"
        using False by (cases "dropWhile (\<lambda>m. \<not> cmp a m < 0) B") auto
      then have B: "B = B1 @ x # Q" "cmp a x < 0"
        using dw by (simp, metis dropWhile_eq_Cons_conv)
      from insert_before_ok [OF less.prems(1) _ Cons less.prems(5) [unfolded Cons] B(2), of "A @ B1" Q] less.prems(2) B(1)
      obtain L R d' s' where st: "a # S = L @ R" "L \<noteq> []" "\<forall>l\<in>set L. cmp l x \<le> 0" "\<forall>r\<in>set R. cmp x r \<le> 0"
        "rd_kafka_msgq_insert_msgq_before d (Some (length (A @ B1))) s cmp = Some (d', s')"
        "rkmq_msgs d' = (A @ B1) @ L @ x # Q" "rkmq_msgs s' = R" "merging d' s'" by auto
      have "msgs_sorted cmp ((A @ B1) @ x # Q)" using less.prems(4) unfolding B(1) by simp
      note chunk = chunk_sorted [OF this less.prems(5) [unfolded Cons st(1)] low [unfolded st(1)] st(3)]
      have sR: "msgs_sorted cmp R" using less.prems(5) unfolding Cons st(1) msgs_sorted_def sorted_wrt_append by blast
      have "length (rkmq_msgs s') < length (rkmq_msgs s)"
        using st(2) unfolding Cons st(1,7) by simp
      moreover have "rkmq_msgs d' = ((A @ B1) @ L) @ x # Q" "msgs_sorted cmp (rkmq_msgs s')" using st(6,7) sR by simp_all
      ultimately obtain d2 where d2: "insert_msgq_loop cmp (Some (length ((A @ B1) @ L))) d' s' = Some (d2, rd_kafka_msgq_init)"
        "msgq_ok d2" "msgs_sorted cmp (rkmq_msgs d2)" "mset (rkmq_msgs d2) = mset (((A @ B1) @ L) @ x # Q) + mset R"
        using less.hyps [OF _ st(8) _ disjI1 [OF refl] chunk(1) _ chunk(2) [folded st(7)]] unfolding st(7) by blast
      have "length (rkmq_msgs d') - length (rkmq_msgs d) = length L" using st(6) less.prems(2) B(1) by simp
      then have "insert_msgq_loop cmp start d s = Some (d2, rd_kafka_msgq_init)"
        using False st(5) d2(1)
        by (subst insert_msgq_loop.simps) (simp add: rd_kafka_msgq_first_def Cons pos Let_def add.assoc)
      moreover have "mset (rkmq_msgs s) = mset L + mset R" unfolding Cons st(1) by simp
      moreover have "mset (A @ B) = mset (A @ B1 @ x # Q)" by (subst B(1)) (rule refl)
      ultimately show ?thesis using d2(2,3,4) by simp
    qed
  qed
qed

lemma insert_msgq_ok:
  assumes "msgq_ok d" "msgq_ok s" "msgs_sorted cmp (rkmq_msgs d)" "msgs_sorted cmp (rkmq_msgs s)"
  shows "\<exists>d'. rd_kafka_msgq_insert_msgq d s cmp = Some (d', rd_kafka_msgq_init) \<and> msgq_ok d' \<and>
    msgs_sorted cmp (rkmq_msgs d') \<and> mset (rkmq_msgs d') = mset (rkmq_msgs d) + mset (rkmq_msgs s)"
proof -
  have mg: "merging d s" using assms(1,2) by (auto simp: merging_def msgq_ok_def)
  consider "rkmq_msgs s = []" | "rkmq_msgs s \<noteq> []" "rkmq_msgs d = []"
    | "rkmq_msgs s \<noteq> []" "rkmq_msgs d \<noteq> []" "cmp (last (rkmq_msgs d)) (hd (rkmq_msgs s)) < 0"
    | "rkmq_msgs s \<noteq> []" "rkmq_msgs d \<noteq> []" "\<not> cmp (last (rkmq_msgs d)) (hd (rkmq_msgs s)) < 0" by blast
  then show ?thesis
  proof cases
    case 1
    then have "s = rd_kafka_msgq_init" using assms(2) msgq_ok_eq [of s] by (simp add: rd_kafka_msgq_init_def)
    then show ?thesis using assms(1,3) 1 by (simp add: rd_kafka_msgq_insert_msgq_def rd_kafka_msgq_first_def)
  next
    case 2
    then show ?thesis
      using assms(2,4)
      by (auto simp: rd_kafka_msgq_insert_msgq_def rd_kafka_msgq_first_def rd_kafka_msgq_last_def rd_kafka_msgq_move_def
          split: list.split)
  next
    case 3
    obtain a S where s: "rkmq_msgs s = a # S" using 3(1) by (cases "rkmq_msgs s") auto
    have "\<forall>x\<in>set (rkmq_msgs d). cmp x a \<le> 0"
      using 3(3) s sorted_wrt_last [OF assms(3) [unfolded msgs_sorted_def]] cmp_trans
      by (metis less_imp_le list.sel(1))
    then have "msgs_sorted cmp (rkmq_msgs d @ a # S)"
      using assms(3,4) cmp_trans unfolding s msgs_sorted_def sorted_wrt_append by (metis set_ConsD sorted_wrt.simps(2))
    then show ?thesis
      using 3 assms(1,2) s
      by (simp add: rd_kafka_msgq_insert_msgq_def rd_kafka_msgq_first_def rd_kafka_msgq_last_def rd_kafka_msgq_concat_def msgq_ok_def)
  next
    case 4
    then obtain a S where s: "rkmq_msgs s = a # S" by (cases "rkmq_msgs s") auto
    show ?thesis
      using insert_loop_ok [OF mg, of "[]" "rkmq_msgs d" None] assms(3,4) 4 s
      by (auto simp: rd_kafka_msgq_insert_msgq_def rd_kafka_msgq_first_def rd_kafka_msgq_last_def)
  qed
qed

end

interpretation fifo: msg_order rd_kafka_msg_cmp_msgid
  by unfold_locales (auto simp: rd_kafka_msg_cmp_msgid_def RD_CMP_def split: if_splits)

interpretation lifo: msg_order rd_kafka_msg_cmp_msgid_lifo
  by unfold_locales (auto simp: rd_kafka_msg_cmp_msgid_lifo_def RD_CMP_def split: if_splits)

definition msg_orders :: "order_cmp set" where
  "msg_orders = {rd_kafka_msg_cmp_msgid, rd_kafka_msg_cmp_msgid_lifo}"

text \<open>
  C9: Inserting a sorted queue into a sorted queue, in either of the two orders and however the
  queues overlap, passes every assertion and returns: the destination is sorted and holds the
  messages of both, its counters of messages and bytes are exact, and the source is empty.
\<close>

theorem insert_msgq_merges:
  assumes "cmp \<in> msg_orders" "msgq_ok d" "msgq_ok s" "msgs_sorted cmp (rkmq_msgs d)" "msgs_sorted cmp (rkmq_msgs s)"
  shows "\<exists>d'. rd_kafka_msgq_insert_msgq d s cmp = Some (d', rd_kafka_msgq_init) \<and> msgq_ok d' \<and>
    msgs_sorted cmp (rkmq_msgs d') \<and> mset (rkmq_msgs d') = mset (rkmq_msgs d) + mset (rkmq_msgs s)"
  using assms fifo.insert_msgq_ok lifo.insert_msgq_ok unfolding msg_orders_def by blast

definition ex_msg :: "nat \<Rightarrow> nat \<Rightarrow> int \<Rightarrow> rd_kafka_msg" where
  "ex_msg i n r = \<lparr>rkm_len = n, rkm_key_len = 0, rkm_partition = 0, rkm_offset = 0, rkm_timestamp = 0, rkm_log_append = False,
     rkm_status = RD_KAFKA_MSG_STATUS_NOT_PERSISTED, ts_timeout = 0, ts_backoff = 0, msgid = i, retries = r\<rparr>"

definition ex_queue :: "rd_kafka_msg list \<Rightarrow> rd_kafka_msgq" where
  "ex_queue ms = \<lparr>rkmq_msgs = ms, rkmq_msg_cnt = int (length ms), rkmq_msg_bytes = sizes ms\<rparr>"

abbreviation ex_dest :: rd_kafka_msgq where "ex_dest \<equiv> ex_queue [ex_msg 1 5 0, ex_msg 2 5 0, ex_msg 4 7 0]"
abbreviation ex_src :: rd_kafka_msgq where "ex_src \<equiv> ex_queue [ex_msg 3 1 0, ex_msg 5 2 3]"

lemma ex_queues:
  "msgq_ok (ex_queue ms)" "msgs_sorted rd_kafka_msg_cmp_msgid (rkmq_msgs ex_dest)"
  "msgs_sorted rd_kafka_msg_cmp_msgid (rkmq_msgs ex_src)" "rd_kafka_msg_cmp_msgid \<in> msg_orders"
  by (simp_all add: ex_queue_def msgq_ok_def msgs_sorted_def rd_kafka_msg_cmp_msgid_def RD_CMP_def ex_msg_def msg_orders_def)

theorem insert_msgq_merges_witness:
  "\<exists>d'. rd_kafka_msgq_insert_msgq ex_dest ex_src rd_kafka_msg_cmp_msgid = Some (d', rd_kafka_msgq_init) \<and>
     msgq_ok d' \<and> size (mset (rkmq_msgs d')) = 5"
proof -
  obtain d' where "rd_kafka_msgq_insert_msgq ex_dest ex_src rd_kafka_msg_cmp_msgid = Some (d', rd_kafka_msgq_init)" "msgq_ok d'"
    and m: "mset (rkmq_msgs d') = mset (rkmq_msgs ex_dest) + mset (rkmq_msgs ex_src)"
    using insert_msgq_merges [OF ex_queues(4) ex_queues(1) ex_queues(1) ex_queues(2) ex_queues(3)] by blast
  moreover have "size (mset (rkmq_msgs d')) = 5" unfolding m by (simp add: ex_queue_def)
  ultimately show ?thesis by blast
qed





text \<open>
  The search counts the size of the message it looks a place for instead of those it passes: the
  part of the source that is split off carries wrong bytes until the merge is complete.
\<close>

lemma find_pos_bytes_wrong:
  "rd_kafka_msgq_find_pos ex_src None (ex_msg 4 7 0) rd_kafka_msg_cmp_msgid = Some (1, 1, 7) \<and>
   sizes (take 1 (rkmq_msgs ex_src)) = 1"
  by (simp add: rd_kafka_msgq_find_pos_def ex_queue_def ex_msg_def rd_kafka_msg_cmp_msgid_def RD_CMP_def msg_size_def)

text \<open>
  The comment of \<open>rd_kafka_retry_msgq\<close> says that the result is 0 if all messages were retried.  It
  is 1 then.
\<close>

lemma retry_result_when_all_retried:
  assumes "cmp \<in> msg_orders" "msgq_ok s" "msgs_sorted cmp (rkmq_msgs s)" "rkmq_msgs s \<noteq> []" "\<forall>m\<in>set (rkmq_msgs s). retries m + incr \<le> mx"
  shows "\<exists>d' s'. rd_kafka_retry_msgq rd_kafka_msgq_init s incr mx backoff status cmp = Some (1, d', s') \<and> rkmq_msgs s' = []"
proof -
  obtain s' r where r: "retry_loop incr mx backoff status (length (rkmq_msgs s)) 0 s rd_kafka_msgq_init = Some (s', r)"
    "rkmq_msgs s' = filter (\<lambda>m. retries m + incr > mx) (rkmq_msgs s)"
    "rkmq_msgs r = map (retry_msg incr backoff status) (filter (\<lambda>m. retries m + incr \<le> mx) (rkmq_msgs s))"
    using retry_loop_ok [OF assms(2) init_ok(1), of "[]" "rkmq_msgs s" incr mx backoff status] by auto
  have "filter (\<lambda>m. retries m + incr \<le> mx) (rkmq_msgs s) = rkmq_msgs s" "filter (\<lambda>m. retries m + incr > mx) (rkmq_msgs s) = []"
    using assms(5) by (auto simp: filter_id_conv filter_empty_conv)
  then show ?thesis
    using r assms(4)
    by (auto simp: rd_kafka_retry_msgq_def rd_kafka_msgq_insert_msgq_def rd_kafka_msgq_first_def rd_kafka_msgq_last_def
        rd_kafka_msgq_move_def split: list.split)
qed

end
