(* ===== verification/RK_Hash.thy ===== *)
theory RK_Hash
  imports RK_Crc32c
begin

section \<open>Hash functions and partitioners\<close>

text \<open>
  How a producer chooses the partition of a message from its key: the hash functions of
  \<open>rdmurmur2.c\<close>, \<open>rdfnv1a.c\<close> and \<open>rdcrc32.h\<close> with the table of \<open>rdcrc32.c\<close>, without zlib, and the
  partitioners of \<open>rdkafka_msg.c\<close>, all in \<open>src/librdkafka-1.4.2/src\<close>.  Shifts of signed
  numbers are in two's complement, as the compilers in use have them.
\<close>

unbundle bit_operations_syntax

subsection \<open>MurmurHash2\<close>

text \<open>A word in memory, read by a machine of either byte order, and \<open>htole32\<close>.\<close>

definition load32 :: "bool \<Rightarrow> byte list \<Rightarrow> u32" where
  "load32 big bs = le_bytes (if big then rev bs else bs)"

definition bswap32 :: "u32 \<Rightarrow> u32" where
  "bswap32 w = push_bit 24 (w AND 0xff) OR push_bit 16 (drop_bit 8 w AND 0xff) OR
     push_bit 8 (drop_bit 16 w AND 0xff) OR drop_bit 24 w"

definition htole32 :: "bool \<Rightarrow> u32 \<Rightarrow> u32" where
  "htole32 big w = (if big then bswap32 w else w)"

definition mm_m :: u32 where "mm_m = 0x5bd1e995"

definition MM_MIX :: "u32 \<Rightarrow> u32 \<Rightarrow> u32" where
  "MM_MIX h k =
     (let k = k * mm_m;
          k = k XOR drop_bit 24 k;
          k = k * mm_m;
          h = h * mm_m in
      h XOR k)"

fun aligned_loop :: "bool \<Rightarrow> u32 \<Rightarrow> byte list \<Rightarrow> u32 \<times> byte list" where
  "aligned_loop big h (a # b # c # d # bs) = aligned_loop big (MM_MIX h (htole32 big (load32 big [a, b, c, d]))) bs"
| "aligned_loop big h bs = (h, bs)"

fun unaligned_loop :: "u32 \<Rightarrow> byte list \<Rightarrow> u32 \<times> byte list" where
  "unaligned_loop h (a # b # c # d # bs) =
     (let k = ucast a;
          k = k OR push_bit 8 (ucast b);
          k = k OR push_bit 16 (ucast c);
          k = k OR push_bit 24 (ucast d) in
      unaligned_loop (MM_MIX h k) bs)"
| "unaligned_loop h bs = (h, bs)"

fun murmur_tail :: "u32 \<Rightarrow> byte list \<Rightarrow> u32" where
  "murmur_tail h [t0, t1, t2] =
     (((h XOR push_bit 16 (ucast t2)) XOR push_bit 8 (ucast t1)) XOR ucast t0) * mm_m"
| "murmur_tail h [t0, t1] = ((h XOR push_bit 8 (ucast t1)) XOR ucast t0) * mm_m"
| "murmur_tail h [t0] = (h XOR ucast t0) * mm_m"
| "murmur_tail h _ = h"

text \<open>The arguments are the byte order of the machine and the address of the key.\<close>

definition rd_murmur2 :: "bool \<Rightarrow> nat \<Rightarrow> byte list \<Rightarrow> u32" where
  "rd_murmur2 big addr key =
     (let seed = 0x9747b28c;
          h = seed XOR of_nat (length key);
          (h, tail) = (if addr mod 4 = 0 then aligned_loop big h key else unaligned_loop h key);
          h = murmur_tail h tail;
          h = h XOR drop_bit 13 h;
          h = h * mm_m in
      h XOR drop_bit 15 h)"

subsection \<open>FNV-1a\<close>

text \<open>The least signed number has no negation: to negate it is undefined.\<close>

definition rd_fnv1a :: "byte list \<Rightarrow> u32 option" where
  "rd_fnv1a key =
     (let prime = 0x01000193;
          offset = 0x811C9DC5;
          h = fold (\<lambda>b h. (h XOR ucast b) * prime) key offset in
      if sint h < 0 then (if sint h = - (2 ^ 31) then None else Some (- h)) else Some h)"

subsection \<open>CRC-32\<close>

definition crc_table :: "u32 list" where
  "crc_table =
    [0x00000000, 0x77073096, 0xee0e612c, 0x990951ba, 0x076dc419, 0x706af48f, 0xe963a535, 0x9e6495a3,
     0x0edb8832, 0x79dcb8a4, 0xe0d5e91e, 0x97d2d988, 0x09b64c2b, 0x7eb17cbd, 0xe7b82d07, 0x90bf1d91,
     0x1db71064, 0x6ab020f2, 0xf3b97148, 0x84be41de, 0x1adad47d, 0x6ddde4eb, 0xf4d4b551, 0x83d385c7,
     0x136c9856, 0x646ba8c0, 0xfd62f97a, 0x8a65c9ec, 0x14015c4f, 0x63066cd9, 0xfa0f3d63, 0x8d080df5,
     0x3b6e20c8, 0x4c69105e, 0xd56041e4, 0xa2677172, 0x3c03e4d1, 0x4b04d447, 0xd20d85fd, 0xa50ab56b,
     0x35b5a8fa, 0x42b2986c, 0xdbbbc9d6, 0xacbcf940, 0x32d86ce3, 0x45df5c75, 0xdcd60dcf, 0xabd13d59,
     0x26d930ac, 0x51de003a, 0xc8d75180, 0xbfd06116, 0x21b4f4b5, 0x56b3c423, 0xcfba9599, 0xb8bda50f,
     0x2802b89e, 0x5f058808, 0xc60cd9b2, 0xb10be924, 0x2f6f7c87, 0x58684c11, 0xc1611dab, 0xb6662d3d,
     0x76dc4190, 0x01db7106, 0x98d220bc, 0xefd5102a, 0x71b18589, 0x06b6b51f, 0x9fbfe4a5, 0xe8b8d433,
     0x7807c9a2, 0x0f00f934, 0x9609a88e, 0xe10e9818, 0x7f6a0dbb, 0x086d3d2d, 0x91646c97, 0xe6635c01,
     0x6b6b51f4, 0x1c6c6162, 0x856530d8, 0xf262004e, 0x6c0695ed, 0x1b01a57b, 0x8208f4c1, 0xf50fc457,
     0x65b0d9c6, 0x12b7e950, 0x8bbeb8ea, 0xfcb9887c, 0x62dd1ddf, 0x15da2d49, 0x8cd37cf3, 0xfbd44c65,
     0x4db26158, 0x3ab551ce, 0xa3bc0074, 0xd4bb30e2, 0x4adfa541, 0x3dd895d7, 0xa4d1c46d, 0xd3d6f4fb,
     0x4369e96a, 0x346ed9fc, 0xad678846, 0xda60b8d0, 0x44042d73, 0x33031de5, 0xaa0a4c5f, 0xdd0d7cc9,
     0x5005713c, 0x270241aa, 0xbe0b1010, 0xc90c2086, 0x5768b525, 0x206f85b3, 0xb966d409, 0xce61e49f,
     0x5edef90e, 0x29d9c998, 0xb0d09822, 0xc7d7a8b4, 0x59b33d17, 0x2eb40d81, 0xb7bd5c3b, 0xc0ba6cad,
     0xedb88320, 0x9abfb3b6, 0x03b6e20c, 0x74b1d29a, 0xead54739, 0x9dd277af, 0x04db2615, 0x73dc1683,
     0xe3630b12, 0x94643b84, 0x0d6d6a3e, 0x7a6a5aa8, 0xe40ecf0b, 0x9309ff9d, 0x0a00ae27, 0x7d079eb1,
     0xf00f9344, 0x8708a3d2, 0x1e01f268, 0x6906c2fe, 0xf762575d, 0x806567cb, 0x196c3671, 0x6e6b06e7,
     0xfed41b76, 0x89d32be0, 0x10da7a5a, 0x67dd4acc, 0xf9b9df6f, 0x8ebeeff9, 0x17b7be43, 0x60b08ed5,
     0xd6d6a3e8, 0xa1d1937e, 0x38d8c2c4, 0x4fdff252, 0xd1bb67f1, 0xa6bc5767, 0x3fb506dd, 0x48b2364b,
     0xd80d2bda, 0xaf0a1b4c, 0x36034af6, 0x41047a60, 0xdf60efc3, 0xa867df55, 0x316e8eef, 0x4669be79,
     0xcb61b38c, 0xbc66831a, 0x256fd2a0, 0x5268e236, 0xcc0c7795, 0xbb0b4703, 0x220216b9, 0x5505262f,
     0xc5ba3bbe, 0xb2bd0b28, 0x2bb45a92, 0x5cb36a04, 0xc2d7ffa7, 0xb5d0cf31, 0x2cd99e8b, 0x5bdeae1d,
     0x9b64c2b0, 0xec63f226, 0x756aa39c, 0x026d930a, 0x9c0906a9, 0xeb0e363f, 0x72076785, 0x05005713,
     0x95bf4a82, 0xe2b87a14, 0x7bb12bae, 0x0cb61b38, 0x92d28e9b, 0xe5d5be0d, 0x7cdcefb7, 0x0bdbdf21,
     0x86d3d2d4, 0xf1d4e242, 0x68ddb3f8, 0x1fda836e, 0x81be16cd, 0xf6b9265b, 0x6fb077e1, 0x18b74777,
     0x88085ae6, 0xff0f6a70, 0x66063bca, 0x11010b5c, 0x8f659eff, 0xf862ae69, 0x616bffd3, 0x166ccf45,
     0xa00ae278, 0xd70dd2ee, 0x4e048354, 0x3903b3c2, 0xa7672661, 0xd06016f7, 0x4969474d, 0x3e6e77db,
     0xaed16a4a, 0xd9d65adc, 0x40df0b66, 0x37d83bf0, 0xa9bcae53, 0xdebb9ec5, 0x47b2cf7f, 0x30b5ffe9,
     0xbdbdf21c, 0xcabac28a, 0x53b39330, 0x24b4a3a6, 0xbad03605, 0xcdd70693, 0x54de5729, 0x23d967bf,
     0xb3667a2e, 0xc4614ab8, 0x5d681b02, 0x2a6f2b94, 0xb40bbe37, 0xc30c8ea1, 0x5a05df1b, 0x2d02ef8d]"

definition rd_crc32_init :: u32 where "rd_crc32_init = 0xffffffff"

fun rd_crc32_update :: "u32 \<Rightarrow> byte list \<Rightarrow> u32" where
  "rd_crc32_update crc [] = crc AND 0xffffffff"
| "rd_crc32_update crc (b # bs) =
     (let tbl_idx = (crc XOR ucast b) AND 0xff in
      rd_crc32_update ((crc_table ! unat tbl_idx XOR drop_bit 8 crc) AND 0xffffffff) bs)"

definition rd_crc32_finalize :: "u32 \<Rightarrow> u32" where "rd_crc32_finalize crc = crc XOR 0xffffffff"

definition rd_crc32 :: "byte list \<Rightarrow> u32" where
  "rd_crc32 bs = rd_crc32_finalize (rd_crc32_update rd_crc32_init bs)"

fun reflect_loop :: "nat \<Rightarrow> u32 \<Rightarrow> u32 \<Rightarrow> u32" where
  "reflect_loop 0 d ret = ret"
| "reflect_loop (Suc n) d ret = (let d = drop_bit 1 d in reflect_loop n d (push_bit 1 ret OR (d AND 1)))"

definition rd_crc32_reflect :: "u32 \<Rightarrow> nat \<Rightarrow> u32" where
  "rd_crc32_reflect d data_len = reflect_loop (data_len - 1) d (d AND 1)"

subsection \<open>Partitioners\<close>




definition umod :: "u32 \<Rightarrow> int \<Rightarrow> int option" where
  "umod h partition_cnt = (if partition_cnt = 0 then None else Some (uint (h mod word_of_int partition_cnt)))"







subsection \<open>The checksum is the bit-wise one\<close>

definition crc32_bit :: "u32 \<Rightarrow> u32" where
  "crc32_bit crc = (if bit crc 0 then drop_bit 1 crc XOR 0xedb88320 else drop_bit 1 crc)"

definition crc32_bitwise :: "byte list \<Rightarrow> u32" where
  "crc32_bitwise bs = NOT (fold (\<lambda>b crc. (crc32_bit ^^ 8) (crc XOR ucast b)) bs (NOT 0))"

lemma linear_crc32: "linear (crc32_bit ^^ k)"
  by (rule linear_funpow) (auto simp: linear_def crc32_bit_def bit_xor_iff xor_ac)

text \<open>The table is made of eight values by doubling.\<close>

fun doubled :: "u32 list \<Rightarrow> u32 list" where
  "doubled [] = [0]"
| "doubled (c # cs) = (let t = doubled cs in t @ map (\<lambda>x. x XOR c) t)"

lemma xor_add:
  assumes "i < 2 ^ k" "k < 32"
  shows "(of_nat (2 ^ k + i) :: u32) = of_nat i XOR of_nat (2 ^ k)"
proof -
  have "take_bit k i = i" using assms(1) by (simp add: take_bit_nat_eq_self)
  then have "bit i n \<Longrightarrow> n < k" for n by (metis bit_take_bit_iff)
  then have "(of_nat i :: u32) AND of_nat (2 ^ k) = 0"
    by (intro word_bit_eqI) (auto simp: bit_simps)
  then show ?thesis by (simp add: disjunctive_add_eq_xor [symmetric] add.commute)
qed

lemma doubling:
  assumes "linear f" "k < 32"
  shows "map (\<lambda>i. f (of_nat i)) [0..<2 ^ Suc k] =
    map (\<lambda>i. f (of_nat i)) [0..<2 ^ k] @ map (\<lambda>x. x XOR f (2 ^ k)) (map (\<lambda>i. f (of_nat i)) [0..<2 ^ k])"
proof -
  have "[0..<2 ^ Suc k] = [0..<2 ^ k] @ map (\<lambda>i. 2 ^ k + i) [0..<2 ^ k]"
    using upt_add_eq_append [of 0 "2 ^ k" "2 ^ k"] map_add_upt [of "2 ^ k" "2 ^ k"] by (simp add: mult_2 add.commute)
  then show ?thesis
    using assms by (auto simp: xor_add linear_xor simp del: of_nat_add upt.simps)
qed

lemma doubled_table:
  "linear f \<Longrightarrow> n \<le> 32 \<Longrightarrow> map (\<lambda>i. f (of_nat i)) [0..<2 ^ n] = doubled (map (\<lambda>k. f (2 ^ k)) (rev [0..<n]))"
proof (induction n)
  case (Suc n)
  then show ?case using doubling [of f n] by (simp add: Let_def)
qed (simp add: linear_0)

lemma crc32_steps:
  "crc32_bit 1 = 0xedb88320" "crc32_bit 2 = 1" "crc32_bit 4 = 2" "crc32_bit 8 = 4" "crc32_bit 16 = 8"
  "crc32_bit 32 = 16" "crc32_bit 64 = 32" "crc32_bit 128 = 64"
  "crc32_bit 0xedb88320 = 0x76dc4190" "crc32_bit 0x76dc4190 = 0x3b6e20c8" "crc32_bit 0x3b6e20c8 = 0x1db71064"
  "crc32_bit 0x1db71064 = 0x0edb8832" "crc32_bit 0x0edb8832 = 0x076dc419" "crc32_bit 0x076dc419 = 0xee0e612c"
  "crc32_bit 0xee0e612c = 0x77073096"
  by (simp_all add: crc32_bit_def bit_0)

lemma funpow_8: "(f ^^ 8) x = f (f (f (f (f (f (f (f x)))))))"
  by (simp add: eval_nat_numeral)

lemma crc_table_doubled:
  "crc_table = doubled [0xedb88320, 0x76dc4190, 0x3b6e20c8, 0x1db71064, 0x0edb8832, 0x076dc419, 0xee0e612c, 0x77073096]"
  by (simp add: crc_table_def Let_def)

lemma crc_table_nth: "n < 256 \<Longrightarrow> crc_table ! n = (crc32_bit ^^ 8) (of_nat n)"
proof -
  assume n: "n < 256"
  define f where "f = crc32_bit ^^ 8"
  have "rev [0..<8] = [7, 6, 5, 4, 3, 2, 1, 0::nat]" by (simp add: upt_rec)
  then have "map (\<lambda>k. f (2 ^ k)) (rev [0..<8]) =
    [0xedb88320, 0x76dc4190, 0x3b6e20c8, 0x1db71064, 0x0edb8832, 0x076dc419, 0xee0e612c, 0x77073096]"
    by (simp add: f_def funpow_8 crc32_steps)
  then have t: "crc_table = map (\<lambda>i. f (of_nat i)) [0..<2 ^ 8]"
    using doubled_table [of f 8] linear_crc32 [of 8] unfolding crc_table_doubled f_def by simp
  show ?thesis unfolding t f_def by (subst nth_map) (use n in \<open>simp_all del: upt_rec_numeral\<close>)
qed

lemma crc32_byte_split: "(crc32_bit ^^ 8) x = (crc32_bit ^^ 8) (take_bit 8 x) XOR drop_bit 8 x"
proof -
  have even: "take_bit k y = 0 \<Longrightarrow> (crc32_bit ^^ k) y = drop_bit k y" for k y
  proof (induction k arbitrary: y)
    case (Suc k)
    have b: "i < Suc k \<Longrightarrow> \<not> bit y i" for i
      using Suc.prems bit_take_bit_iff [of "Suc k" y i] by simp
    then have "crc32_bit y = drop_bit 1 y" by (simp add: crc32_bit_def)
    moreover have "take_bit k (drop_bit 1 y) = 0"
      by (rule word_bit_eqI) (auto simp: bit_take_bit_iff bit_drop_bit_eq b)
    ultimately show ?case using Suc.IH by (simp add: funpow_swap1 drop_bit_drop_bit)
  qed simp
  have "take_bit 8 (push_bit 8 (drop_bit 8 x)) = 0"
    by (rule word_bit_eqI) (simp add: bit_take_bit_iff bit_push_bit_iff)
  from even [OF this] have "(crc32_bit ^^ 8) (push_bit 8 (drop_bit 8 x)) = drop_bit 8 x"
    by (simp only: drop_push_8)
  then show ?thesis
    using linear_xor [OF linear_crc32, of 8 "take_bit 8 x" "push_bit 8 (drop_bit 8 x)"]
    by (simp only: byte_split [symmetric])
qed

lemma all_ones: "x AND 0xffffffff = x" for x :: u32
proof -
  have m: "(0xffffffff :: u32) = - 1" by simp
  show ?thesis unfolding m by simp
qed

lemma crc32_step:
  "crc_table ! unat ((crc XOR ucast b) AND 0xff) XOR drop_bit 8 crc = (crc32_bit ^^ 8) (crc XOR ucast b)" for b :: byte
proof -
  define y where "y = crc XOR ucast b"
  have "unat (take_bit 8 y) < 256" by (rule byte_index)
  then have "crc_table ! unat (y AND 0xff) = (crc32_bit ^^ 8) (take_bit 8 y)"
    unfolding and_ff by (simp add: crc_table_nth)
  moreover have "drop_bit 8 y = drop_bit 8 crc" unfolding y_def by (rule drop_8_byte)
  ultimately show ?thesis using crc32_byte_split [of y] unfolding y_def [symmetric] by simp
qed

lemma crc32_update_eq: "rd_crc32_update crc bs = fold (\<lambda>b crc. (crc32_bit ^^ 8) (crc XOR ucast b)) bs crc"
  by (induction bs arbitrary: crc) (simp_all only: rd_crc32_update.simps Let_def all_ones crc32_step fold.simps comp_apply id_apply)

lemma crc32_eq: "rd_crc32 bs = crc32_bitwise bs"
proof -
  have m: "(0xffffffff :: u32) = NOT 0" by simp
  show ?thesis
    unfolding rd_crc32_def rd_crc32_finalize_def rd_crc32_init_def crc32_update_eq crc32_bitwise_def m by simp
qed

subsection \<open>Hashes do not depend on the machine\<close>

text \<open>MurmurHash2 over the little-endian words of the key.\<close>

fun le_words :: "byte list \<Rightarrow> u32 list \<times> byte list" where
  "le_words (a # b # c # d # bs) = (let (ws, rest) = le_words bs in (le_bytes [a, b, c, d] # ws, rest))"
| "le_words bs = ([], bs)"

definition murmur2 :: "byte list \<Rightarrow> u32" where
  "murmur2 key =
     (let (ws, rest) = le_words key;
          h = murmur_tail (fold (\<lambda>k h. MM_MIX h k) ws (0x9747b28c XOR of_nat (length key))) rest;
          h = (h XOR drop_bit 13 h) * mm_m in
      h XOR drop_bit 15 h)"

lemma bit_word4:
  "bit (le_bytes [a, b, c, d] :: u32) n \<longleftrightarrow> n < 32 \<and>
     (if n < 8 then bit a n else if n < 16 then bit b (n - 8) else if n < 24 then bit c (n - 16) else bit d (n - 24))"
  for a b c d :: byte
  using bit_imp_le_length [of a n] bit_imp_le_length [of b "n - 8"] bit_imp_le_length [of c "n - 16"] bit_imp_le_length [of d "n - 24"]
  by (auto simp: bit_simps dest: bit_imp_le_length)

lemma load_any: "htole32 big (load32 big [a, b, c, d]) = le_bytes [a, b, c, d]"
proof (cases big)
  case True
  have "bswap32 (le_bytes [d, c, b, a]) = le_bytes [a, b, c, d]"
    unfolding bswap32_def and_ff
    by (rule word_bit_eqI)
      (auto simp: bit_or_iff bit_push_bit_iff bit_drop_bit_eq bit_take_bit_iff bit_word4 simp del: le_bytes.simps)
  then show ?thesis using True by (simp add: htole32_def load32_def del: le_bytes.simps)
qed (simp add: htole32_def load32_def)

lemma byte_ors: "((ucast a OR push_bit 8 (ucast b)) OR push_bit 16 (ucast c)) OR push_bit 24 (ucast d) = (le_bytes [a, b, c, d] :: u32)"
  by (rule word_bit_eqI) (auto simp: bit_word4 bit_or_iff bit_push_bit_iff bit_ucast_iff simp del: le_bytes.simps dest: bit_imp_le_length)

lemma aligned_eq: "aligned_loop big h bs = (case le_words bs of (ws, rest) \<Rightarrow> (fold (\<lambda>k h. MM_MIX h k) ws h, rest))"
  by (induction big h bs rule: aligned_loop.induct) (auto simp: load_any split: prod.splits simp del: le_bytes.simps)

lemma unaligned_eq: "unaligned_loop h bs = (case le_words bs of (ws, rest) \<Rightarrow> (fold (\<lambda>k h. MM_MIX h k) ws h, rest))"
  by (induction h bs rule: unaligned_loop.induct) (auto simp: byte_ors Let_def split: prod.splits simp del: le_bytes.simps)

lemma murmur2_eq: "rd_murmur2 big addr key = murmur2 key"
  unfolding rd_murmur2_def murmur2_def aligned_eq unaligned_eq by (simp add: Let_def split: prod.split)

text \<open>
  C12: The hash functions of the key depend on its bytes only: MurmurHash2 gives the same value at
  every address and on machines of either byte order, that of the little-endian words of the key,
  and the table-driven CRC-32 is the bit-wise one.
\<close>

theorem key_hashes_correct:
  "rd_murmur2 big addr key = murmur2 key \<and> rd_crc32 key = crc32_bitwise key"
  by (simp only: murmur2_eq crc32_eq simp_thms)

lemma umod_range:
  assumes "0 < cnt" "cnt < 2 ^ 31"
  shows "\<exists>p. umod h cnt = Some p \<and> 0 \<le> p \<and> p < cnt \<and> p = uint h mod cnt"
proof -
  have "uint (word_of_int cnt :: u32) = cnt" using assms by (simp add: uint_word_of_int)
  then have "uint (h mod word_of_int cnt) = uint h mod cnt" by (simp add: uint_mod)
  then show ?thesis using assms by (simp add: umod_def)
qed


definition valid_choice :: "int \<Rightarrow> int option \<Rightarrow> bool" where
  "valid_choice cnt r \<longleftrightarrow> (case r of None \<Rightarrow> False | Some p \<Rightarrow> 0 \<le> p \<and> p < cnt)"

lemma valid_umod: "0 < cnt \<Longrightarrow> cnt < 2 ^ 31 \<Longrightarrow> valid_choice cnt (umod h cnt)"
  using umod_range [of cnt h] by (auto simp: valid_choice_def)






text \<open>There is a key whose FNV-1a value is the least signed number: the code negates it all the same.\<close>

lemma fnv1a_negates_least: "rd_fnv1a [59, 75, 36, 50, 53] = None"
  by (simp add: rd_fnv1a_def)

end
