(* ===== verification/RK_Produce.thy ===== *)
theory RK_Produce
  imports CString RK_Msgq RK_Hash
begin

section \<open>Putting a message on a partition\<close>

text \<open>
  What happens to a message a program produces, in \<open>rdkafka_msg.c\<close>, \<open>rdkafka_partition.c\<close> and
  \<open>rdkafka_txnmgr.h\<close> of \<open>src/librdkafka-1.4.2/src\<close>: the partitioner is run, the message gets the next
  id of its partition and is put on its queue, and the partition is added to the transaction.
  A partition is named by where the topic keeps it.  Message ids are taken to stay below 64 bits;
  locks have no effect on a model with one thread.
\<close>

definition RD_KAFKA_PARTITION_UA :: int where "RD_KAFKA_PARTITION_UA = - 1"
definition RD_KAFKA_RESP_ERR__UNKNOWN_PARTITION :: int where "RD_KAFKA_RESP_ERR__UNKNOWN_PARTITION = - 190"
definition RD_KAFKA_RESP_ERR__UNKNOWN_TOPIC :: int where "RD_KAFKA_RESP_ERR__UNKNOWN_TOPIC = - 188"

datatype rkt_state_t = RD_KAFKA_TOPIC_S_UNKNOWN | RD_KAFKA_TOPIC_S_EXISTS | RD_KAFKA_TOPIC_S_NOTEXISTS

text \<open>\<open>rktp_wakeups\<close> counts how often the thread that waits for messages is woken.\<close>

record rd_kafka_toppar =
  rktp_partition :: int
  rktp_refcnt :: int
  rktp_msgq_wakeup_q :: bool
  rktp_wakeups :: nat
  rktp_msgq :: rd_kafka_msgq
  rktp_msgid :: nat
  rktp_pend_txn :: bool
  rktp_in_txn :: bool
  producer_enq_msgs :: nat

record rd_kafka_topic =
  rkt_topic :: cstr
  rkt_ua :: "rd_kafka_toppar option"
  rkt_p :: "rd_kafka_toppar list"
  rkt_partition_cnt :: int
  rkt_state :: rkt_state_t
  queuing_fifo :: bool
  partitioner :: "byte list option \<Rightarrow> int \<Rightarrow> int option"

record rd_kafka =
  transactional :: bool
  txn_pending_rktps :: "(cstr \<times> int) list"
  txn_scheduled :: nat

definition msg_order_cmp :: "rd_kafka_topic \<Rightarrow> order_cmp" where
  "msg_order_cmp rkt = (if queuing_fifo rkt then rd_kafka_msg_cmp_msgid else rd_kafka_msg_cmp_msgid_lifo)"

datatype place = Ua | Part nat

fun toppar :: "rd_kafka_topic \<Rightarrow> place \<Rightarrow> rd_kafka_toppar option" where
  "toppar rkt Ua = rkt_ua rkt"
| "toppar rkt (Part i) = (if i < length (rkt_p rkt) then Some (rkt_p rkt ! i) else None)"

fun set_toppar :: "place \<Rightarrow> rd_kafka_toppar \<Rightarrow> rd_kafka_topic \<Rightarrow> rd_kafka_topic" where
  "set_toppar Ua rktp rkt = rkt\<lparr>rkt_ua := Some rktp\<rparr>"
| "set_toppar (Part i) rktp rkt = rkt\<lparr>rkt_p := (rkt_p rkt)[i := rktp]\<rparr>"

definition rd_kafka_toppar_keep :: "rd_kafka_toppar \<Rightarrow> rd_kafka_toppar" where
  "rd_kafka_toppar_keep rktp = rktp\<lparr>rktp_refcnt := rktp_refcnt rktp + 1\<rparr>"

text \<open>Releasing the last reference would free the partition: that is \<open>None\<close>.\<close>

definition rd_kafka_toppar_destroy :: "rd_kafka_toppar \<Rightarrow> rd_kafka_toppar option" where
  "rd_kafka_toppar_destroy rktp =
     (let rktp = rktp\<lparr>rktp_refcnt := rktp_refcnt rktp - 1\<rparr> in if rktp_refcnt rktp = 0 then None else Some rktp)"

definition rd_kafka_toppar_get :: "rd_kafka_topic \<Rightarrow> int \<Rightarrow> bool \<Rightarrow> (place \<times> rd_kafka_toppar) option" where
  "rd_kafka_toppar_get rkt part ua_on_miss =
     (if part \<ge> 0 \<and> part < rkt_partition_cnt rkt then
        map_option (\<lambda>rktp. (Part (nat part), rd_kafka_toppar_keep rktp)) (toppar rkt (Part (nat part)))
      else if part = RD_KAFKA_PARTITION_UA \<or> ua_on_miss then
        map_option (\<lambda>rktp. (Ua, rd_kafka_toppar_keep rktp)) (toppar rkt Ua)
      else None)"

definition rd_kafka_toppar_enq_msg :: "rd_kafka_topic \<Rightarrow> rd_kafka_toppar \<Rightarrow> rd_kafka_msg \<Rightarrow> rd_kafka_toppar" where
  "rd_kafka_toppar_enq_msg rkt rktp rkm =
     (let (rktp, rkm) =
        (if msgid rkm = 0 \<and> rktp_partition rktp \<noteq> RD_KAFKA_PARTITION_UA then
           (rktp\<lparr>rktp_msgid := rktp_msgid rktp + 1\<rparr>, rkm\<lparr>msgid := rktp_msgid rktp + 1\<rparr>)
         else (rktp, rkm));
          q = (if rktp_partition rktp = RD_KAFKA_PARTITION_UA \<or> queuing_fifo rkt
               then rd_kafka_msgq_enq (rktp_msgq rktp) rkm
               else rd_kafka_msgq_enq_sorted0 (rktp_msgq rktp) rkm (msg_order_cmp rkt)) in
      rktp\<lparr>rktp_msgq := q,
           rktp_wakeups := rktp_wakeups rktp + (if rkmq_msg_cnt q = 1 \<and> rktp_msgq_wakeup_q rktp then 1 else 0)\<rparr>)"

text \<open>The list of pending partitions is sorted by the name of the topic.\<close>

definition rd_kafka_toppar_topic_cmp :: "cstr \<times> int \<Rightarrow> cstr \<times> int \<Rightarrow> int" where
  "rd_kafka_toppar_topic_cmp a b = strcmp (fst a) (fst b)"

definition rd_kafka_txn_add_partition :: "cstr \<Rightarrow> rd_kafka \<Rightarrow> rd_kafka_toppar \<Rightarrow> rd_kafka \<times> rd_kafka_toppar" where
  "rd_kafka_txn_add_partition topic rk rktp =
     (if rktp_pend_txn rktp \<or> rktp_in_txn rktp then (rk, rktp)
      else
        (let rktp = rktp\<lparr>rktp_pend_txn := True\<rparr>;
             schedule = (txn_pending_rktps rk = []);
             rk = rk\<lparr>txn_pending_rktps :=
               tailq_insert_sorted rd_kafka_toppar_topic_cmp (topic, rktp_partition rktp) (txn_pending_rktps rk)\<rparr> in
         (if schedule then rk\<lparr>txn_scheduled := txn_scheduled rk + 1\<rparr> else rk, rktp)))"

text \<open>The partition the switch on the state chooses, or an error.\<close>

definition choose_partition :: "rd_kafka_topic \<Rightarrow> byte list option \<Rightarrow> rd_kafka_msg \<Rightarrow> (int + int) option" where
  "choose_partition rkt key rkm =
     (case rkt_state rkt of
        RD_KAFKA_TOPIC_S_UNKNOWN \<Rightarrow> Some (Inr RD_KAFKA_PARTITION_UA)
      | RD_KAFKA_TOPIC_S_NOTEXISTS \<Rightarrow> Some (Inl RD_KAFKA_RESP_ERR__UNKNOWN_TOPIC)
      | RD_KAFKA_TOPIC_S_EXISTS \<Rightarrow>
          if rkt_partition_cnt rkt = 0 then Some (Inr RD_KAFKA_PARTITION_UA)
          else do {
            part \<leftarrow> (if rkm_partition rkm = RD_KAFKA_PARTITION_UA then partitioner rkt key (rkt_partition_cnt rkt)
                    else Some (rkm_partition rkm));
            if part \<ge> rkt_partition_cnt rkt then Some (Inl RD_KAFKA_RESP_ERR__UNKNOWN_PARTITION) else Some (Inr part) })"

definition rd_kafka_msg_partitioner ::
    "rd_kafka \<Rightarrow> rd_kafka_topic \<Rightarrow> byte list option \<Rightarrow> rd_kafka_msg \<Rightarrow> (int \<times> rd_kafka \<times> rd_kafka_topic) option" where
  "rd_kafka_msg_partitioner rk rkt key rkm = do {
     choice \<leftarrow> choose_partition rkt key rkm;
     case choice of
       Inl err \<Rightarrow> Some (err, rk, rkt)
     | Inr part \<Rightarrow>
         (case rd_kafka_toppar_get rkt part False of
            None \<Rightarrow>
              Some (if rkt_state rkt = RD_KAFKA_TOPIC_S_NOTEXISTS then RD_KAFKA_RESP_ERR__UNKNOWN_TOPIC
                else RD_KAFKA_RESP_ERR__UNKNOWN_PARTITION, rk, rkt)
          | Some (pl, rktp) \<Rightarrow> do {
              let rktp = rktp\<lparr>producer_enq_msgs := producer_enq_msgs rktp + 1\<rparr>;
              let rkm = (if rkm_partition rkm = RD_KAFKA_PARTITION_UA then rkm\<lparr>rkm_partition := part\<rparr> else rkm);
              let rktp = rd_kafka_toppar_enq_msg rkt rktp rkm;
              let (rk, rktp) =
                (if rktp_partition rktp \<noteq> RD_KAFKA_PARTITION_UA \<and> transactional rk
                 then rd_kafka_txn_add_partition (rkt_topic rkt) rk rktp else (rk, rktp));
              rktp \<leftarrow> rd_kafka_toppar_destroy rktp;
              Some (0, rk, set_toppar pl rktp rkt) }) }"

subsection \<open>The partitions of a topic stay in order\<close>

definition toppar_ok :: "order_cmp \<Rightarrow> rd_kafka_toppar \<Rightarrow> bool" where
  "toppar_ok cmp rktp \<longleftrightarrow> msgq_ok (rktp_msgq rktp) \<and> 0 < rktp_refcnt rktp \<and>
     (rktp_partition rktp \<noteq> RD_KAFKA_PARTITION_UA \<longrightarrow>
        msgs_sorted cmp (rkmq_msgs (rktp_msgq rktp)) \<and>
        (\<forall>m\<in>set (rkmq_msgs (rktp_msgq rktp)). 0 < msgid m \<and> msgid m \<le> rktp_msgid rktp))"

definition topic_ok :: "rd_kafka_topic \<Rightarrow> bool" where
  "topic_ok rkt \<longleftrightarrow> rkt_partition_cnt rkt = int (length (rkt_p rkt)) \<and>
     (\<forall>i<length (rkt_p rkt). rktp_partition (rkt_p rkt ! i) = int i \<and> toppar_ok (msg_order_cmp rkt) (rkt_p rkt ! i)) \<and>
     (\<forall>ua. rkt_ua rkt = Some ua \<longrightarrow> rktp_partition ua = RD_KAFKA_PARTITION_UA \<and> toppar_ok (msg_order_cmp rkt) ua)"

definition place_partition :: "place \<Rightarrow> int" where
  "place_partition pl = (case pl of Ua \<Rightarrow> RD_KAFKA_PARTITION_UA | Part i \<Rightarrow> int i)"

lemma toppar_get_ok:
  "topic_ok rkt \<Longrightarrow> toppar rkt pl = Some rktp \<Longrightarrow> rktp_partition rktp = place_partition pl \<and> toppar_ok (msg_order_cmp rkt) rktp"
  by (cases pl) (auto simp: topic_ok_def place_partition_def split: if_splits)

lemma set_toppar_ok:
  assumes "topic_ok rkt" "toppar rkt pl \<noteq> None" "rktp_partition rktp = place_partition pl" "toppar_ok (msg_order_cmp rkt) rktp"
  shows "topic_ok (set_toppar pl rktp rkt)"
  using assms by (cases pl) (auto simp: topic_ok_def place_partition_def msg_order_cmp_def nth_list_update split: if_splits)

lemma enq_sorted_ok:
  assumes "msgq_ok q" "cmp \<in> msg_orders" "msgs_sorted cmp (rkmq_msgs q)"
  shows "msgq_ok (rd_kafka_msgq_enq_sorted0 q m cmp)" "msgs_sorted cmp (rkmq_msgs (rd_kafka_msgq_enq_sorted0 q m cmp))"
    "mset (rkmq_msgs (rd_kafka_msgq_enq_sorted0 q m cmp)) = add_mset m (mset (rkmq_msgs q))"
proof -
  define ms where "ms = tailq_insert_sorted cmp m (rkmq_msgs q)"
  have i: "msgs_sorted cmp ms" "mset ms = add_mset m (mset (rkmq_msgs q))"
    using assms(2,3) fifo.tailq_insert_sorted_ok lifo.tailq_insert_sorted_ok unfolding ms_def msg_orders_def by blast+
  have "length ms = Suc (length (rkmq_msgs q))" using i(2) by (metis size_add_mset size_mset)
  moreover have "sizes ms = sizes (rkmq_msgs q) + msg_size m"
    using arg_cong [OF i(2), of "\<lambda>M. sum_mset (image_mset msg_size M)"] by (simp add: sum_mset_sum_list flip: mset_map)
  ultimately show "msgq_ok (rd_kafka_msgq_enq_sorted0 q m cmp)" using assms(1)
    by (simp add: rd_kafka_msgq_enq_sorted0_def msgq_ok_def ms_def)
  show "msgs_sorted cmp (rkmq_msgs (rd_kafka_msgq_enq_sorted0 q m cmp))"
    "mset (rkmq_msgs (rd_kafka_msgq_enq_sorted0 q m cmp)) = add_mset m (mset (rkmq_msgs q))"
    using i by (simp_all add: rd_kafka_msgq_enq_sorted0_def ms_def)
qed

lemma enq_msg_ok:
  assumes "toppar_ok (msg_order_cmp rkt) rktp" "msgid rkm = 0"
  defines "rkm' \<equiv> (if rktp_partition rktp = RD_KAFKA_PARTITION_UA then rkm else rkm\<lparr>msgid := rktp_msgid rktp + 1\<rparr>)"
  shows "toppar_ok (msg_order_cmp rkt) (rd_kafka_toppar_enq_msg rkt rktp rkm) \<and>
    mset (rkmq_msgs (rktp_msgq (rd_kafka_toppar_enq_msg rkt rktp rkm))) = add_mset rkm' (mset (rkmq_msgs (rktp_msgq rktp))) \<and>
    rktp_partition (rd_kafka_toppar_enq_msg rkt rktp rkm) = rktp_partition rktp \<and>
    rktp_refcnt (rd_kafka_toppar_enq_msg rkt rktp rkm) = rktp_refcnt rktp"
proof -
  define q where "q = rktp_msgq rktp"
  have q: "msgq_ok q" "0 < rktp_refcnt rktp" using assms(1) by (simp_all add: toppar_ok_def q_def)
  show ?thesis
  proof (cases "rktp_partition rktp = RD_KAFKA_PARTITION_UA")
    case True
    then show ?thesis
      using q enq_ok [OF q(1), of rkm] by (simp add: rd_kafka_toppar_enq_msg_def rkm'_def toppar_ok_def q_def Let_def)
  next
    case False
    then have r: "rkm' = rkm\<lparr>msgid := rktp_msgid rktp + 1\<rparr>" by (simp add: rkm'_def)
    have srt: "msgs_sorted (msg_order_cmp rkt) (rkmq_msgs q)" "\<forall>m\<in>set (rkmq_msgs q). 0 < msgid m \<and> msgid m \<le> rktp_msgid rktp"
      using assms(1) False by (simp_all add: toppar_ok_def q_def)
    have ord: "msg_order_cmp rkt \<in> msg_orders" by (simp add: msg_order_cmp_def msg_orders_def)
    note e = enq_ok [OF q(1), of rkm'] and es = enq_sorted_ok [OF q(1) ord srt(1), of rkm']
    have "set (rkmq_msgs (rd_kafka_msgq_enq_sorted0 q rkm' (msg_order_cmp rkt))) = insert rkm' (set (rkmq_msgs q))"
      using es(3) by (metis set_mset_add_mset_insert set_mset_mset)
    moreover have "queuing_fifo rkt \<Longrightarrow> msgs_sorted (msg_order_cmp rkt) (rkmq_msgs q @ [rkm'])"
      using srt unfolding msgs_sorted_def sorted_wrt_append r
      by (auto simp: msg_order_cmp_def rd_kafka_msg_cmp_msgid_def RD_CMP_def)
    ultimately show ?thesis
      using False q srt(2) e es assms(2)
      by (auto simp: rd_kafka_toppar_enq_msg_def toppar_ok_def r q_def [symmetric] Let_def)
  qed
qed

text \<open>What changes when a message is taken: one partition has one message more, and nothing else.\<close>

definition enqueued :: "rd_kafka_topic \<Rightarrow> rd_kafka_msg \<Rightarrow> int \<Rightarrow> rd_kafka_topic \<Rightarrow> bool" where
  "enqueued rkt rkm part rkt' \<longleftrightarrow> (\<exists>pl rktp rktp' m. place_partition pl = part \<and> toppar rkt pl = Some rktp \<and>
     rkt' = set_toppar pl rktp' rkt \<and> rktp_refcnt rktp' = rktp_refcnt rktp \<and>
     mset (rkmq_msgs (rktp_msgq rktp')) = add_mset m (mset (rkmq_msgs (rktp_msgq rktp))) \<and>
     rkm_len m = rkm_len rkm \<and> rkm_key_len m = rkm_key_len rkm \<and>
     (part \<noteq> RD_KAFKA_PARTITION_UA \<longrightarrow> msgid m = rktp_msgid rktp + 1))"

lemma get_place:
  assumes "topic_ok rkt" "rd_kafka_toppar_get rkt part False = Some (pl, rktp)"
  shows "\<exists>r. toppar rkt pl = Some r \<and> rktp = rd_kafka_toppar_keep r \<and> place_partition pl = part"
  using assms by (auto simp: rd_kafka_toppar_get_def place_partition_def simp del: toppar.simps split: if_splits)

lemma txn_add_keeps:
  "rd_kafka_txn_add_partition topic rk rktp = (rk', rktp') \<Longrightarrow>
     rktp_msgq rktp' = rktp_msgq rktp \<and> rktp_refcnt rktp' = rktp_refcnt rktp \<and> rktp_partition rktp' = rktp_partition rktp \<and>
     rktp_msgid rktp' = rktp_msgid rktp"
  by (auto simp: rd_kafka_txn_add_partition_def Let_def split: if_splits)

lemma partitioner_enqueues:
  assumes "topic_ok rkt" "msgid rkm = 0" "choose_partition rkt key rkm = Some (Inr part)"
    "rd_kafka_toppar_get rkt part False = Some (pl, rktp)"
  shows "\<exists>rk' rkt'. rd_kafka_msg_partitioner rk rkt key rkm = Some (0, rk', rkt') \<and> topic_ok rkt' \<and> enqueued rkt rkm part rkt'"
proof -
  obtain r where r: "toppar rkt pl = Some r" "rktp = rd_kafka_toppar_keep r" "place_partition pl = part"
    using get_place [OF assms(1,4)] by blast
  note ok = toppar_get_ok [OF assms(1) r(1)]
  define t where "t = rktp\<lparr>producer_enq_msgs := producer_enq_msgs rktp + 1\<rparr>"
  define m where "m = (if rkm_partition rkm = RD_KAFKA_PARTITION_UA then rkm\<lparr>rkm_partition := part\<rparr> else rkm)"
  define e where "e = rd_kafka_toppar_enq_msg rkt t m"
  obtain rk' d where d: "(if rktp_partition e \<noteq> RD_KAFKA_PARTITION_UA \<and> transactional rk
    then rd_kafka_txn_add_partition (rkt_topic rkt) rk e else (rk, e)) = (rk', d)" by fastforce
  have keep: "rktp_msgq d = rktp_msgq e" "rktp_refcnt d = rktp_refcnt e" "rktp_partition d = rktp_partition e" "rktp_msgid d = rktp_msgid e"
    using d txn_add_keeps [of "rkt_topic rkt" rk e rk' d] by (auto split: if_splits)
  have t: "toppar_ok (msg_order_cmp rkt) t" "rktp_refcnt t = rktp_refcnt r + 1" "rktp_partition t = part" "rktp_msgq t = rktp_msgq r" "rktp_msgid t = rktp_msgid r"
    using ok r by (auto simp: t_def rd_kafka_toppar_keep_def toppar_ok_def)
  have "msgid m = 0" "rkm_len m = rkm_len rkm" "rkm_key_len m = rkm_key_len rkm" using assms(2) by (simp_all add: m_def)
  note e = enq_msg_ok [OF t(1) this(1), folded e_def, unfolded t] and len = this(2,3)
  have pos: "0 < rktp_refcnt r" using ok by (simp add: toppar_ok_def)
  define d' where "d' = d\<lparr>rktp_refcnt := rktp_refcnt d - 1\<rparr>"
  have d': "rd_kafka_toppar_destroy d = Some d'" using e keep pos by (simp add: rd_kafka_toppar_destroy_def Let_def d'_def)
  have run: "rd_kafka_msg_partitioner rk rkt key rkm = Some (0, rk', set_toppar pl d' rkt)"
    by (simp only: rd_kafka_msg_partitioner_def assms(3,4) bind.bind_lunit sum.case option.case prod.case Let_def
        t_def [symmetric] m_def [symmetric] e_def [symmetric] d d')
  have "toppar_ok (msg_order_cmp rkt) d'" using e keep pos by (simp add: toppar_ok_def d'_def)
  moreover have "rktp_partition d' = place_partition pl" using e keep r(3) by (simp add: d'_def)
  ultimately have "topic_ok (set_toppar pl d' rkt)" using set_toppar_ok [OF assms(1)] r(1) by blast
  moreover have "rktp_refcnt d' = rktp_refcnt r" using e keep by (simp add: d'_def)
  then have "enqueued rkt rkm part (set_toppar pl d' rkt)"
    unfolding enqueued_def using r(1,3) e keep len
    by (intro exI [of _ pl] exI [of _ r] exI [of _ d']
        exI [of _ "if part = RD_KAFKA_PARTITION_UA then m else m\<lparr>msgid := rktp_msgid r + 1\<rparr>"]) (simp add: d'_def)
  ultimately show ?thesis using run by blast
qed

text \<open>
  C10: Producing a message to a topic always returns.  On an error nothing has changed.  Otherwise
  the message is on exactly one queue, that of the chosen partition, with the next id of this
  partition, no reference is lost or left over, and the queues of all partitions are sorted,
  with ids that do not repeat those to come and exact counters.  The error is the one of the
  topic exactly when the topic is known not to exist.
\<close>

theorem msg_partitioner_correct:
  assumes "topic_ok rkt" "msgid rkm = 0" "\<forall>cnt>0. partitioner rkt key cnt \<noteq> None"
  shows "\<exists>err rk' rkt'. rd_kafka_msg_partitioner rk rkt key rkm = Some (err, rk', rkt') \<and> topic_ok rkt' \<and>
    (err \<noteq> 0 \<longrightarrow> rk' = rk \<and> rkt' = rkt) \<and>
    (err = 0 \<longrightarrow> (\<exists>part. choose_partition rkt key rkm = Some (Inr part) \<and> enqueued rkt rkm part rkt')) \<and>
    (err = RD_KAFKA_RESP_ERR__UNKNOWN_TOPIC \<longleftrightarrow> rkt_state rkt = RD_KAFKA_TOPIC_S_NOTEXISTS)"
proof -
  have "rkt_partition_cnt rkt = 0 \<or> 0 < rkt_partition_cnt rkt" using assms(1) by (auto simp: topic_ok_def)
  then have "choose_partition rkt key rkm \<noteq> None"
    using assms(3) by (cases "rkt_state rkt") (auto simp: choose_partition_def)
  then obtain ch where ch: "choose_partition rkt key rkm = Some ch" by blast
  have st: "ch = Inl RD_KAFKA_RESP_ERR__UNKNOWN_TOPIC \<longleftrightarrow> rkt_state rkt = RD_KAFKA_TOPIC_S_NOTEXISTS"
    "\<And>e. ch = Inl e \<Longrightarrow> e = RD_KAFKA_RESP_ERR__UNKNOWN_TOPIC \<or> e = RD_KAFKA_RESP_ERR__UNKNOWN_PARTITION"
    using ch by (auto simp: choose_partition_def RD_KAFKA_RESP_ERR__UNKNOWN_TOPIC_def RD_KAFKA_RESP_ERR__UNKNOWN_PARTITION_def
        bind_eq_Some_conv split: rkt_state_t.splits if_splits)
  note codes = RD_KAFKA_RESP_ERR__UNKNOWN_TOPIC_def RD_KAFKA_RESP_ERR__UNKNOWN_PARTITION_def
  show ?thesis
  proof (cases ch)
    case (Inl e)
    then show ?thesis using st ch assms(1) by (auto simp: rd_kafka_msg_partitioner_def codes)
  next
    case (Inr part)
    then have ne: "rkt_state rkt \<noteq> RD_KAFKA_TOPIC_S_NOTEXISTS" using st(1) by blast
    show ?thesis
    proof (cases "rd_kafka_toppar_get rkt part False")
      case None
      then show ?thesis using Inr ch assms(1) ne by (simp add: rd_kafka_msg_partitioner_def codes)
    next
      case (Some pr)
      then show ?thesis
        using partitioner_enqueues [OF assms(1,2) ch [unfolded Inr], of "fst pr" "snd pr" rk] ne ch Inr
        by (auto simp: codes)
    qed
  qed
qed

definition ex_toppar :: "int \<Rightarrow> rd_kafka_toppar" where
  "ex_toppar i = \<lparr>rktp_partition = i, rktp_refcnt = 1, rktp_msgq_wakeup_q = True, rktp_wakeups = 0, rktp_msgq = rd_kafka_msgq_init,
     rktp_msgid = 0, rktp_pend_txn = False, rktp_in_txn = False, producer_enq_msgs = 0\<rparr>"

definition ex_topic :: rd_kafka_topic where
  "ex_topic = \<lparr>rkt_topic = ''test'', rkt_ua = Some (ex_toppar (- 1)), rkt_p = [ex_toppar 0, ex_toppar 1], rkt_partition_cnt = 2,
     rkt_state = RD_KAFKA_TOPIC_S_EXISTS, queuing_fifo = True, partitioner = (\<lambda>key cnt. Some (cnt - 1))\<rparr>"

lemma ex_topic_ok: "topic_ok ex_topic"
  by (auto simp: topic_ok_def ex_topic_def ex_toppar_def toppar_ok_def RD_KAFKA_PARTITION_UA_def msgs_sorted_def less_Suc_eq numeral_2_eq_2)

theorem msg_partitioner_correct_witness:
  "\<exists>err rk' rkt'. rd_kafka_msg_partitioner \<lparr>transactional = True, txn_pending_rktps = [], txn_scheduled = 0\<rparr> ex_topic None
     ((ex_msg 0 5 0)\<lparr>rkm_partition := - 1\<rparr>) = Some (err, rk', rkt') \<and> topic_ok rkt' \<and>
     choose_partition ex_topic None ((ex_msg 0 5 0)\<lparr>rkm_partition := - 1\<rparr>) = Some (Inr 1)"
proof -
  have "msgid ((ex_msg 0 5 0)\<lparr>rkm_partition := - 1\<rparr>) = 0" "\<forall>cnt>0. partitioner ex_topic None cnt \<noteq> None"
    by (simp_all add: ex_msg_def ex_topic_def)
  from msg_partitioner_correct [OF ex_topic_ok this, of "\<lparr>transactional = True, txn_pending_rktps = [], txn_scheduled = 0\<rparr>"]
  show ?thesis by (auto simp: choose_partition_def ex_topic_def RD_KAFKA_PARTITION_UA_def)
qed

end
