(* ===== verification/RK_TxnMgr.thy ===== *)
theory RK_TxnMgr
  imports KT_Prelude
begin

section \<open>The transaction manager\<close>

text \<open>
  The states of a transactional producer, \<open>rdkafka_txnmgr.c\<close> and the part of
  \<open>rdkafka_idempotence.c\<close> it hangs on, in \<open>src/librdkafka-1.4.2/src\<close>: the handlers that the main
  thread runs for the calls of the program and for the responses of the coordinator.  The main thread
  runs them one after the other; a partition is added by the thread that produces, and an error of
  the transaction may be raised by the thread of a broker, each as one step between two handlers.
  \<open>None\<close> is a failed assertion, which ends the process.
  A reply queue is a number; replies, requests to end a transaction, purges and scheduled
  work are recorded in the order made.  Partitions are numbers too, and the pending ones are kept in
  the order they were added, not sorted by topic.  The state leaves out locks, timers, texts and the
  blocking call in progress.  Of the handler of AddPartitionsToTxn only the registration of a
  partition is modelled: its other branches, which move unanswered partitions back to the pending
  ones and assert that no commit is under way, are not.
\<close>

datatype rd_kafka_txn_state_t =
    RD_KAFKA_TXN_STATE_INIT
  | RD_KAFKA_TXN_STATE_WAIT_PID
  | RD_KAFKA_TXN_STATE_READY_NOT_ACKED
  | RD_KAFKA_TXN_STATE_READY
  | RD_KAFKA_TXN_STATE_IN_TRANSACTION
  | RD_KAFKA_TXN_STATE_BEGIN_COMMIT
  | RD_KAFKA_TXN_STATE_COMMITTING_TRANSACTION
  | RD_KAFKA_TXN_STATE_ABORTING_TRANSACTION
  | RD_KAFKA_TXN_STATE_ABORTABLE_ERROR
  | RD_KAFKA_TXN_STATE_FATAL_ERROR

datatype rd_kafka_idemp_state_t =
    RD_KAFKA_IDEMP_STATE_INIT
  | RD_KAFKA_IDEMP_STATE_TERM
  | RD_KAFKA_IDEMP_STATE_FATAL_ERROR
  | RD_KAFKA_IDEMP_STATE_REQ_PID
  | RD_KAFKA_IDEMP_STATE_WAIT_TRANSPORT
  | RD_KAFKA_IDEMP_STATE_WAIT_PID
  | RD_KAFKA_IDEMP_STATE_ASSIGNED
  | RD_KAFKA_IDEMP_STATE_DRAIN_RESET
  | RD_KAFKA_IDEMP_STATE_DRAIN_BUMP

text \<open>An error object with its flags.\<close>

record rd_kafka_error =
  code :: int
  fatal :: bool
  retriable :: bool
  txn_requires_abort :: bool

datatype effect =
    Reply nat "rd_kafka_error option"
  | EndTxnRequest bool
  | Purge
  | WakeupBrokers
  | RestartPidTimer
  | RestartCoordTimer

record rk_eos =
  is_producer :: bool
  has_transactional_id :: bool
  terminating :: bool
  txn_state :: rd_kafka_txn_state_t
  idemp_state :: rd_kafka_idemp_state_t
  txn_may_enq :: bool
  txn_err :: int
  fatal_err :: int
  txn_init_rkq :: "nat option"
  txn_req_cnt :: nat
  txn_curr_coord :: "nat option"
  txn_pending :: "nat list"
  txn_waitresp :: "nat list"
  txn_rktps :: "nat list"
  effects :: "effect list"

definition ERR__DESTROY :: int where "ERR__DESTROY = - 197"
definition ERR__TRANSPORT :: int where "ERR__TRANSPORT = - 195"
definition ERR__INVALID_ARG :: int where "ERR__INVALID_ARG = - 186"
definition ERR__STATE :: int where "ERR__STATE = - 172"
definition ERR__OUTDATED :: int where "ERR__OUTDATED = - 167"
definition ERR__NOT_CONFIGURED :: int where "ERR__NOT_CONFIGURED = - 145"
definition ERR_COORDINATOR_NOT_AVAILABLE :: int where "ERR_COORDINATOR_NOT_AVAILABLE = 15"
definition ERR_NOT_COORDINATOR :: int where "ERR_NOT_COORDINATOR = 16"
definition ERR_INVALID_PRODUCER_EPOCH :: int where "ERR_INVALID_PRODUCER_EPOCH = 47"
definition ERR_INVALID_TXN_STATE :: int where "ERR_INVALID_TXN_STATE = 48"
definition ERR_TRANSACTIONAL_ID_AUTHORIZATION_FAILED :: int where "ERR_TRANSACTIONAL_ID_AUTHORIZATION_FAILED = 53"

definition emit :: "effect \<Rightarrow> rk_eos \<Rightarrow> rk_eos" where
  "emit e rk = rk\<lparr>effects := effects rk @ [e]\<rparr>"

definition plain_error :: "int \<Rightarrow> rd_kafka_error" where
  "plain_error err = \<lparr>code = err, fatal = False, retriable = False, txn_requires_abort = False\<rparr>"

subsection \<open>States\<close>

definition rd_kafka_ensure_transactional :: "rk_eos \<Rightarrow> rd_kafka_error option" where
  "rd_kafka_ensure_transactional rk =
     (if \<not> is_producer rk then Some (plain_error ERR__INVALID_ARG)
      else if \<not> has_transactional_id rk then Some (plain_error ERR__NOT_CONFIGURED)
      else None)"

definition rd_kafka_txn_require_states0 :: "rk_eos \<Rightarrow> rd_kafka_txn_state_t list \<Rightarrow> rd_kafka_error option" where
  "rd_kafka_txn_require_states0 rk states =
     (case rd_kafka_ensure_transactional rk of
        Some error \<Rightarrow> Some error
      | None \<Rightarrow>
          if txn_state rk \<in> set states then None
          else
            (let error = plain_error ERR__STATE in
             if txn_state rk = RD_KAFKA_TXN_STATE_FATAL_ERROR then Some (error\<lparr>fatal := True\<rparr>)
             else if txn_state rk = RD_KAFKA_TXN_STATE_ABORTABLE_ERROR then Some (error\<lparr>txn_requires_abort := True\<rparr>)
             else Some error))"

text \<open>Whether the change is valid, and whether it is to be ignored.\<close>

definition rd_kafka_txn_state_transition_is_valid :: "rd_kafka_txn_state_t \<Rightarrow> rd_kafka_txn_state_t \<Rightarrow> bool \<times> bool" where
  "rd_kafka_txn_state_transition_is_valid curr_state new_state =
     (case new_state of
        RD_KAFKA_TXN_STATE_INIT \<Rightarrow> (False, False)
      | RD_KAFKA_TXN_STATE_WAIT_PID \<Rightarrow> (curr_state = RD_KAFKA_TXN_STATE_INIT, False)
      | RD_KAFKA_TXN_STATE_READY_NOT_ACKED \<Rightarrow> (curr_state = RD_KAFKA_TXN_STATE_WAIT_PID, False)
      | RD_KAFKA_TXN_STATE_READY \<Rightarrow>
          (curr_state = RD_KAFKA_TXN_STATE_READY_NOT_ACKED \<or> curr_state = RD_KAFKA_TXN_STATE_COMMITTING_TRANSACTION \<or>
           curr_state = RD_KAFKA_TXN_STATE_ABORTING_TRANSACTION, False)
      | RD_KAFKA_TXN_STATE_IN_TRANSACTION \<Rightarrow> (curr_state = RD_KAFKA_TXN_STATE_READY, False)
      | RD_KAFKA_TXN_STATE_BEGIN_COMMIT \<Rightarrow> (curr_state = RD_KAFKA_TXN_STATE_IN_TRANSACTION, False)
      | RD_KAFKA_TXN_STATE_COMMITTING_TRANSACTION \<Rightarrow> (curr_state = RD_KAFKA_TXN_STATE_BEGIN_COMMIT, False)
      | RD_KAFKA_TXN_STATE_ABORTING_TRANSACTION \<Rightarrow>
          (curr_state = RD_KAFKA_TXN_STATE_IN_TRANSACTION \<or> curr_state = RD_KAFKA_TXN_STATE_ABORTABLE_ERROR, False)
      | RD_KAFKA_TXN_STATE_ABORTABLE_ERROR \<Rightarrow>
          if curr_state = RD_KAFKA_TXN_STATE_ABORTING_TRANSACTION \<or> curr_state = RD_KAFKA_TXN_STATE_FATAL_ERROR then (True, True)
          else
            (curr_state = RD_KAFKA_TXN_STATE_IN_TRANSACTION \<or> curr_state = RD_KAFKA_TXN_STATE_BEGIN_COMMIT \<or>
             curr_state = RD_KAFKA_TXN_STATE_COMMITTING_TRANSACTION, False)
      | RD_KAFKA_TXN_STATE_FATAL_ERROR \<Rightarrow> (True, False))"

definition rd_kafka_txn_set_state :: "rk_eos \<Rightarrow> rd_kafka_txn_state_t \<Rightarrow> rk_eos option" where
  "rd_kafka_txn_set_state rk new_state =
     (if txn_state rk = new_state then Some rk
      else
        (let (valid, ign) = rd_kafka_txn_state_transition_is_valid (txn_state rk) new_state in
         if \<not> valid then None
         else if ign then Some rk
         else
           (let rk =
              (if txn_state rk = RD_KAFKA_TXN_STATE_IN_TRANSACTION then rk\<lparr>txn_may_enq := False\<rparr>
               else if new_state = RD_KAFKA_TXN_STATE_IN_TRANSACTION then rk\<lparr>txn_may_enq := True\<rparr>
               else rk) in
            Some (rk\<lparr>txn_state := new_state\<rparr>))))"

subsection \<open>Errors and the producer id\<close>

definition rd_kafka_set_fatal_error0 :: "rk_eos \<Rightarrow> int \<Rightarrow> rk_eos" where
  "rd_kafka_set_fatal_error0 rk err =
     (if fatal_err rk \<noteq> 0 then rk
      else if is_producer rk then emit Purge (rk\<lparr>fatal_err := err\<rparr>)
      else rk\<lparr>fatal_err := err\<rparr>)"

text \<open>The reply to a program that waits for its producer to be initialised.\<close>

definition reply_init :: "rd_kafka_error option \<Rightarrow> rk_eos \<Rightarrow> rk_eos" where
  "reply_init error rk =
     (case txn_init_rkq rk of None \<Rightarrow> rk | Some q \<Rightarrow> (emit (Reply q error) rk)\<lparr>txn_init_rkq := None\<rparr>)"

definition rd_kafka_txn_set_fatal_error :: "rk_eos \<Rightarrow> int \<Rightarrow> rk_eos option" where
  "rd_kafka_txn_set_fatal_error rk err =
     (let rk = rd_kafka_set_fatal_error0 rk err;
          rk = rk\<lparr>txn_err := err\<rparr>;
          rk = reply_init (Some ((plain_error err)\<lparr>fatal := True\<rparr>)) rk in
      rd_kafka_txn_set_state rk RD_KAFKA_TXN_STATE_FATAL_ERROR)"

definition rd_kafka_txn_set_abortable_error :: "rk_eos \<Rightarrow> int \<Rightarrow> rk_eos option" where
  "rd_kafka_txn_set_abortable_error rk err =
     (if fatal_err rk \<noteq> 0 then Some rk
      else if txn_err rk \<noteq> 0 then Some rk
      else do {
        rk \<leftarrow> rd_kafka_txn_set_state (rk\<lparr>txn_err := err\<rparr>) RD_KAFKA_TXN_STATE_ABORTABLE_ERROR;
        Some (emit Purge rk) })"





subsection \<open>Partitions of the transaction\<close>



definition rd_kafka_txn_clear_pending_partitions :: "rk_eos \<Rightarrow> rk_eos" where
  "rd_kafka_txn_clear_pending_partitions rk = rk\<lparr>txn_pending := [], txn_waitresp := []\<rparr>"

definition rd_kafka_txn_clear_partitions :: "rk_eos \<Rightarrow> rk_eos" where
  "rd_kafka_txn_clear_partitions rk = rk\<lparr>txn_rktps := []\<rparr>"

subsection \<open>Calls of the program\<close>







definition rd_kafka_txn_complete :: "rk_eos \<Rightarrow> rk_eos option" where
  "rd_kafka_txn_complete rk =
     rd_kafka_txn_set_state (rd_kafka_txn_clear_partitions (rd_kafka_txn_clear_pending_partitions rk)) RD_KAFKA_TXN_STATE_READY"


subsection \<open>The response to the end of a transaction\<close>

text \<open>Losing the coordinator: with no new one only the timer is started.\<close>

definition rd_kafka_txn_coord_lost :: "rk_eos \<Rightarrow> rk_eos" where
  "rd_kafka_txn_coord_lost rk = emit RestartCoordTimer (rk\<lparr>txn_curr_coord := None\<rparr>)"

text \<open>
  \<open>err\<close> is the error of the request itself; the response is an error of parsing, \<open>Inl\<close>, or the
  error code the coordinator sends, \<open>Inr\<close>.  \<open>retried\<close> tells whether the request can be sent again.
\<close>

definition EndTxn_err :: "int \<Rightarrow> int + int \<Rightarrow> int" where
  "EndTxn_err err response =
     (if err \<noteq> 0 then err
      else
        (let (rkbuf_err, err) = (case response of Inl e \<Rightarrow> (e, err) | Inr ErrorCode \<Rightarrow> (0, ErrorCode)) in
         rkbuf_err))"

definition rd_kafka_txn_handle_EndTxn :: "rk_eos \<Rightarrow> int \<Rightarrow> int + int \<Rightarrow> bool \<Rightarrow> nat \<Rightarrow> rk_eos option" where
  "rd_kafka_txn_handle_EndTxn rk err0 response retried rkq =
     (if err0 = ERR__DESTROY then Some rk
      else do {
        let err = EndTxn_err err0 response;
        let err = (if txn_state rk = RD_KAFKA_TXN_STATE_COMMITTING_TRANSACTION \<or>
                      txn_state rk = RD_KAFKA_TXN_STATE_ABORTING_TRANSACTION then err else ERR__OUTDATED);
        let reply = (\<lambda>rk. Some (emit (Reply rkq (if err \<noteq> 0 then Some (plain_error err) else None)) rk));
        if err = 0 then do { rk \<leftarrow> rd_kafka_txn_complete rk; reply rk }
        else if err = ERR__OUTDATED \<or> err = ERR__DESTROY then reply rk
        else if err \<in> {ERR_COORDINATOR_NOT_AVAILABLE, ERR_NOT_COORDINATOR, ERR__TRANSPORT} then do {
          let rk = rd_kafka_txn_coord_lost rk;
          if retried then Some rk
          else do { rk \<leftarrow> rd_kafka_txn_set_abortable_error rk err; reply rk } }
        else if err \<in> {ERR_INVALID_PRODUCER_EPOCH, ERR_TRANSACTIONAL_ID_AUTHORIZATION_FAILED, ERR_INVALID_TXN_STATE} then do {
          rk \<leftarrow> rd_kafka_txn_set_fatal_error rk err; reply rk }
        else do { rk \<leftarrow> rd_kafka_txn_set_abortable_error rk err; reply rk } })"

subsection \<open>Every order of events\<close>


definition idle_states :: "rd_kafka_txn_state_t set" where
  "idle_states = {RD_KAFKA_TXN_STATE_INIT, RD_KAFKA_TXN_STATE_WAIT_PID, RD_KAFKA_TXN_STATE_READY_NOT_ACKED, RD_KAFKA_TXN_STATE_READY}"

definition listed_rktps :: "rk_eos \<Rightarrow> nat list" where
  "listed_rktps rk = txn_pending rk @ txn_waitresp rk @ txn_rktps rk"





definition txn_inv :: "rk_eos \<Rightarrow> bool" where
  "txn_inv rk \<longleftrightarrow> is_producer rk \<and> has_transactional_id rk \<and> (txn_may_enq rk \<longleftrightarrow> txn_state rk = RD_KAFKA_TXN_STATE_IN_TRANSACTION) \<and>
     (txn_state rk \<in> idle_states \<longrightarrow> txn_rktps rk = []) \<and> distinct (listed_rktps rk)"

text \<open>A handler that passes its assertions and keeps what holds.\<close>

definition txn_fine :: "rk_eos \<Rightarrow> rk_eos option \<Rightarrow> bool" where
  "txn_fine rk r \<longleftrightarrow> (\<exists>rk'. r = Some rk' \<and> txn_inv rk' \<and>
     (txn_state rk = RD_KAFKA_TXN_STATE_FATAL_ERROR \<longrightarrow> txn_state rk' = RD_KAFKA_TXN_STATE_FATAL_ERROR))"

lemmas txn_simps = txn_fine_def txn_inv_def idle_states_def listed_rktps_def emit_def rd_kafka_txn_set_state_def
  rd_kafka_txn_state_transition_is_valid_def rd_kafka_txn_require_states0_def rd_kafka_ensure_transactional_def Let_def






















text \<open>
  The error code of the coordinator is overwritten before it is looked at: a commit or an abort
  that the coordinator refuses, whatever the reason, is completed and reported as successful.
\<close>

lemma EndTxn_error_lost:
  assumes "txn_state rk \<in> {RD_KAFKA_TXN_STATE_COMMITTING_TRANSACTION, RD_KAFKA_TXN_STATE_ABORTING_TRANSACTION}"
  shows "\<exists>rk'. rd_kafka_txn_handle_EndTxn rk 0 (Inr ErrorCode) rt q = Some rk' \<and> txn_state rk' = RD_KAFKA_TXN_STATE_READY \<and>
    last (effects rk') = Reply q None"
  using assms by (auto simp: rd_kafka_txn_handle_EndTxn_def EndTxn_err_def ERR__DESTROY_def txn_simps rd_kafka_txn_complete_def
      rd_kafka_txn_clear_pending_partitions_def rd_kafka_txn_clear_partitions_def)

text \<open>
  The condition on errors is needed: an error of the transaction that is raised when there is none
  fails the assertion.  Whether a caller can do so is not shown.
\<close>

lemma abortable_error_idle:
  assumes "txn_state rk \<in> idle_states" "fatal_err rk = 0" "txn_err rk = 0"
  shows "rd_kafka_txn_set_abortable_error rk err = None"
  using assms by (auto simp: rd_kafka_txn_set_abortable_error_def txn_simps)

end
