(* ===== verification/Spec2Isabelle.thy ===== *)
theory Spec2Isabelle
  imports RB_Remove KT_Props KT_Topics CStrSplit CStrTime KT_State KT_Consumer ReadConfValue KT_Misc KT_Consume KT_Mem KT_Lock RK_Varint RK_Crc32c RK_Assign RK_Reader RK_Produce RK_TxnMgr
begin

text \<open>
  The repository holds \<open>kafkatools\<close>, a C library with a producer and a consumer of Kafka messages
  over librdkafka, two sample programs (\<open>src/src/produce.c\<close>, \<open>src/src/consume.c\<close>), the helpers under
  \<open>src/src/common\<close>, and a copy of librdkafka itself (\<open>src/librdkafka-1.4.2\<close>).

  \<^bold>\<open>How the parts interact.\<close>  A program calls \<open>kafkatools_producer_state_init\<close> with a properties
  file.  The file is read twice by the configuration reader (\<open>readconf.c\<close>) through
  \<open>kafkatools_props_readconf\<close>, which copies the pairs of one section into a buffer;
  \<open>kafkatools_props_retrieve\<close> cuts it into names and values.  \<open>kafkatools_producer_create\<close> hands
  them to librdkafka and keeps a red-black tree (\<open>red_black_tree.c\<close>) as a cache from topic names to
  topic handles.  \<open>kafkatools_producer_get_topic\<close> looks a topic up there or makes it,
  \<open>kafkatools_produce_timedwait\<close> offers a message until it is taken, and
  \<open>kafkatools_producer_destroy\<close> waits for the queue and releases everything.  The consumer has
  the same cache and a list of topics and partitions.  Strings go through \<open>cstrbuf.h\<close>; clocks,
  files and paths through \<open>misc.h\<close>.  Inside librdkafka the leader of a consumer group divides the
  partitions (\<open>rdkafka_assignor.c\<close> with the two assignors), messages carry variable-length
  integers (\<open>rdvarint.h\<close>) and their sets a checksum (\<open>crc32c.c\<close>), and the aborted transactions
  of a fetch response are kept per producer id in an AVL tree (\<open>rdavl.c\<close>).  A message that is
  produced is put on the queue of the partition its key is hashed to, and back there in order
  when it is sent again.

  \<^bold>\<open>Conventions.\<close>  An operation that may dereference a null or freed pointer, abort the process, run
  into undefined behaviour or not return has an \<open>option\<close> result and \<open>None\<close> is all of these; every
  property that says an operation returns therefore says it equals \<open>Some\<close> of something.  State is
  passed explicitly.  Loops are structural where the code counts along a list, \<open>function\<close> with a
  measure where it consumes a buffer, and \<open>partial_function (option)\<close> where it follows pointers or
  waits; for these the return is proved.  There is no fuel.  Unsigned and wrapping arithmetic is
  on machine words; \<open>int\<close> values are mathematical integers where the properties bound them.

  \<^bold>\<open>Calls of librdkafka, the allocator and the mutex\<close> by the wrapper are events of a trace
  (theory KT_Env); the results come from an environment, a function of the history.  The
  documented behaviour that is used is stated as named hypotheses, above all that
  \<open>rd_kafka_topic_new\<close> returns the same handle with one more reference for a name that is in use.
  What a state owns is computed from the trace.
\<close>

subsection \<open>Theories and the code they model\<close>

text \<open>
  \<^item> KT_Prelude, CString, KT_Types: pointers, 32-bit results, the C library on strings, the
    constants of \<open>src/src/kafkatools.h\<close>.
  \<^item> RB_Heap: every function of \<open>src/src/common/red_black_tree.c\<close> over an explicit store of nodes.
    RB_Shape relates a store to a tree, RB_Invariant has the colours and black heights, RB_Insert
    and RB_Main the correctness of insertion, RB_Search, RB_Query and RB_Order the lookups and the
    order, RB_Fixup and RB_Splice the pointer work of removal, RB_Remove that a tree built by
    insertions and removals implements a multiset.  Removal keeps structure, size and order; it
    does not keep the black heights, which is a finding.
  \<^item> ReadConf, ReadConfValue: \<open>src/src/common/readconf.c\<close>, a file being the characters left to
    read.  The properties describe whole text files, given as lists of lines.
  \<^item> KT_Props: \<open>kafkatools_props_readconf\<close> and \<open>kafkatools_props_retrieve\<close> with the round trip through
    the buffer.
  \<^item> KT_Env, KT_Topics: the environment and the topic cache as a map, by a locale that the tree
    of topics interprets.
  \<^item> KT_Producer, KT_State: \<open>src/src/kafkatools_producer.c\<close> and \<open>src/src/produce.c\<close>.  Creation
    balances its resources on every path, the running producer is an inductive set of states with
    its invariant, the cache refines a map, sending ends and hands a message over at most once,
    destruction releases all.
  \<^item> KT_Consumer: \<open>src/src/kafkatools_consumer.c\<close>, with the same resource properties.
  \<^item> CStrBuf, CStrFun, CStrSplit, CStrCmp, CStrNum, CStrTime: \<open>src/src/common/cstrbuf.h\<close>.
  \<^item> KT_Misc: \<open>src/src/common/misc.h\<close> in the Linux variant: calendar, time differences, reading and
    writing loops, the search for the configuration file.
  \<^item> KT_Consume: \<open>src/src/consume.c\<close>.  Its start is composed from the functions of the consumer, its
    endless loop is followed for any number of rounds.
  \<^item> KT_Mem: \<open>src/src/common/memapi.h\<close> over an explicit heap of blocks.
  \<^item> KT_Lock: \<open>src/src/common/thread_rwlock.h\<close> in both variants, with the interleavings of its calls as
    an inductive relation and exclusion as a locale that both variants interpret.
  \<^item> RK_Base, RK_Varint, RK_Crc32c, RK_Assign: \<open>rdvarint.h\<close>, \<open>crc32c.c\<close> with both versions of the
    checksum, and \<open>rdkafka_assignor.c\<close>, \<open>rdkafka_range_assignor.c\<close>, \<open>rdkafka_roundrobin_assignor.c\<close> of
    \<open>src/librdkafka-1.4.2/src\<close>.
  \<^item> RK_Avl, RK_Txn: the AVL tree of \<open>rdavl.c\<close> and \<open>rdavl.h\<close>, with balancing as a recursion that is
    shown to return, and its client, the aborted transactions of \<open>rdkafka_msgset_reader.c\<close> over the
    lists of \<open>rdlist.c\<close>, filled as the fetch response handler in \<open>rdkafka_broker.c\<close> fills them.
  \<^item> RK_Reader: the reader of version 2 message sets in \<open>rdkafka_msgset_reader.c\<close>, from parsed fields
    on, against a log of transactions of several producers.
  \<^item> RK_Msgq: the queues of messages in \<open>rdkafka_msg.h\<close>, \<open>rdkafka_msg.c\<close> and \<open>rdkafka_partition.c\<close>, with
    merging proved once for every order of messages and used for both orders of the code.
  \<^item> RK_Hash, RK_Produce: the hash functions (\<open>rdmurmur2.c\<close>, \<open>rdfnv1a.c\<close>, \<open>rdcrc32.c\<close>) and the
    partitioners of \<open>rdkafka_msg.c\<close>, and the way of a message to the queue of its partition.
  \<^item> RK_TxnMgr: the transaction manager of \<open>rdkafka_txnmgr.c\<close> with the states of
    \<open>rdkafka_idempotence.c\<close>.  The orders in which calls, errors and responses come are an inductive
    set of states with its invariant.
\<close>

subsection \<open>What is not modelled\<close>

text \<open>
  The rest of librdkafka, which is the network client (brokers, requests, threads, timers, security
  layers), and the vendored headers under \<open>src/libs\<close> and \<open>src/pthreads-w32\<close>: the wrapper only calls
  public functions of it, and these are the environment.  The allocator and the locks of the
  systems are given by their documented behaviour.  Of \<open>cstrbuf.h\<close>, \<open>cstr_to_dbl\<close> is left out because
  of its floating-point arithmetic.  The functions of \<open>misc.h\<close> that pass their arguments to one
  system call, and the variants for Windows, are left out.  Text that is only printed or logged
  is left out, except for the lines of \<open>consume.c\<close>.  The mutex calls have no effect on a model with one thread.
  Of the transaction manager, the response to AddPartitionsToTxn (but for the registration of a
  partition), the sending of offsets, the search for the coordinator and the timeouts of blocking
  calls are left out; the property of RK_TxnMgr names the conditions it puts on them.
\<close>

end
